(* ===== verification/Prelude.thy ===== *)
theory Prelude
  imports Main "HOL-Library.Word"
begin

text \<open>
  Shared ground of the development: programs with an explicit state, C++ exceptions and
  undefined behaviour as outcomes, total-correctness triples with one rule per combinator,
  reachability of a step relation with an invariant locale, and the contract of state
  that is initialised once and then only read.
\<close>

section \<open>Programs\<close>

text \<open>
  A C++ exception is either a \<open>std::exception\<close>, with its \<open>what()\<close> text, or anything else
  (\<open>catch (...)\<close>). A computation ends with a value, with an exception in flight, or in
  undefined behaviour (a dereferenced null pointer, a call on a deleted object, an access
  past a buffer). Undefined behaviour is not an exception: no handler catches it.
\<close>

datatype exn = StdException string | OtherException

datatype 'a outcome = Ok 'a | Throw exn | Undef

type_synonym ('s, 'a) prog = "'s \<Rightarrow> 'a outcome \<times> 's"

named_theorems prog_simps "execution of one program combinator"

definition ret :: "'a \<Rightarrow> ('s, 'a) prog" where
  "ret x s = (Ok x, s)"

definition bnd :: "('s, 'a) prog \<Rightarrow> ('a \<Rightarrow> ('s, 'b) prog) \<Rightarrow> ('s, 'b) prog" where
  "bnd m f s = (case m s of
     (Ok x, t) \<Rightarrow> f x t
   | (Throw e, t) \<Rightarrow> (Throw e, t)
   | (Undef, t) \<Rightarrow> (Undef, t))"

definition andThen :: "('s, 'a) prog \<Rightarrow> ('s, 'b) prog \<Rightarrow> ('s, 'b) prog" where
  "andThen m n = bnd m (\<lambda>_. n)"

definition raise :: "exn \<Rightarrow> ('s, 'a) prog" where
  "raise e s = (Throw e, s)"

definition undef :: "('s, 'a) prog" where
  "undef s = (Undef, s)"

definition gets :: "('s \<Rightarrow> 'a) \<Rightarrow> ('s, 'a) prog" where
  "gets f s = (Ok (f s), s)"

definition modify :: "('s \<Rightarrow> 's) \<Rightarrow> ('s, unit) prog" where
  "modify f s = (Ok (), f s)"

definition try_catch :: "('s, 'a) prog \<Rightarrow> (exn \<Rightarrow> ('s, 'a) prog) \<Rightarrow> ('s, 'a) prog" where
  "try_catch m h s = (case m s of
     (Ok x, t) \<Rightarrow> (Ok x, t)
   | (Throw e, t) \<Rightarrow> h e t
   | (Undef, t) \<Rightarrow> (Undef, t))"

definition whenever :: "bool \<Rightarrow> ('s, unit) prog \<Rightarrow> ('s, unit) prog" where
  "whenever c m = (if c then m else ret ())"

primrec for_each :: "('a \<Rightarrow> ('s, unit) prog) \<Rightarrow> 'a list \<Rightarrow> ('s, unit) prog" where
  "for_each f [] = ret ()"
| "for_each f (x # xs) = andThen (f x) (for_each f xs)"

lemmas prog_defs = ret_def bnd_def andThen_def raise_def undef_def gets_def modify_def
  try_catch_def whenever_def

lemma run_ret [prog_simps]: "ret x s = (Ok x, s)"
  by (simp add: ret_def)

lemma run_raise [prog_simps]: "raise e s = (Throw e, s)"
  by (simp add: raise_def)

lemma run_undef [prog_simps]: "undef s = (Undef, s)"
  by (simp add: undef_def)

lemma run_gets [prog_simps]: "gets f s = (Ok (f s), s)"
  by (simp add: gets_def)

lemma run_modify [prog_simps]: "modify f s = (Ok (), f s)"
  by (simp add: modify_def)

lemma run_bnd_Ok [prog_simps]: "m s = (Ok x, t) \<Longrightarrow> bnd m f s = f x t"
  by (simp add: bnd_def)

lemma run_bnd_bool [prog_simps]:
  "m s = (Ok True, t) \<Longrightarrow> bnd m g s = g True t"
  "m s = (Ok False, t) \<Longrightarrow> bnd m g s = g False t"
  by (simp_all add: bnd_def)

lemma run_bnd_Throw [prog_simps]: "m s = (Throw e, t) \<Longrightarrow> bnd m f s = (Throw e, t)"
  by (simp add: bnd_def)

lemma run_bnd_Undef [prog_simps]: "m s = (Undef, t) \<Longrightarrow> bnd m f s = (Undef, t)"
  by (simp add: bnd_def)

lemma run_andThen_Ok [prog_simps]: "m s = (Ok x, t) \<Longrightarrow> andThen m n s = n t"
  by (simp add: andThen_def bnd_def)

lemma run_andThen_Throw [prog_simps]: "m s = (Throw e, t) \<Longrightarrow> andThen m n s = (Throw e, t)"
  by (simp add: andThen_def bnd_def)

lemma run_andThen_Undef [prog_simps]: "m s = (Undef, t) \<Longrightarrow> andThen m n s = (Undef, t)"
  by (simp add: andThen_def bnd_def)

lemma run_try_Ok [prog_simps]: "m s = (Ok x, t) \<Longrightarrow> try_catch m h s = (Ok x, t)"
  by (simp add: try_catch_def)

lemma run_try_Throw [prog_simps]: "m s = (Throw e, t) \<Longrightarrow> try_catch m h s = h e t"
  by (simp add: try_catch_def)

lemma run_try_Undef [prog_simps]: "m s = (Undef, t) \<Longrightarrow> try_catch m h s = (Undef, t)"
  by (simp add: try_catch_def)

lemma run_whenever [prog_simps]: "whenever c m s = (if c then m s else (Ok (), s))"
  by (simp add: whenever_def ret_def)

lemma bnd_assoc: "bnd (bnd m f) g = bnd m (\<lambda>x. bnd (f x) g)"
  by (rule ext) (simp add: bnd_def split: prod.split outcome.split)

lemma for_each_append:
  "for_each f (xs @ ys) = andThen (for_each f xs) (for_each f ys)"
proof (induction xs)
  case Nil
  show ?case by (rule ext) (simp add: andThen_def bnd_def ret_def)
next
  case (Cons x xs)
  then show ?case by (simp add: andThen_def bnd_assoc)
qed

section \<open>Triples\<close>

text \<open>
  \<open>triple P m Q E\<close>: from a state that satisfies \<open>P\<close> the program \<open>m\<close> has no undefined
  behaviour; if it returns \<open>x\<close> then \<open>Q x\<close> holds of the final state, and if it throws \<open>e\<close>
  then \<open>E e\<close> does. Programs are total functions, so this is total correctness.
\<close>

definition triple ::
  "('s \<Rightarrow> bool) \<Rightarrow> ('s, 'a) prog \<Rightarrow> ('a \<Rightarrow> 's \<Rightarrow> bool) \<Rightarrow> (exn \<Rightarrow> 's \<Rightarrow> bool) \<Rightarrow> bool" where
  "triple P m Q E \<longleftrightarrow> (\<forall>s. P s \<longrightarrow> (case m s of
     (Ok x, t) \<Rightarrow> Q x t | (Throw e, t) \<Rightarrow> E e t | (Undef, t) \<Rightarrow> False))"

abbreviation keeps :: "('s \<Rightarrow> bool) \<Rightarrow> ('s, 'a) prog \<Rightarrow> bool" where
  "keeps I m \<equiv> triple I m (\<lambda>_. I) (\<lambda>_. I)"

named_theorems triple_intros "rules that take a triple apart along the program"

lemma tripleI:
  assumes "\<And>s x t. P s \<Longrightarrow> m s = (Ok x, t) \<Longrightarrow> Q x t"
    and "\<And>s e t. P s \<Longrightarrow> m s = (Throw e, t) \<Longrightarrow> E e t"
    and "\<And>s t. P s \<Longrightarrow> m s = (Undef, t) \<Longrightarrow> False"
  shows "triple P m Q E"
  unfolding triple_def using assms by (auto split: prod.split outcome.split)

lemma triple_Ok: "triple P m Q E \<Longrightarrow> P s \<Longrightarrow> m s = (Ok x, t) \<Longrightarrow> Q x t"
  by (force simp: triple_def)

lemma triple_Throw: "triple P m Q E \<Longrightarrow> P s \<Longrightarrow> m s = (Throw e, t) \<Longrightarrow> E e t"
  by (force simp: triple_def)

lemma triple_Undef: "triple P m Q E \<Longrightarrow> P s \<Longrightarrow> m s = (Undef, t) \<Longrightarrow> False"
  by (force simp: triple_def)

lemma triple_not_Undef: "triple P m Q E \<Longrightarrow> P s \<Longrightarrow> fst (m s) \<noteq> Undef"
  by (cases "m s") (auto dest: triple_Undef)

lemma triple_conseq:
  assumes "triple P m Q E" and "\<And>s. P' s \<Longrightarrow> P s"
    and "\<And>x s. Q x s \<Longrightarrow> Q' x s" and "\<And>e s. E e s \<Longrightarrow> E' e s"
  shows "triple P' m Q' E'"
proof (rule tripleI)
  fix s x t assume "P' s" "m s = (Ok x, t)"
  with assms show "Q' x t" by (blast dest: triple_Ok)
next
  fix s e t assume "P' s" "m s = (Throw e, t)"
  with assms show "E' e t" by (blast dest: triple_Throw)
next
  fix s t assume "P' s" "m s = (Undef, t)"
  with assms show False by (blast dest: triple_Undef)
qed

lemma triple_pre: "triple P m Q E \<Longrightarrow> (\<And>s. P' s \<Longrightarrow> P s) \<Longrightarrow> triple P' m Q E"
  by (rule triple_conseq)

lemma triple_ret [triple_intros]: "(\<And>s. P s \<Longrightarrow> Q x s) \<Longrightarrow> triple P (ret x) Q E"
  by (simp add: triple_def ret_def)

lemma triple_raise [triple_intros]: "(\<And>s. P s \<Longrightarrow> E e s) \<Longrightarrow> triple P (raise e) Q E"
  by (simp add: triple_def raise_def)

lemma triple_undef: "(\<And>s. \<not> P s) \<Longrightarrow> triple P undef Q E"
  by (simp add: triple_def undef_def)

lemma triple_gets: "(\<And>s. P s \<Longrightarrow> Q (f s) s) \<Longrightarrow> triple P (gets f) Q E"
  by (simp add: triple_def gets_def)

lemma triple_modify: "(\<And>s. P s \<Longrightarrow> Q () (f s)) \<Longrightarrow> triple P (modify f) Q E"
  by (simp add: triple_def modify_def)

lemma triple_pure:
  assumes "\<And>s. \<exists>x. m s = (Ok x, s)"
  shows "triple P m (\<lambda>_. P) E"
  unfolding triple_def
proof (intro allI impI)
  fix s assume "P s"
  moreover obtain x where "m s = (Ok x, s)" using assms by blast
  ultimately show "case m s of (Ok x, t) \<Rightarrow> P t | (Throw e, t) \<Rightarrow> E e t | (Undef, t) \<Rightarrow> False" by simp
qed

lemma triple_bnd:
  assumes m: "triple P m R E" and f: "\<And>x. triple (R x) (f x) Q E"
  shows "triple P (bnd m f) Q E"
  unfolding triple_def
proof (intro allI impI)
  fix s assume P: "P s"
  obtain r t where run: "m s = (r, t)" by fastforce
  show "case bnd m f s of (Ok x, t) \<Rightarrow> Q x t | (Throw e, t) \<Rightarrow> E e t | (Undef, t) \<Rightarrow> False"
  proof (cases r)
    case (Ok x)
    with run have "bnd m f s = f x t" by (simp add: run_bnd_Ok)
    moreover from m P run Ok have "R x t" by (blast dest: triple_Ok)
    ultimately show ?thesis using f[of x] by (simp add: triple_def)
  next
    case (Throw e)
    with run m P have "bnd m f s = (Throw e, t)" "E e t"
      by (auto simp: run_bnd_Throw dest: triple_Throw)
    then show ?thesis by simp
  next
    case Undef
    with run m P show ?thesis by (blast dest: triple_Undef)
  qed
qed

lemma triple_andThen:
  "triple P m (\<lambda>_. R) E \<Longrightarrow> triple R n Q E \<Longrightarrow> triple P (andThen m n) Q E"
  unfolding andThen_def by (rule triple_bnd)

lemma triple_gets_bnd:
  "(\<And>x. triple (\<lambda>s. P s \<and> f s = x) (g x) Q E) \<Longrightarrow> triple P (bnd (gets f) g) Q E"
  unfolding triple_def bnd_def gets_def by auto

lemma triple_try:
  assumes m: "triple P m Q R" and h: "\<And>e. triple (R e) (h e) Q E"
  shows "triple P (try_catch m h) Q E"
  unfolding triple_def
proof (intro allI impI)
  fix s assume P: "P s"
  obtain r t where run: "m s = (r, t)" by fastforce
  show "case try_catch m h s of (Ok x, t) \<Rightarrow> Q x t | (Throw e, t) \<Rightarrow> E e t | (Undef, t) \<Rightarrow> False"
  proof (cases r)
    case (Ok x)
    with run m P have "try_catch m h s = (Ok x, t)" "Q x t"
      by (auto simp: run_try_Ok dest: triple_Ok)
    then show ?thesis by simp
  next
    case (Throw e)
    with run have "try_catch m h s = h e t" by (simp add: run_try_Throw)
    moreover from m P run Throw have "R e t" by (blast dest: triple_Throw)
    ultimately show ?thesis using h[of e] by (simp add: triple_def)
  next
    case Undef
    with run m P show ?thesis by (blast dest: triple_Undef)
  qed
qed

lemma triple_if [triple_intros]:
  "(c \<Longrightarrow> triple P m Q E) \<Longrightarrow> (\<not> c \<Longrightarrow> triple P n Q E) \<Longrightarrow>
   triple P (if c then m else n) Q E"
  by simp

lemma triple_whenever:
  "(c \<Longrightarrow> triple P m Q E) \<Longrightarrow> (\<And>s. \<not> c \<Longrightarrow> P s \<Longrightarrow> Q () s) \<Longrightarrow> triple P (whenever c m) Q E"
  by (simp add: whenever_def triple_ret)

lemma triple_case_option [triple_intros]:
  "(x = None \<Longrightarrow> triple P m Q E) \<Longrightarrow> (\<And>y. x = Some y \<Longrightarrow> triple P (n y) Q E) \<Longrightarrow>
   triple P (case x of None \<Rightarrow> m | Some y \<Rightarrow> n y) Q E"
  by (cases x) simp_all

lemma triple_case_sum [triple_intros]:
  "(\<And>a. x = Inl a \<Longrightarrow> triple P (m a) Q E) \<Longrightarrow> (\<And>b. x = Inr b \<Longrightarrow> triple P (n b) Q E) \<Longrightarrow>
   triple P (case x of Inl a \<Rightarrow> m a | Inr b \<Rightarrow> n b) Q E"
  by (cases x) simp_all

lemma triple_case_prod [triple_intros]:
  "(\<And>a b. x = (a, b) \<Longrightarrow> triple P (f a b) Q E) \<Longrightarrow> triple P (case x of (a, b) \<Rightarrow> f a b) Q E"
  by (cases x) simp

lemma triple_Let [triple_intros]: "triple P (f t) Q E \<Longrightarrow> triple P (let x = t in f x) Q E"
  by simp

text \<open>The rules for an invariant: every part of the program keeps it.\<close>

lemma keeps_bnd [triple_intros]:
  "keeps I m \<Longrightarrow> (\<And>x. triple I (f x) Q (\<lambda>_. I)) \<Longrightarrow> triple I (bnd m f) Q (\<lambda>_. I)"
  by (rule triple_bnd)

lemma keeps_andThen [triple_intros]:
  "keeps I m \<Longrightarrow> triple I n Q (\<lambda>_. I) \<Longrightarrow> triple I (andThen m n) Q (\<lambda>_. I)"
  by (rule triple_andThen)

lemma keeps_gets [triple_intros]: "keeps I (gets f)"
  by (rule triple_gets)

lemma keeps_whenever [triple_intros]: "(c \<Longrightarrow> keeps I m) \<Longrightarrow> keeps I (whenever c m)"
  by (rule triple_whenever)

lemma keeps_try [triple_intros]:
  "keeps I m \<Longrightarrow> (\<And>e. keeps I (h e)) \<Longrightarrow> keeps I (try_catch m h)"
  by (rule triple_try)

lemma keeps_for_each [triple_intros]:
  "(\<And>x. x \<in> set xs \<Longrightarrow> keeps I (f x)) \<Longrightarrow> keeps I (for_each f xs)"
  by (induction xs) (auto intro: triple_intros)

section \<open>Reachable states\<close>

inductive reach :: "('s \<Rightarrow> bool) \<Rightarrow> ('s \<Rightarrow> 's \<Rightarrow> bool) \<Rightarrow> 's \<Rightarrow> bool" for init step where
  reach_init: "init s \<Longrightarrow> reach init step s"
| reach_step: "reach init step s \<Longrightarrow> step s t \<Longrightarrow> reach init step t"

locale inv_system =
  fixes init :: "'s \<Rightarrow> bool" and step :: "'s \<Rightarrow> 's \<Rightarrow> bool" and inv :: "'s \<Rightarrow> bool"
  assumes inv_init: "init s \<Longrightarrow> inv s"
    and inv_step: "inv s \<Longrightarrow> step s t \<Longrightarrow> inv t"
begin

lemma invariant: "reach init step s \<Longrightarrow> inv s"
  by (induction rule: reach.induct) (auto intro: inv_init inv_step)

end

lemma reach_trans:
  assumes "reach init step s" and "reach (\<lambda>x. x = s) step t"
  shows "reach init step t"
  using assms(2)
proof (induction rule: reach.induct)
  case (reach_init x)
  with assms(1) show ?case by simp
next
  case (reach_step x y)
  from reach_step.IH reach_step.hyps(2) show ?case by (rule reach.reach_step)
qed

text \<open>
  A system that keeps an invariant simulates a specification: seen through \<open>abs\<close> every step is
  a step of the specification. What holds of the specification then holds of the system.
\<close>

locale simulation = inv_system +
  fixes ainit :: "'a \<Rightarrow> bool" and astep :: "'a \<Rightarrow> 'a \<Rightarrow> bool" and abs :: "'s \<Rightarrow> 'a"
  assumes sim_init: "init s \<Longrightarrow> ainit (abs s)"
    and sim_step: "inv s \<Longrightarrow> step s t \<Longrightarrow> astep (abs s) (abs t)"
begin

lemma simulated: "reach init step s \<Longrightarrow> reach ainit astep (abs s)"
proof (induction rule: reach.induct)
  case (reach_init s)
  then show ?case by (intro reach.reach_init sim_init)
next
  case (reach_step s t)
  from reach_step.hyps(1) have "inv s" by (rule invariant)
  with reach_step show ?case by (blast intro: reach.reach_step sim_step)
qed

lemma inherits: "(\<And>a. reach ainit astep a \<Longrightarrow> P a) \<Longrightarrow> reach init step s \<Longrightarrow> P (abs s)"
  using simulated by blast

end

section \<open>State that is initialised once\<close>

text \<open>
  The code keeps several values that the first caller creates and every later caller reads
  back: the engine singleton, the module singleton, the body-read mode, the cached rules of
  a file, the stored configuration of a path. They share one contract: a kept value stays,
  whatever \<open>get\<close> returns is the kept value, and \<open>get\<close> may fail. \<open>reliable_memo\<close> is the
  stronger contract of those that never fail once the value is kept.
\<close>

locale memo =
  fixes kept :: "'s \<Rightarrow> 'v option" and get :: "'i \<Rightarrow> 's \<Rightarrow> 'v option \<times> 's"
  assumes get_hit: "kept s = Some v \<Longrightarrow> fst (get i s) = None \<or> fst (get i s) = Some v"
    and keep_hit: "kept s = Some v \<Longrightarrow> kept (snd (get i s)) = Some v"
    and get_miss: "kept s = None \<Longrightarrow> kept (snd (get i s)) = fst (get i s)"
begin

inductive after :: "'s \<Rightarrow> 's \<Rightarrow> bool" where
  after_refl: "after s s"
| after_get: "after s t \<Longrightarrow> after s (snd (get i t))"

lemma kept_get: "fst (get i s) = Some v \<Longrightarrow> kept (snd (get i s)) = Some v"
proof (cases "kept s")
  case None
  then show "fst (get i s) = Some v \<Longrightarrow> ?thesis" by (simp add: get_miss)
next
  case (Some u)
  then show "fst (get i s) = Some v \<Longrightarrow> ?thesis"
    using get_hit[of s u i] keep_hit[of s u i] by auto
qed

lemma kept_stable: "after s t \<Longrightarrow> kept s = Some v \<Longrightarrow> kept t = Some v"
  by (induction rule: after.induct) (auto intro: keep_hit)

text \<open>Whatever a later caller gets is what an earlier caller got.\<close>

lemma agree:
  assumes "fst (get i s) = Some v" and "after (snd (get i s)) t" and "fst (get j t) = Some u"
  shows "u = v"
proof -
  from assms(1,2) have "kept t = Some v" by (blast intro: kept_stable kept_get)
  with get_hit[of t v j] assms(3) show ?thesis by auto
qed

end

locale reliable_memo = memo +
  assumes get_total: "kept s = Some v \<Longrightarrow> fst (get i s) \<noteq> None"
begin

lemma hit: "kept s = Some v \<Longrightarrow> fst (get i s) = Some v"
  using get_hit[of s v i] get_total[of s v i] by auto

lemma get_again:
  assumes "fst (get i s) = Some v" and "after (snd (get i s)) t"
  shows "fst (get j t) = Some v"
  using assms by (blast intro: hit kept_stable kept_get)

end

text \<open>A program seen as such a \<open>get\<close>: the value it returned, if any, and its final state.\<close>

definition result_of :: "('s, 'a) prog \<Rightarrow> 's \<Rightarrow> 'a option \<times> 's" where
  "result_of m s = (case m s of (Ok x, t) \<Rightarrow> (Some x, t) | (Throw e, t) \<Rightarrow> (None, t)
     | (Undef, t) \<Rightarrow> (None, t))"

section \<open>Lists and words\<close>

lemma takeWhile_replicate_append:
  "\<forall>x \<in> set xs. x \<noteq> a \<Longrightarrow> takeWhile (\<lambda>x. x \<noteq> a) (xs @ a # ys) = xs"
  by (induction xs) auto

lemma last_conv_nth_pred: "xs \<noteq> [] \<Longrightarrow> xs ! (length xs - 1) = last xs"
  by (simp add: last_conv_nth)

end
