(* ===== verification/Platform.thy ===== *)
theory Platform
  imports Prelude
begin

text \<open>
  The ground the module stands on: the Windows integer types and result codes, the data
  that http.sys and IIS hand to the module, the environment record with the functions that
  live outside the repository (Win32, the IIS interfaces, libModSecurity), the state of the
  module (\<open>request_ctx\<close> is the class REQUEST_STORED_CONTEXT, \<open>world\<close> the globals and the
  contexts IIS keeps for it), and the trace of the calls it makes.
\<close>

unbundle bit_operations_syntax

section \<open>Windows types\<close>

type_synonym byte = char
type_synonym bytes = "char list"
type_synonym wchar = "16 word"
type_synonym USHORT = "16 word"
type_synonym DWORD = "32 word"
type_synonym ULONGLONG = "64 word"
type_synonym HRESULT = "32 word"

abbreviation NUL :: byte where
  "NUL \<equiv> CHR 0x00"

text \<open>The result-code macros of winerror.h.\<close>

definition FAILED :: "HRESULT \<Rightarrow> bool" where
  "FAILED hr \<longleftrightarrow> sint hr < 0"

definition HRESULT_CODE :: "HRESULT \<Rightarrow> DWORD" where
  "HRESULT_CODE hr = hr AND 0xFFFF"

definition HRESULT_FROM_WIN32 :: "DWORD \<Rightarrow> HRESULT" where
  "HRESULT_FROM_WIN32 x = (if sint x \<le> 0 then x else (x AND 0xFFFF) OR 0x80070000)"

definition S_OK :: HRESULT where "S_OK = 0"

definition E_UNEXPECTED :: HRESULT where "E_UNEXPECTED = 0x8000FFFF"

definition E_OUTOFMEMORY :: HRESULT where "E_OUTOFMEMORY = 0x8007000E"

definition E_INVALIDARG :: HRESULT where "E_INVALIDARG = 0x80070057"

definition ERROR_HANDLE_EOF :: DWORD where "ERROR_HANDLE_EOF = 38"

definition ERROR_NOT_ENOUGH_MEMORY :: DWORD where "ERROR_NOT_ENOUGH_MEMORY = 8"

definition ERROR_INVALID_PARAMETER :: DWORD where "ERROR_INVALID_PARAMETER = 87"

definition ERROR_ALREADY_ASSIGNED :: DWORD where "ERROR_ALREADY_ASSIGNED = 85"

lemmas hresult_defs = S_OK_def E_UNEXPECTED_def E_OUTOFMEMORY_def E_INVALIDARG_def
  ERROR_HANDLE_EOF_def ERROR_NOT_ENOUGH_MEMORY_def ERROR_INVALID_PARAMETER_def
  ERROR_ALREADY_ASSIGNED_def

lemma not_FAILED_S_OK [simp]: "\<not> FAILED S_OK"
  by (simp add: FAILED_def S_OK_def)

lemma FAILED_E_UNEXPECTED [simp]: "FAILED E_UNEXPECTED"
  by (simp add: FAILED_def E_UNEXPECTED_def)

lemma FAILED_E_OUTOFMEMORY [simp]: "FAILED E_OUTOFMEMORY"
  by (simp add: FAILED_def E_OUTOFMEMORY_def)

lemma FAILED_E_INVALIDARG [simp]: "FAILED E_INVALIDARG"
  by (simp add: FAILED_def E_INVALIDARG_def)

lemma FAILED_ALREADY_ASSIGNED [simp]: "FAILED (HRESULT_FROM_WIN32 ERROR_ALREADY_ASSIGNED)"
  by (simp add: FAILED_def HRESULT_FROM_WIN32_def ERROR_ALREADY_ASSIGNED_def)

text \<open>\<open>REQUEST_NOTIFICATION_STATUS\<close> and the event-log categories the code uses.\<close>

datatype notification_status =
  RQ_NOTIFICATION_CONTINUE | RQ_NOTIFICATION_PENDING | RQ_NOTIFICATION_FINISH_REQUEST

datatype log_category =
  EVENTLOG_ERROR_TYPE | EVENTLOG_WARNING_TYPE | EVENTLOG_INFORMATION_TYPE

record filetime =
  dwLowDateTime :: DWORD
  dwHighDateTime :: DWORD

section \<open>What http.sys hands out\<close>

datatype http_verb =
  HttpVerbUnparsed | HttpVerbUnknown | HttpVerbInvalid | HttpVerbOPTIONS | HttpVerbGET
| HttpVerbHEAD | HttpVerbPOST | HttpVerbPUT | HttpVerbDELETE | HttpVerbTRACE
| HttpVerbCONNECT | HttpVerbTRACK | HttpVerbMOVE | HttpVerbCOPY | HttpVerbPROPFIND
| HttpVerbPROPPATCH | HttpVerbMKCOL | HttpVerbLOCK | HttpVerbUNLOCK | HttpVerbSEARCH

text \<open>An index of \<open>KnownHeaders\<close>: the name of its HTTP_HEADER_ID enumerator.\<close>

type_synonym http_header_id = string

text \<open>
  A counted string: the pointer is the memory it points to (\<open>None\<close> for a null pointer), the
  length is the separate field of the structure. Nothing ties the two: an access past the
  memory is undefined behaviour in the definitions that read it.
\<close>

record known_header =
  pRawValue :: "bytes option"
  RawValueLength :: USHORT

record unknown_header =
  uh_pName :: "bytes option"
  uh_NameLength :: USHORT
  uh_pRawValue :: "bytes option"
  uh_RawValueLength :: USHORT

record http_version =
  MajorVersion :: USHORT
  MinorVersion :: USHORT

record http_request =
  Flags :: DWORD
  Verb :: http_verb
  pUnknownVerb :: "bytes option"
  UnknownVerbLength :: USHORT
  pRawUrl :: "bytes option"
  RawUrlLength :: USHORT
  pAbsPath :: "wchar list option"
  AbsPathLength :: USHORT
  pQueryString :: "wchar list option"
  QueryStringLength :: USHORT
  Version :: http_version
  req_KnownHeaders :: "http_header_id \<Rightarrow> known_header"
  req_UnknownHeaders :: "unknown_header list"

text \<open>
  A response chunk: memory with its length, a byte range of a file, or one of the kinds the
  module skips (with the bytes IIS will send for it, which the module cannot read).
\<close>

datatype data_chunk =
  FromMemory bytes DWORD
| FromFileHandle nat ULONGLONG ULONGLONG
| OtherChunk bytes

record http_response =
  resp_KnownHeaders :: "http_header_id \<Rightarrow> known_header"
  resp_UnknownHeaders :: "unknown_header list"
  pEntityChunks :: "data_chunk list"

text \<open>What one RQ_SEND_RESPONSE notification shows.\<close>

record send_notification =
  sn_raw :: "http_response option"
  sn_status :: USHORT
  sn_flags :: DWORD
  sn_headersBeingSent :: bool
  sn_contentLength :: "bytes option"

definition HTTP_BYTE_RANGE_TO_EOF :: ULONGLONG where
  "HTTP_BYTE_RANGE_TO_EOF = - 1"

definition HTTP_SEND_RESPONSE_FLAG_MORE_DATA :: DWORD where
  "HTTP_SEND_RESPONSE_FLAG_MORE_DATA = 2"

definition HTTP_REQUEST_FLAG_MORE_ENTITY_BODY_EXISTS :: DWORD where
  "HTTP_REQUEST_FLAG_MORE_ENTITY_BODY_EXISTS = 1"

text \<open>A socket address: the port field as stored, the sixteen address bytes of IPv6.\<close>

datatype sockaddr =
  SockAddrIn USHORT "8 word list"
| SockAddrIn6 USHORT "8 word list"
| SockAddrOther nat

section \<open>The engine's interface\<close>

datatype tx_call =
  ProcessConnection string int string int
| ProcessURI string string string
| AddRequestHeader string string
| ProcessRequestHeaders
| AppendRequestBody bytes
| ProcessRequestBody
| AddResponseHeader string string
| ProcessResponseHeaders int string
| AppendResponseBody bytes
| ProcessResponseBody
| Intervention
| UpdateStatusCode int
| ProcessLogging

record intervention =
  it_status :: int
  it_url :: "string option"
  it_disruptive :: int

datatype config_boolean =
  TrueConfigBoolean | FalseConfigBoolean | PropertyNotSetConfigBoolean

datatype rule_engine =
  DisabledRuleEngine | EnabledRuleEngine | DetectionOnlyRuleEngine | PropertyNotSetRuleEngine

record rules_set =
  rs_id :: nat
  m_secResponseBodyAccess :: config_boolean

section \<open>The trace\<close>

datatype com_object = ComSection | ComProperty | ComException | ComBstr

datatype event =
  TxNew nat | TxCall nat tx_call | TxThrew nat tx_call | TxDelete nat
| CtxNew | CtxDelete | ConfigNew | ConfigDelete
| ReadIssued bool | ReadPended | ReadReturned bytes HRESULT | ReadClaimed
| MemAllocated DWORD | BodyInserted bytes HRESULT
| RespClear | RespRedirect string | RespSetStatus USHORT string | RespSetHeader string string
| RequestHandled
| EventLogged string log_category
| ComAcquire com_object | ComRelease com_object
| RulesLoaded string int
| HandleDuplicated nat | HandleClosed nat

text \<open>The calls made on one transaction, oldest first.\<close>

primrec calls_of :: "nat \<Rightarrow> event list \<Rightarrow> tx_call list" where
  "calls_of t [] = []"
| "calls_of t (e # es) =
     (case e of TxCall u c \<Rightarrow> if u = t then c # calls_of t es else calls_of t es
      | _ \<Rightarrow> calls_of t es)"

lemma calls_of_append [simp]: "calls_of t (xs @ ys) = calls_of t xs @ calls_of t ys"
  by (induction xs) (auto split: event.split)

definition live :: "nat \<Rightarrow> event list \<Rightarrow> bool" where
  "live t evs \<longleftrightarrow> TxNew t \<in> set evs \<and> TxDelete t \<notin> set evs"

text \<open>Events that say something about the response the client will get.\<close>

fun response_event :: "event \<Rightarrow> bool" where
  "response_event RespClear = True"
| "response_event (RespRedirect u) = True"
| "response_event (RespSetStatus s r) = True"
| "response_event (RespSetHeader n v) = True"
| "response_event RequestHandled = True"
| "response_event _ = False"

section \<open>The module's state\<close>

datatype body_read_state = BRS_IDLE | BRS_READ_PENDING | BRS_DONE

record request_ctx =
  m_pTx :: "nat option"
  m_pRules :: "rules_set option"
  m_ResponseHeadersFed :: bool
  m_ResponseBodyBlock :: bool
  m_ResponseBodyEvaluated :: bool
  m_Protocol :: string
  m_Body :: bytes
  m_ReadBuf :: bytes
  m_HasBody :: bool
  m_DeclaredBodyLength :: ULONGLONG
  m_BodyReadState :: body_read_state

text \<open>The constructor of REQUEST_STORED_CONTEXT.\<close>

definition new_request_ctx :: request_ctx where
  "new_request_ctx = \<lparr> m_pTx = None, m_pRules = None, m_ResponseHeadersFed = False,
     m_ResponseBodyBlock = False, m_ResponseBodyEvaluated = False, m_Protocol = '''',
     m_Body = [], m_ReadBuf = [], m_HasBody = False, m_DeclaredBodyLength = 0,
     m_BodyReadState = BRS_IDLE \<rparr>"

definition kBodyReadChunkSize :: nat where
  "kBodyReadChunkSize = 65536"

text \<open>The class MODSECURITY_STORED_CONTEXT, with its path buffer as allocated.\<close>

record config =
  m_bIsEnabled :: bool
  m_pszPath :: "wchar list option"
  m_bResponseBodyBlock :: bool

record cached_rules =
  cr_rules :: rules_set
  cr_mtime :: filetime

record engine_obj =
  connector_information :: string
  has_log_callback :: bool

text \<open>
  The process globals and function-local statics, the stored configuration IIS keeps for the
  path, the stored context IIS keeps for the request (\<open>None\<close>: the container answers NULL),
  the position of every open file object, and the trace.
\<close>

record world =
  g_rulesCache :: "string \<rightharpoonup> cached_rules"
  g_engine :: "engine_obj option"
  g_bodyAsyncState :: nat
  s_capLogged :: bool
  s_configFailLogged :: bool
  s_rulesFailLogged :: bool
  g_hEventLog :: bool
  w_config :: "config option"
  w_rsc :: "request_ctx option"
  file_pos :: "nat \<Rightarrow> int"
  w_evs :: "event list"

section \<open>The environment\<close>

record read_result =
  rr_data :: bytes
  rr_hr :: HRESULT
  rr_pending :: bool

record com_env =
  has_metadata_container :: bool
  has_admin_manager :: bool
  GetAdminSection :: "HRESULT \<times> bool"
  GetPropertyByName :: "string \<Rightarrow> HRESULT \<times> bool"
  get_Value_hr :: "string \<Rightarrow> HRESULT"
  get_Value_bool :: "string \<Rightarrow> USHORT"
  get_Value_bstr :: "string \<Rightarrow> wchar list"
  get_Exception :: "string \<Rightarrow> HRESULT \<times> bool"
  meta_SetModuleContext :: HRESULT
  concurrent_config :: "config option"

text \<open>
  Every function below belongs to Windows, IIS, the C++ runtime or libModSecurity. Where an
  answer may change from call to call it is a function of the trace so far, so that any
  sequence of answers is an instance.
\<close>

record env =
  GetEnvironmentVariableA :: "string \<Rightarrow> nat \<Rightarrow> nat \<times> bytes"
  WideCharToMultiByte :: "wchar list \<Rightarrow> nat \<Rightarrow> nat \<times> bytes"
  MultiByteToWideChar :: "bytes \<Rightarrow> nat \<Rightarrow> nat \<times> wchar list"
  GetFileAttributesExW :: "event list \<Rightarrow> wchar list \<Rightarrow> filetime option"
  GetNameInfoA :: "sockaddr \<Rightarrow> int \<Rightarrow> bytes option"
  ntohs :: "USHORT \<Rightarrow> USHORT"
  DuplicateHandle :: "event list \<Rightarrow> nat \<Rightarrow> nat option"
  file_object :: "nat \<Rightarrow> nat"
  SetFilePointerEx :: "nat \<Rightarrow> int \<Rightarrow> bool"
  GetFileSizeEx :: "nat \<Rightarrow> int option"
  ReadFile :: "nat \<Rightarrow> int \<Rightarrow> nat \<Rightarrow> bytes option"
  bad_alloc :: "event list \<Rightarrow> bool"
  nothrow_null :: "event list \<Rightarrow> bool"
  tx_throws :: "tx_call list \<Rightarrow> tx_call \<Rightarrow> exn option"
  tx_intervention :: "tx_call list \<Rightarrow> intervention option"
  getRuleEngineState :: "tx_call list \<Rightarrow> rule_engine"
  loadFromUri :: "event list \<Rightarrow> string \<Rightarrow> exn + int \<times> rules_set \<times> string"
  com :: com_env
  has_request :: bool
  has_response :: bool
  raw_request :: "http_request option"
  remote_addr :: "sockaddr option"
  local_addr :: "sockaddr option"
  ReadEntityBody :: "event list \<Rightarrow> bool \<Rightarrow> read_result"
  AllocateRequestMemory :: "event list \<Rightarrow> DWORD \<Rightarrow> bool"
  InsertEntityBody :: "event list \<Rightarrow> HRESULT"
  SetModuleContext :: "event list \<Rightarrow> HRESULT"

section \<open>Primitive steps\<close>

type_synonym 'a wprog = "(world, 'a) prog"

definition emit :: "event \<Rightarrow> unit wprog" where
  "emit e = modify (\<lambda>w. w\<lparr>w_evs := w_evs w @ [e]\<rparr>)"

definition heap_alloc :: "env \<Rightarrow> unit wprog" where
  \<comment> \<open>a throwing allocation: \<open>std::bad_alloc\<close> is a \<open>std::exception\<close>\<close>
  "heap_alloc env w =
     (if bad_alloc env (w_evs w) then raise (StdException ''bad allocation'') w else ret () w)"

definition tx_call :: "env \<Rightarrow> nat \<Rightarrow> tx_call \<Rightarrow> unit wprog" where
  \<comment> \<open>a method call on a transaction; a call on a deleted one is undefined\<close>
  "tx_call env t c w =
     (if \<not> live t (w_evs w) then undef w
      else andThen (emit (TxCall t c))
        (case tx_throws env (calls_of t (w_evs w)) c of
           None \<Rightarrow> ret ()
         | Some e \<Rightarrow> andThen (emit (TxThrew t c)) (raise e)) w)"

definition tx_delete :: "nat \<Rightarrow> unit wprog" where
  "tx_delete t w = (if live t (w_evs w) then emit (TxDelete t) w else undef w)"

definition the_rsc :: "request_ctx wprog" where
  \<comment> \<open>dereference of the context pointer\<close>
  "the_rsc w = (case w_rsc w of None \<Rightarrow> undef w | Some r \<Rightarrow> ret r w)"

definition set_rsc :: "(request_ctx \<Rightarrow> request_ctx) \<Rightarrow> unit wprog" where
  "set_rsc f w = (case w_rsc w of None \<Rightarrow> undef w | Some r \<Rightarrow> ret () (w\<lparr>w_rsc := Some (f r)\<rparr>))"

definition the_tx :: "nat wprog" where
  \<comment> \<open>dereference of \<open>rsc->m_pTx\<close>\<close>
  "the_tx = bnd the_rsc (\<lambda>r. case m_pTx r of None \<Rightarrow> undef | Some t \<Rightarrow> ret t)"

definition resp_call :: "env \<Rightarrow> event \<Rightarrow> unit wprog" where
  \<comment> \<open>an unchecked call through \<open>pHttpContext->GetResponse()\<close>\<close>
  "resp_call env e = (if has_response env then emit e else undef)"

lemma run_emit [prog_simps]: "emit e w = (Ok (), w\<lparr>w_evs := w_evs w @ [e]\<rparr>)"
  by (simp add: emit_def modify_def)

lemma run_heap_alloc [prog_simps]:
  "\<not> bad_alloc env (w_evs w) \<Longrightarrow> heap_alloc env w = (Ok (), w)"
  by (simp add: heap_alloc_def ret_def)

lemma run_tx_call [prog_simps]:
  "live t (w_evs w) \<Longrightarrow> tx_throws env (calls_of t (w_evs w)) c = None \<Longrightarrow>
   tx_call env t c w = (Ok (), w\<lparr>w_evs := w_evs w @ [TxCall t c]\<rparr>)"
  by (simp add: tx_call_def prog_simps)

lemma run_tx_call_throw [prog_simps]:
  "live t (w_evs w) \<Longrightarrow> tx_throws env (calls_of t (w_evs w)) c = Some e \<Longrightarrow>
   tx_call env t c w = (Throw e, w\<lparr>w_evs := w_evs w @ [TxCall t c, TxThrew t c]\<rparr>)"
  by (simp add: tx_call_def prog_simps)

lemma run_the_rsc [prog_simps]: "w_rsc w = Some r \<Longrightarrow> the_rsc w = (Ok r, w)"
  by (simp add: the_rsc_def ret_def)

lemma run_set_rsc [prog_simps]:
  "w_rsc w = Some r \<Longrightarrow> set_rsc f w = (Ok (), w\<lparr>w_rsc := Some (f r)\<rparr>)"
  by (simp add: set_rsc_def ret_def)

lemma run_the_tx [prog_simps]:
  "w_rsc w = Some r \<Longrightarrow> m_pTx r = Some t \<Longrightarrow> the_tx w = (Ok t, w)"
  by (simp add: the_tx_def prog_simps)

lemma run_tx_delete [prog_simps]:
  "live t (w_evs w) \<Longrightarrow> tx_delete t w = (Ok (), w\<lparr>w_evs := w_evs w @ [TxDelete t]\<rparr>)"
  by (simp add: tx_delete_def prog_simps)

lemma run_resp_call [prog_simps]:
  "has_response env \<Longrightarrow> resp_call env e w = (Ok (), w\<lparr>w_evs := w_evs w @ [e]\<rparr>)"
  by (simp add: resp_call_def prog_simps)

lemma live_append:
  "live t (evs @ es) \<longleftrightarrow> (TxNew t \<in> set evs \<or> TxNew t \<in> set es) \<and>
     TxDelete t \<notin> set evs \<and> TxDelete t \<notin> set es"
  by (auto simp: live_def)

section \<open>What a program may add to the trace\<close>

text \<open>
  \<open>emits A m\<close>: however \<open>m\<close> ends, it has only appended to the trace, and only events that
  satisfy \<open>A\<close>. The rules need no precondition, so they follow the shape of the program.
\<close>

definition emits :: "(event \<Rightarrow> bool) \<Rightarrow> 'a wprog \<Rightarrow> bool" where
  "emits A m \<longleftrightarrow> (\<forall>w r v. m w = (r, v) \<longrightarrow>
     (\<exists>es. w_evs v = w_evs w @ es \<and> (\<forall>e \<in> set es. A e)))"

named_theorems emits_intros "rules that take an emits statement apart along the program"

lemma emitsI: "(\<And>w. \<exists>es. w_evs (snd (m w)) = w_evs w @ es \<and> (\<forall>e \<in> set es. A e)) \<Longrightarrow> emits A m"
  unfolding emits_def by (metis snd_conv)

lemma emitsE:
  assumes "emits A m" and "m w = (r, v)"
  obtains es where "w_evs v = w_evs w @ es" and "\<forall>e \<in> set es. A e"
  using assms unfolding emits_def by blast

lemma emits_bnd [emits_intros]:
  assumes m: "emits A m" and f: "\<And>x. emits A (f x)"
  shows "emits A (bnd m f)"
proof (rule emitsI)
  fix w
  obtain r u where run: "m w = (r, u)" by fastforce
  obtain es where es: "w_evs u = w_evs w @ es" "\<forall>e \<in> set es. A e" by (rule emitsE[OF m run])
  show "\<exists>es. w_evs (snd (bnd m f w)) = w_evs w @ es \<and> (\<forall>e \<in> set es. A e)"
  proof (cases r)
    case (Ok x)
    obtain es' where es': "w_evs (snd (f x u)) = w_evs u @ es'" "\<forall>e \<in> set es'. A e"
      by (rule emitsE[OF f[of x], of u "fst (f x u)" "snd (f x u)"]) simp
    with run Ok es show ?thesis
      by (intro exI[of _ "es @ es'"]) (auto simp: run_bnd_Ok)
  next
    case (Throw e)
    with run es show ?thesis by (intro exI[of _ es]) (simp add: run_bnd_Throw)
  next
    case Undef
    with run es show ?thesis by (intro exI[of _ es]) (simp add: run_bnd_Undef)
  qed
qed

lemma emits_andThen [emits_intros]: "emits A m \<Longrightarrow> emits A n \<Longrightarrow> emits A (andThen m n)"
  unfolding andThen_def by (rule emits_bnd)

lemma emits_try [emits_intros]:
  assumes m: "emits A m" and h: "\<And>e. emits A (h e)"
  shows "emits A (try_catch m h)"
proof (rule emitsI)
  fix w
  obtain r u where run: "m w = (r, u)" by fastforce
  obtain es where es: "w_evs u = w_evs w @ es" "\<forall>e \<in> set es. A e" by (rule emitsE[OF m run])
  show "\<exists>es. w_evs (snd (try_catch m h w)) = w_evs w @ es \<and> (\<forall>e \<in> set es. A e)"
  proof (cases r)
    case (Throw x)
    obtain es' where es': "w_evs (snd (h x u)) = w_evs u @ es'" "\<forall>e \<in> set es'. A e"
      by (rule emitsE[OF h[of x], of u "fst (h x u)" "snd (h x u)"]) simp
    with run Throw es show ?thesis
      by (intro exI[of _ "es @ es'"]) (auto simp: run_try_Throw)
  next
    case (Ok x)
    with run es show ?thesis by (intro exI[of _ es]) (simp add: run_try_Ok)
  next
    case Undef
    with run es show ?thesis by (intro exI[of _ es]) (simp add: run_try_Undef)
  qed
qed

lemma emits_pure [emits_intros]:
  "emits A (ret x)" "emits A undef" "emits A (raise e)" "emits A (gets g)"
  by (auto simp: emits_def prog_defs)

lemma emits_modify: "(\<And>w. w_evs (f w) = w_evs w) \<Longrightarrow> emits A (modify f)"
  by (auto simp: emits_def prog_defs)

lemma emits_whenever [emits_intros]: "(c \<Longrightarrow> emits A m) \<Longrightarrow> emits A (whenever c m)"
  by (simp add: whenever_def emits_pure)

lemma emits_if [emits_intros]:
  "(c \<Longrightarrow> emits A m) \<Longrightarrow> (\<not> c \<Longrightarrow> emits A n) \<Longrightarrow> emits A (if c then m else n)"
  by simp

lemma emits_case_option [emits_intros]:
  "(x = None \<Longrightarrow> emits A m) \<Longrightarrow> (\<And>y. x = Some y \<Longrightarrow> emits A (n y)) \<Longrightarrow>
   emits A (case x of None \<Rightarrow> m | Some y \<Rightarrow> n y)"
  by (cases x) simp_all

lemma emits_case_sum [emits_intros]:
  "(\<And>a. x = Inl a \<Longrightarrow> emits A (m a)) \<Longrightarrow> (\<And>b. x = Inr b \<Longrightarrow> emits A (n b)) \<Longrightarrow>
   emits A (case x of Inl a \<Rightarrow> m a | Inr b \<Rightarrow> n b)"
  by (cases x) simp_all

lemma emits_case_prod [emits_intros]:
  "(\<And>a b. x = (a, b) \<Longrightarrow> emits A (f a b)) \<Longrightarrow> emits A (case x of (a, b) \<Rightarrow> f a b)"
  by (cases x) simp

lemma emits_Let [emits_intros]: "emits A (f t) \<Longrightarrow> emits A (let x = t in f x)"
  by simp

lemma emits_for_each [emits_intros]:
  "(\<And>x. x \<in> set xs \<Longrightarrow> emits A (f x)) \<Longrightarrow> emits A (for_each f xs)"
  by (induction xs) (auto intro: emits_intros)

lemma emits_emit [emits_intros]: "A e \<Longrightarrow> emits A (emit e)"
  by (auto simp: emits_def run_emit)

lemma emits_heap_alloc [emits_intros]: "emits A (heap_alloc env)"
  by (auto simp: emits_def heap_alloc_def prog_defs split: if_splits)

lemma emits_the_rsc [emits_intros]: "emits A the_rsc"
  by (auto simp: emits_def the_rsc_def prog_defs split: option.splits)

lemma emits_set_rsc [emits_intros]: "emits A (set_rsc f)"
  by (auto simp: emits_def set_rsc_def prog_defs split: option.splits)

lemma emits_the_tx [emits_intros]: "emits A the_tx"
  unfolding the_tx_def by (intro emits_intros)

lemma emits_resp_call [emits_intros]: "A e \<Longrightarrow> emits A (resp_call env e)"
  unfolding resp_call_def by (intro emits_intros)

lemma emits_tx_delete [emits_intros]: "A (TxDelete t) \<Longrightarrow> emits A (tx_delete t)"
  by (auto simp: emits_def tx_delete_def prog_defs emit_def split: if_splits)

lemma emits_tx_call [emits_intros]:
  "A (TxCall t c) \<Longrightarrow> A (TxThrew t c) \<Longrightarrow> emits A (tx_call env t c)"
  by (auto simp: emits_def tx_call_def prog_defs emit_def split: if_splits option.splits)

text \<open>A fact about the trace that such events preserve survives the program.\<close>

lemma triple_emits:
  assumes "triple P m Q E" and "emits A m"
    and "\<And>evs e. F evs \<Longrightarrow> A e \<Longrightarrow> F (evs @ [e])"
  shows "triple (\<lambda>w. P w \<and> F (w_evs w)) m (\<lambda>x w. Q x w \<and> F (w_evs w)) (\<lambda>e w. E e w \<and> F (w_evs w))"
proof -
  have stable: "F (evs @ es)" if "F evs" "\<forall>e \<in> set es. A e" for evs es
    using that
  proof (induction es arbitrary: evs)
    case (Cons e es)
    from Cons.IH[of "evs @ [e]"] Cons.prems assms(3)[of evs e] show ?case by simp
  qed simp
  have keep: "F (w_evs v)" if "F (w_evs w)" "m w = (r, v)" for w r v
    using emitsE[OF assms(2) that(2)] stable[OF that(1)] by metis
  show ?thesis
    by (rule tripleI) (use keep assms(1) in \<open>blast dest: triple_Ok triple_Throw triple_Undef\<close>)+
qed

section \<open>A concrete environment\<close>

text \<open>
  An instance of the parameters under which every call succeeds and the engine stays silent.
  The witnesses start from it and change the answers they are about.
\<close>

definition no_header :: known_header where
  "no_header = \<lparr> pRawValue = None, RawValueLength = 0 \<rparr>"

definition quiet_request :: http_request where
  "quiet_request = \<lparr> Flags = 0, Verb = HttpVerbGET, pUnknownVerb = None, UnknownVerbLength = 0,
     pRawUrl = Some ''/'', RawUrlLength = 1, pAbsPath = None, AbsPathLength = 0,
     pQueryString = None, QueryStringLength = 0,
     Version = \<lparr> MajorVersion = 1, MinorVersion = 1 \<rparr>,
     req_KnownHeaders = (\<lambda>_. no_header), req_UnknownHeaders = [] \<rparr>"

definition quiet_rules :: rules_set where
  "quiet_rules = \<lparr> rs_id = 1, m_secResponseBodyAccess = TrueConfigBoolean \<rparr>"

definition quiet_com :: com_env where
  "quiet_com = \<lparr> has_metadata_container = True, has_admin_manager = True,
     GetAdminSection = (S_OK, True), GetPropertyByName = (\<lambda>_. (S_OK, True)),
     get_Value_hr = (\<lambda>_. S_OK), get_Value_bool = (\<lambda>_. 0xFFFF),
     get_Value_bstr = (\<lambda>_. [99, 58]), get_Exception = (\<lambda>_. (S_OK, False)),
     meta_SetModuleContext = S_OK, concurrent_config = None \<rparr>"

definition quiet_env :: env where
  "quiet_env = \<lparr> GetEnvironmentVariableA = (\<lambda>_ _. (0, [])),
     WideCharToMultiByte = (\<lambda>ws _. (length ws, map (\<lambda>c. char_of (unat c)) ws)),
     MultiByteToWideChar = (\<lambda>s _. (length s + 1, map of_char s @ [0])),
     GetFileAttributesExW = (\<lambda>_ _. Some \<lparr> dwLowDateTime = 1, dwHighDateTime = 0 \<rparr>),
     GetNameInfoA = (\<lambda>_ _. Some ''192.0.2.1''), ntohs = (\<lambda>p. p),
     DuplicateHandle = (\<lambda>_ h. Some (h + 100)), file_object = (\<lambda>h. h mod 100),
     SetFilePointerEx = (\<lambda>_ _. True), GetFileSizeEx = (\<lambda>_. Some 0),
     ReadFile = (\<lambda>_ _ _. None), bad_alloc = (\<lambda>_. False), nothrow_null = (\<lambda>_. False),
     tx_throws = (\<lambda>_ _. None), tx_intervention = (\<lambda>_. None),
     getRuleEngineState = (\<lambda>_. EnabledRuleEngine),
     loadFromUri = (\<lambda>_ _. Inr (1, quiet_rules, [])), com = quiet_com, has_request = True,
     has_response = True, raw_request = Some quiet_request, remote_addr = None,
     local_addr = None,
     ReadEntityBody = (\<lambda>_ _. \<lparr> rr_data = [], rr_hr = S_OK, rr_pending = False \<rparr>),
     AllocateRequestMemory = (\<lambda>_ _. True), InsertEntityBody = (\<lambda>_. S_OK),
     SetModuleContext = (\<lambda>_. S_OK) \<rparr>"

definition start_world :: world where
  "start_world = \<lparr> g_rulesCache = Map.empty, g_engine = None, g_bodyAsyncState = 0, s_capLogged = False,
     s_configFailLogged = False, s_rulesFailLogged = False, g_hEventLog = True,
     w_config = None, w_rsc = None, file_pos = (\<lambda>_. 0), w_evs = [] \<rparr>"

lemma quiet_env_fields [simp]:
  "GetEnvironmentVariableA quiet_env = (\<lambda>_ _. (0, []))"
  "WideCharToMultiByte quiet_env = (\<lambda>ws _. (length ws, map (\<lambda>c. char_of (unat c)) ws))"
  "MultiByteToWideChar quiet_env = (\<lambda>s _. (length s + 1, map of_char s @ [0]))"
  "GetFileAttributesExW quiet_env = (\<lambda>_ _. Some \<lparr> dwLowDateTime = 1, dwHighDateTime = 0 \<rparr>)"
  "GetNameInfoA quiet_env = (\<lambda>_ _. Some ''192.0.2.1'')"
  "ntohs quiet_env = (\<lambda>p. p)"
  "DuplicateHandle quiet_env = (\<lambda>_ h. Some (h + 100))"
  "file_object quiet_env = (\<lambda>h. h mod 100)"
  "SetFilePointerEx quiet_env = (\<lambda>_ _. True)"
  "GetFileSizeEx quiet_env = (\<lambda>_. Some 0)"
  "ReadFile quiet_env = (\<lambda>_ _ _. None)"
  "bad_alloc quiet_env = (\<lambda>_. False)"
  "nothrow_null quiet_env = (\<lambda>_. False)"
  "tx_throws quiet_env = (\<lambda>_ _. None)"
  "tx_intervention quiet_env = (\<lambda>_. None)"
  "getRuleEngineState quiet_env = (\<lambda>_. EnabledRuleEngine)"
  "loadFromUri quiet_env = (\<lambda>_ _. Inr (1, quiet_rules, []))"
  "com quiet_env = quiet_com"
  "has_request quiet_env" "has_response quiet_env"
  "raw_request quiet_env = Some quiet_request"
  "remote_addr quiet_env = None" "local_addr quiet_env = None"
  "ReadEntityBody quiet_env = (\<lambda>_ _. \<lparr> rr_data = [], rr_hr = S_OK, rr_pending = False \<rparr>)"
  "AllocateRequestMemory quiet_env = (\<lambda>_ _. True)"
  "InsertEntityBody quiet_env = (\<lambda>_. S_OK)"
  "SetModuleContext quiet_env = (\<lambda>_. S_OK)"
  by (simp_all add: quiet_env_def)

lemma start_world_fields [simp]:
  "g_rulesCache start_world = Map.empty" "g_engine start_world = None"
  "g_bodyAsyncState start_world = 0" "\<not> s_capLogged start_world"
  "\<not> s_configFailLogged start_world" "\<not> s_rulesFailLogged start_world"
  "g_hEventLog start_world" "w_config start_world = None" "w_rsc start_world = None"
  "w_evs start_world = []"
  by (simp_all add: start_world_def)

end
