(* ===== verification/Helpers.thy ===== *)
theory Helpers
  imports Platform
begin

text \<open>
  The small helpers of \<open>src/ModSecurityIIS.cpp\<close>: decimal text (\<open>std::from_chars\<close>, \<open>%u\<close>),
  string conversion, socket addresses, verb, version and reason phrases, what a request
  declares about its body, and the settings read from the process environment.
\<close>

section \<open>Decimal text\<close>

definition is_digit :: "char \<Rightarrow> bool" where
  "is_digit c \<longleftrightarrow> 48 \<le> (of_char c :: nat) \<and> (of_char c :: nat) \<le> 57"

definition digit_value :: "char \<Rightarrow> nat" where
  "digit_value c = of_char c - 48"

definition digits_value :: "string \<Rightarrow> nat" where
  "digits_value ds = foldl (\<lambda>a c. 10 * a + digit_value c) 0 ds"

datatype errc = ErrcOk | InvalidArgument | ResultOutOfRange

text \<open>
  \<open>std::from_chars(first, last, x)\<close> for \<open>unsigned long long\<close>, base 10: error code, how far
  it read, and the value \<open>x\<close> holds afterwards. No sign and no white space is accepted.
\<close>

definition from_chars :: "string \<Rightarrow> ULONGLONG \<Rightarrow> errc \<times> nat \<times> ULONGLONG" where
  "from_chars s x =
     (let ds = takeWhile is_digit s
      in if ds = [] then (InvalidArgument, 0, x)
         else if digits_value ds < 2 ^ 64 then (ErrcOk, length ds, word_of_nat (digits_value ds))
         else (ResultOutOfRange, length ds, x))"

text \<open>The test both callers make: no error, everything read, a positive value.\<close>

definition parse_positive :: "string \<Rightarrow> ULONGLONG option" where
  "parse_positive s =
     (case from_chars s 0 of
        (ec, ptr, x) \<Rightarrow> if ec = ErrcOk \<and> ptr = length s \<and> x > 0 then Some x else None)"

text \<open>The text of \<open>%u\<close>, \<open>%Iu\<close> and \<open>std::to_string\<close>.\<close>

fun to_dec :: "nat \<Rightarrow> string" where
  "to_dec n = (if n < 10 then [char_of (48 + n)]
               else to_dec (n div 10) @ [char_of (48 + n mod 10)])"

declare to_dec.simps [simp del]

lemma digit_char:
  assumes "d < 10"
  shows "is_digit (char_of (48 + d))" and "digit_value (char_of (48 + d)) = d"
  using assms by (simp_all add: is_digit_def digit_value_def)

lemma to_dec_digits: "\<forall>c \<in> set (to_dec n). is_digit c"
proof (induction n rule: to_dec.induct)
  case (1 n)
  then show ?case by (subst to_dec.simps) (auto intro: digit_char)
qed

lemma to_dec_nonempty: "to_dec n \<noteq> []"
  by (subst to_dec.simps) simp

lemma digits_value_snoc: "digits_value (ds @ [c]) = 10 * digits_value ds + digit_value c"
  by (simp add: digits_value_def)

lemma digits_value_to_dec: "digits_value (to_dec n) = n"
proof (induction n rule: to_dec.induct)
  case (1 n)
  show ?case
  proof (cases "n < 10")
    case True
    then show ?thesis
      by (subst to_dec.simps) (simp add: digits_value_def digit_char)
  next
    case False
    with 1 show ?thesis
      by (subst to_dec.simps) (simp add: digits_value_snoc digit_char)
  qed
qed

lemma takeWhile_all_digits: "\<forall>c \<in> set s. is_digit c \<Longrightarrow> takeWhile is_digit s = s"
  by simp

lemma from_chars_to_dec:
  "n < 2 ^ 64 \<Longrightarrow> from_chars (to_dec n) x = (ErrcOk, length (to_dec n), word_of_nat n)"
  using to_dec_digits[of n] to_dec_nonempty[of n]
  by (simp add: from_chars_def takeWhile_all_digits digits_value_to_dec)

lemma to_dec_length: "n < 10 ^ k \<Longrightarrow> 0 < k \<Longrightarrow> length (to_dec n) \<le> k"
proof (induction n arbitrary: k rule: to_dec.induct)
  case (1 n)
  show ?case
  proof (cases "n < 10")
    case True
    with 1 show ?thesis by (subst to_dec.simps) simp
  next
    case False
    obtain j where "k = Suc j" using "1.prems" by (cases k) auto
    moreover with False "1.prems" have "0 < j" by (cases j) auto
    ultimately have k: "k = Suc j" "0 < j" by auto
    with "1.prems" have "n div 10 < 10 ^ j" by (simp add: less_mult_imp_div_less mult.commute)
    with False k "1.IH" have "length (to_dec (n div 10)) \<le> j" by blast
    with False k show ?thesis by (subst to_dec.simps) simp
  qed
qed

lemma to_dec_inj: "to_dec m = to_dec n \<Longrightarrow> m = n"
  by (metis digits_value_to_dec)

lemma digit_not_NUL: "is_digit c \<Longrightarrow> c \<noteq> NUL"
  by (auto simp: is_digit_def)

lemma digit_not_dot: "is_digit c \<Longrightarrow> c \<noteq> CHR ''.''"
  by (auto simp: is_digit_def)

lemma takeWhile_digits_length:
  "length (takeWhile is_digit s) = length s \<longleftrightarrow> (\<forall>c \<in> set s. is_digit c)"
  by (metis takeWhile_eq_all_conv takeWhile_eq_take take_all order_refl takeWhile_all_digits)

lemma parse_positive_Some:
  "parse_positive s = Some x \<longleftrightarrow>
     (\<forall>c \<in> set s. is_digit c) \<and> 0 < digits_value s \<and> digits_value s < 2 ^ 64 \<and>
     x = word_of_nat (digits_value s)"
proof (cases "\<forall>c \<in> set s. is_digit c")
  case True
  have pos: "(0 :: ULONGLONG) < word_of_nat (digits_value s) \<longleftrightarrow> 0 < digits_value s"
    if "digits_value s < 2 ^ 64"
    using that by (simp add: word_less_nat_alt unat_of_nat)
  show ?thesis
    using True pos
    by (auto simp: parse_positive_def from_chars_def takeWhile_all_digits digits_value_def
             split: if_splits)
next
  case False
  with takeWhile_digits_length[of s] show ?thesis
    by (auto simp: parse_positive_def from_chars_def Let_def split: if_splits)
qed

section \<open>Strings\<close>

definition WToUtf8 :: "env \<Rightarrow> wchar list option \<Rightarrow> int \<Rightarrow> ('s, string) prog" where
  "WToUtf8 env w byteLen =
     (case w of
        None \<Rightarrow> ret ''''
      | Some mem \<Rightarrow>
          if byteLen \<le> 0 then ret ''''
          else if byteLen mod 2 \<noteq> 0 then ret ''''
          else let wlen = nat (byteLen div 2)
               in if length mem < wlen then undef
                  else let cb = fst (WideCharToMultiByte env (take wlen mem) 0)
                       in if cb = 0 then ret ''''
                          else let out = snd (WideCharToMultiByte env (take wlen mem) cb)
                               in ret (take cb (out @ replicate cb NUL)))"

definition AToUtf8 :: "bytes option \<Rightarrow> int \<Rightarrow> ('s, string) prog" where
  "AToUtf8 a byteLen =
     (case a of
        None \<Rightarrow> ret ''''
      | Some mem \<Rightarrow>
          if byteLen \<le> 0 then ret ''''
          else if length mem < nat byteLen then undef
          else let len = (if mem ! (nat byteLen - 1) = NUL then byteLen - 1 else byteLen)
               in if len \<le> 0 then ret '''' else ret (take (nat len) mem))"

text \<open>\<open>s.c_str()\<close> handed to a callee that reads up to the terminator.\<close>

definition c_str :: "string \<Rightarrow> string" where
  "c_str s = takeWhile (\<lambda>c. c \<noteq> NUL) s"

lemma AToUtf8_value:
  assumes "nat n \<le> length mem"
  shows "AToUtf8 (Some mem) n s =
    (Ok (let v = take (nat n) mem in if v \<noteq> [] \<and> last v = NUL then butlast v else v), s)"
proof (cases "n \<le> 0")
  case True
  then show ?thesis by (simp add: AToUtf8_def ret_def)
next
  case False
  then have pos: "0 < nat n" "take (nat n) mem \<noteq> []" using assms by auto
  have last: "last (take (nat n) mem) = mem ! (nat n - 1)"
    using pos assms by (simp add: last_conv_nth)
  have bl: "butlast (take (nat n) mem) = take (nat (n - 1)) mem"
    using assms False by (simp add: butlast_take nat_diff_distrib)
  show ?thesis
    using assms False pos last bl by (auto simp: AToUtf8_def Let_def ret_def)
qed

lemma AToUtf8_NULL [simp]: "AToUtf8 None n s = (Ok '''', s)"
  by (simp add: AToUtf8_def ret_def)

lemma keeps_AToUtf8:
  assumes "\<And>mem. a = Some mem \<Longrightarrow> nat n \<le> length mem"
  shows "keeps I (AToUtf8 a n)"
  using assms unfolding AToUtf8_def
  by (cases a) (auto simp: Let_def intro!: triple_ret)

lemma keeps_WToUtf8:
  assumes "\<And>mem. w = Some mem \<Longrightarrow> nat (n div 2) \<le> length mem"
  shows "keeps I (WToUtf8 env w n)"
  using assms unfolding WToUtf8_def
  by (cases w) (auto simp: Let_def intro!: triple_ret)

section \<open>Socket addresses\<close>

definition IN6_IS_ADDR_V4MAPPED :: "8 word list \<Rightarrow> bool" where
  "IN6_IS_ADDR_V4MAPPED b \<longleftrightarrow> take 12 b = replicate 10 0 @ [0xFF, 0xFF]"

text \<open>The text of \<open>"%u.%u.%u.%u"\<close>.\<close>

definition dotted_quad :: "8 word list \<Rightarrow> string" where
  "dotted_quad b = to_dec (unat (b ! 0)) @ ''.'' @ to_dec (unat (b ! 1)) @ ''.'' @
     to_dec (unat (b ! 2)) @ ''.'' @ to_dec (unat (b ! 3))"

definition SockAddrToIp :: "env \<Rightarrow> sockaddr option \<Rightarrow> string" where
  "SockAddrToIp env pAddr =
     (case pAddr of
        None \<Rightarrow> ''''
      | Some addr \<Rightarrow>
          let other =
            (let salen = (case addr of SockAddrIn _ _ \<Rightarrow> 16 | _ \<Rightarrow> 28)
             in case GetNameInfoA env addr salen of Some buf \<Rightarrow> buf | None \<Rightarrow> '''')
          in case addr of
               SockAddrIn6 port b \<Rightarrow>
                 if IN6_IS_ADDR_V4MAPPED b
                 then take 15 (dotted_quad [b ! 12, b ! 13, b ! 14, b ! 15])
                 else other
             | _ \<Rightarrow> other)"

definition SockAddrToPort :: "env \<Rightarrow> sockaddr option \<Rightarrow> int" where
  "SockAddrToPort env pAddr =
     (case pAddr of
        None \<Rightarrow> 0
      | Some (SockAddrIn port _) \<Rightarrow> uint (ntohs env port)
      | Some (SockAddrIn6 port _) \<Rightarrow> uint (ntohs env port)
      | Some (SockAddrOther _) \<Rightarrow> 0)"

lemma dotted_quad_length: "length (dotted_quad b) \<le> 15"
proof -
  have "length (to_dec (unat x)) \<le> 3" for x :: "8 word"
  proof (rule to_dec_length)
    have "unat x < 2 ^ LENGTH(8)" by (rule unsigned_less)
    then show "unat x < 10 ^ 3" by simp
  qed simp
  from this[of "b ! 0"] this[of "b ! 1"] this[of "b ! 2"] this[of "b ! 3"]
  show ?thesis by (simp add: dotted_quad_def)
qed

lemma split_at_dot:
  assumes "to_dec m @ ''.'' @ xs = to_dec n @ ''.'' @ ys"
  shows "m = n \<and> xs = ys"
proof -
  have nodot: "\<forall>c \<in> set (to_dec k). c \<noteq> CHR ''.''" for k
    using to_dec_digits digit_not_dot by blast
  have tw: "takeWhile (\<lambda>c. c \<noteq> CHR ''.'') (to_dec k @ ''.'' @ zs) = to_dec k" for k zs
    using nodot takeWhile_replicate_append[of "to_dec k" "CHR ''.''" zs] by simp
  from assms tw have "to_dec m = to_dec n" by metis
  with assms show ?thesis by (auto dest: to_dec_inj)
qed

lemma dotted_quad_inj:
  assumes "dotted_quad a = dotted_quad b"
  shows "a ! 0 = b ! 0 \<and> a ! 1 = b ! 1 \<and> a ! 2 = b ! 2 \<and> a ! 3 = b ! 3"
proof -
  from assms obtain "unat (a ! 0) = unat (b ! 0)"
    and r1: "to_dec (unat (a ! 1)) @ ''.'' @ to_dec (unat (a ! 2)) @ ''.'' @ to_dec (unat (a ! 3)) =
      to_dec (unat (b ! 1)) @ ''.'' @ to_dec (unat (b ! 2)) @ ''.'' @ to_dec (unat (b ! 3))"
    unfolding dotted_quad_def using split_at_dot by blast
  moreover from r1 obtain "unat (a ! 1) = unat (b ! 1)"
    and r2: "to_dec (unat (a ! 2)) @ ''.'' @ to_dec (unat (a ! 3)) =
      to_dec (unat (b ! 2)) @ ''.'' @ to_dec (unat (b ! 3))"
    using split_at_dot by blast
  moreover from r2 have "unat (a ! 2) = unat (b ! 2)" "unat (a ! 3) = unat (b ! 3)"
    using split_at_dot[OF r2] to_dec_inj by blast+
  ultimately show ?thesis by (simp add: word_unat_eq_iff)
qed

section \<open>Verb, version, reason phrase\<close>

definition VerbToString :: "http_request \<Rightarrow> ('s, string) prog" where
  "VerbToString req =
     (case Verb req of
        HttpVerbOPTIONS \<Rightarrow> ret ''OPTIONS''
      | HttpVerbGET \<Rightarrow> ret ''GET''
      | HttpVerbHEAD \<Rightarrow> ret ''HEAD''
      | HttpVerbPOST \<Rightarrow> ret ''POST''
      | HttpVerbPUT \<Rightarrow> ret ''PUT''
      | HttpVerbDELETE \<Rightarrow> ret ''DELETE''
      | HttpVerbTRACE \<Rightarrow> ret ''TRACE''
      | HttpVerbTRACK \<Rightarrow> ret ''TRACK''
      | HttpVerbCONNECT \<Rightarrow> ret ''CONNECT''
      | HttpVerbMOVE \<Rightarrow> ret ''MOVE''
      | HttpVerbCOPY \<Rightarrow> ret ''COPY''
      | HttpVerbPROPFIND \<Rightarrow> ret ''PROPFIND''
      | HttpVerbPROPPATCH \<Rightarrow> ret ''PROPPATCH''
      | HttpVerbMKCOL \<Rightarrow> ret ''MKCOL''
      | HttpVerbLOCK \<Rightarrow> ret ''LOCK''
      | HttpVerbUNLOCK \<Rightarrow> ret ''UNLOCK''
      | HttpVerbSEARCH \<Rightarrow> ret ''SEARCH''
      | _ \<Rightarrow>
          if Verb req = HttpVerbUnknown \<and> pUnknownVerb req \<noteq> None
          then bnd (AToUtf8 (pUnknownVerb req) (uint (UnknownVerbLength req)))
                 (\<lambda>verb. if verb \<noteq> '''' then ret verb else ret ''INVALID'')
          else ret ''INVALID'')"

definition HTTP_EQUAL_VERSION :: "http_version \<Rightarrow> USHORT \<Rightarrow> USHORT \<Rightarrow> bool" where
  "HTTP_EQUAL_VERSION v major minor \<longleftrightarrow> MajorVersion v = major \<and> MinorVersion v = minor"

definition VersionToString :: "http_version \<Rightarrow> string" where
  "VersionToString version =
     (if HTTP_EQUAL_VERSION version 0 9 then ''0.9''
      else if HTTP_EQUAL_VERSION version 1 0 then ''1.0''
      else if HTTP_EQUAL_VERSION version 1 1 then ''1.1''
      else if HTTP_EQUAL_VERSION version 2 0 then ''2.0''
      else if HTTP_EQUAL_VERSION version 3 0 then ''3.0''
      else to_dec (unat (MajorVersion version)))"

definition StandardReason :: "int \<Rightarrow> string" where
  "StandardReason status =
     (case map_of
        [(200, ''OK''), (301, ''Moved Permanently''), (302, ''Found''), (303, ''See Other''),
         (307, ''Temporary Redirect''), (308, ''Permanent Redirect''), (400, ''Bad Request''),
         (401, ''Unauthorized''), (403, ''Forbidden''), (404, ''Not Found''),
         (405, ''Method Not Allowed''), (406, ''Not Acceptable''),
         (407, ''Proxy Authentication Required''), (408, ''Request Timeout''),
         (409, ''Conflict''), (410, ''Gone''), (411, ''Length Required''),
         (412, ''Precondition Failed''), (413, ''Content Too Large''), (414, ''URI Too Long''),
         (415, ''Unsupported Media Type''), (416, ''Range Not Satisfiable''),
         (418, ''I'' @ [CHR 0x27] @ ''m a teapot''), (421, ''Misdirected Request''),
         (422, ''Unprocessable Content''), (423, ''Locked''), (428, ''Precondition Required''),
         (429, ''Too Many Requests''), (431, ''Request Header Fields Too Large''),
         (451, ''Unavailable For Legal Reasons''), (500, ''Internal Server Error''),
         (501, ''Not Implemented''), (502, ''Bad Gateway''), (503, ''Service Unavailable''),
         (504, ''Gateway Timeout''), (505, ''HTTP Version Not Supported'')] status of
        Some reason \<Rightarrow> reason
      | None \<Rightarrow> ''Rejected by ModSecurity'')"

text \<open>Every verb the switch does not know ends in the \<open>default\<close> branch.\<close>

lemma VerbToString_default:
  "Verb req \<in> {HttpVerbUnparsed, HttpVerbUnknown, HttpVerbInvalid} \<Longrightarrow>
   VerbToString req =
     (if Verb req = HttpVerbUnknown \<and> pUnknownVerb req \<noteq> None
      then bnd (AToUtf8 (pUnknownVerb req) (uint (UnknownVerbLength req)))
             (\<lambda>verb. if verb \<noteq> '''' then ret verb else ret ''INVALID'')
      else ret ''INVALID'')"
  by (auto simp: VerbToString_def)

lemma keeps_VerbToString:
  assumes "\<And>mem. pUnknownVerb req = Some mem \<Longrightarrow> unat (UnknownVerbLength req) \<le> length mem"
  shows "keeps I (VerbToString req)"
  unfolding VerbToString_def using assms
  by (auto split: http_verb.split intro!: triple_intros keeps_AToUtf8)

section \<open>What the request declares about its body\<close>

record entity_body_info =
  hasBody :: bool
  ebi_length :: ULONGLONG

definition GetEntityBodyInfo :: "http_request option \<Rightarrow> ('s, entity_body_info) prog" where
  "GetEntityBodyInfo reqp =
     (let info = \<lparr> hasBody = False, ebi_length = 0 \<rparr>
      in case reqp of
           None \<Rightarrow> ret info
         | Some req \<Rightarrow>
             if Flags req AND HTTP_REQUEST_FLAG_MORE_ENTITY_BODY_EXISTS \<noteq> 0
             then ret (info\<lparr>hasBody := True\<rparr>)
             else let cl = req_KnownHeaders req ''HttpHeaderContentLength''
                  in case pRawValue cl of
                       None \<Rightarrow> ret info
                     | Some mem \<Rightarrow>
                         if RawValueLength cl = 0 then ret info
                         else let n0 = unat (RawValueLength cl);
                                  n = (if n0 \<ge> 32 then 32 - 1 else n0)
                              in if length mem < n then undef
                                 else case parse_positive (take n mem) of
                                        Some x \<Rightarrow> ret (info\<lparr>ebi_length := x, hasBody := True\<rparr>)
                                      | None \<Rightarrow> ret info)"

section \<open>Settings from the process environment\<close>

text \<open>
  The first \<open>n\<close> bytes of the zero-initialised buffer after the call wrote \<open>v\<close> to it, and
  its first byte.
\<close>

definition env_buf :: "nat \<Rightarrow> bytes \<Rightarrow> bytes" where
  "env_buf n v = take n (v @ replicate n NUL)"

definition env_first :: "bytes \<Rightarrow> char" where
  "env_first v = (case v of [] \<Rightarrow> NUL | c # _ \<Rightarrow> c)"

definition BodyReadsAsync :: "env \<Rightarrow> bool wprog" where
  "BodyReadsAsync env =
     bnd (gets g_bodyAsyncState) (\<lambda>st.
       if st = 0
       then let (n, flag) = GetEnvironmentVariableA env ''MODSEC_IIS_BODY_ASYNC'' 16;
                sync = (n > 0 \<and> n < 16 \<and> env_first flag \<in> {CHR ''0'', CHR ''f'', CHR ''F''});
                st1 = (if sync then 1 else 2)
            in andThen (modify (\<lambda>w. w\<lparr>g_bodyAsyncState := st1\<rparr>)) (ret (st1 = 2))
       else ret (st = 2))"

definition GetMaxInspectBodyBytes :: "env \<Rightarrow> ULONGLONG" where
  "GetMaxInspectBodyBytes env =
     (let v0 = 1024 * 1024;
          (n, buf) = GetEnvironmentVariableA env ''MODSEC_IIS_MAX_INSPECT_BODY_BYTES'' 32;
          v = (if n > 0 \<and> n < 32
               then (case parse_positive (env_buf n buf) of Some x \<Rightarrow> x | None \<Rightarrow> v0)
               else v0)
      in if v > 0xFFFFFFFF then 0xFFFFFFFF else v)"

definition ConfigFailClosed :: "env \<Rightarrow> bool" where
  "ConfigFailClosed env =
     (let (n, buf) = GetEnvironmentVariableA env ''MODSEC_IIS_FAIL_CLOSED'' 8
      in \<not> (n > 0 \<and> n < 8 \<and> env_first buf = CHR ''0''))"

lemma max_inspect_bounds:
  "0 < GetMaxInspectBodyBytes env" "GetMaxInspectBodyBytes env \<le> 0xFFFFFFFF"
proof -
  have "0 < x" if "parse_positive s = Some x" for s x
    using that by (auto simp: parse_positive_def split: if_splits prod.splits)
  then show "0 < GetMaxInspectBodyBytes env"
    by (auto simp: GetMaxInspectBodyBytes_def Let_def split: prod.split option.split)
  show "GetMaxInspectBodyBytes env \<le> 0xFFFFFFFF"
    by (auto simp: GetMaxInspectBodyBytes_def Let_def not_less split: prod.split option.split)
qed

section \<open>The body-read mode is fixed by its first use\<close>

definition async_mode_kept :: "world \<Rightarrow> bool option" where
  "async_mode_kept w = (if g_bodyAsyncState w = 0 then None else Some (g_bodyAsyncState w = 2))"

interpretation async_mode: reliable_memo async_mode_kept "\<lambda>env. result_of (BodyReadsAsync env)"
  by unfold_locales
     (auto simp: async_mode_kept_def result_of_def BodyReadsAsync_def prog_defs Let_def
        split: prod.split)

section \<open>Properties\<close>

text \<open>C37: A Content-Length header that is the decimal text of a positive 64-bit number, on a
  request for which http.sys reports no further entity body, is declared with exactly that
  length.\<close>

theorem content_length_roundtrip:
  assumes "req_KnownHeaders req ''HttpHeaderContentLength''
      = \<lparr> pRawValue = Some (to_dec n), RawValueLength = word_of_nat (length (to_dec n)) \<rparr>"
    and "Flags req AND HTTP_REQUEST_FLAG_MORE_ENTITY_BODY_EXISTS = 0"
    and "0 < n" and "n < 2 ^ 64"
  shows "GetEntityBodyInfo (Some req) s
    = (Ok \<lparr> hasBody = True, ebi_length = word_of_nat n \<rparr>, s)"
proof -
  have len: "length (to_dec n) \<le> 20"
    by (rule to_dec_length) (use assms(4) in simp_all)
  have pos: "0 < length (to_dec n)" using to_dec_nonempty[of n] by simp
  have un: "unat (word_of_nat (length (to_dec n)) :: 16 word) = length (to_dec n)"
    using len by (simp add: unat_of_nat)
  have nz: "(word_of_nat (length (to_dec n)) :: 16 word) \<noteq> 0"
    using un pos by (metis unsigned_0 less_irrefl)
  have "parse_positive (to_dec n) = Some (word_of_nat n)"
    using assms(3,4) to_dec_digits by (simp add: parse_positive_Some digits_value_to_dec)
  with assms len un nz show ?thesis
    by (simp add: GetEntityBodyInfo_def prog_simps)
qed

theorem content_length_roundtrip_witness:
  "GetEntityBodyInfo (Some (quiet_request\<lparr>req_KnownHeaders :=
      (\<lambda>_. \<lparr> pRawValue = Some (to_dec 4096), RawValueLength = word_of_nat (length (to_dec 4096)) \<rparr>)\<rparr>)) ()
    = (Ok \<lparr> hasBody = True, ebi_length = word_of_nat 4096 \<rparr>, ())"
  by (rule content_length_roundtrip) (simp_all add: quiet_request_def)

text \<open>C40: Only the first 31 bytes of a longer Content-Length are parsed: the header with thirty
  zeros before \<open>12\<close>, whose value is 12, is declared as a body of length 1.\<close>

theorem content_length_prefix:
  "digits_value (replicate 30 (CHR ''0'') @ ''12'') = 12 \<and>
   GetEntityBodyInfo (Some (quiet_request\<lparr>req_KnownHeaders :=
      (\<lambda>_. \<lparr> pRawValue = Some (replicate 30 (CHR ''0'') @ ''12''), RawValueLength = 32 \<rparr>)\<rparr>)) s
    = (Ok \<lparr> hasBody = True, ebi_length = 1 \<rparr>, s)"
proof -
  have z: "foldl (\<lambda>a c. 10 * a + digit_value c) 0 (replicate k (CHR ''0'')) = 0" for k
    by (induction k) (simp_all add: digit_value_def)
  have one: "digits_value (replicate 30 (CHR ''0'') @ ''1'') = 1"
    using z[of 30] by (simp only: digits_value_def foldl_append) (simp add: digit_value_def)
  have v: "digits_value (replicate 30 (CHR ''0'') @ ''12'') = 12"
    using z[of 30] by (simp only: digits_value_def foldl_append) (simp add: digit_value_def)
  have "\<forall>c \<in> set (replicate 30 (CHR ''0'') @ ''1''). is_digit c"
    by (auto simp: is_digit_def)
  with one have "parse_positive (replicate 30 (CHR ''0'') @ ''1'') = Some 1"
    by (simp only: parse_positive_Some) simp
  moreover have "take 31 (replicate 30 (CHR ''0'') @ ''12'') = replicate 30 (CHR ''0'') @ ''1''"
    by (simp add: take_Cons')
  ultimately show ?thesis using v
    by (simp add: GetEntityBodyInfo_def quiet_request_def prog_simps)
qed

text \<open>C34: An IPv4 peer that arrives over a dual-stack listener as \<open>::ffff:a.b.c.d\<close> is reported
  with the same text as over AF_INET, given that GetNameInfo renders a numeric IPv4 host as
  its dotted quad.\<close>

theorem mapped_ipv4_same_text:
  assumes "GetNameInfoA env (SockAddrIn port4 [a, b, c, d]) 16 = Some (dotted_quad [a, b, c, d])"
  shows "SockAddrToIp env (Some (SockAddrIn6 port6 (replicate 10 0 @ [0xFF, 0xFF, a, b, c, d])))
    = SockAddrToIp env (Some (SockAddrIn port4 [a, b, c, d]))"
proof -
  let ?m = "replicate 10 (0 :: 8 word) @ [0xFF, 0xFF, a, b, c, d]"
  have "IN6_IS_ADDR_V4MAPPED ?m" by (simp add: IN6_IS_ADDR_V4MAPPED_def)
  moreover have "[?m ! 12, ?m ! 13, ?m ! 14, ?m ! 15] = [a, b, c, d]"
    by (simp add: nth_append)
  moreover have "take 15 (dotted_quad [a, b, c, d]) = dotted_quad [a, b, c, d]"
    using dotted_quad_length by simp
  ultimately show ?thesis using assms
    by (simp add: SockAddrToIp_def del: append.simps replicate.simps)
qed

theorem mapped_ipv4_same_text_witness:
  "SockAddrToIp (quiet_env\<lparr>GetNameInfoA := (\<lambda>_ _. Some (dotted_quad [192, 0, 2, 1]))\<rparr>)
     (Some (SockAddrIn6 80 (replicate 10 0 @ [0xFF, 0xFF, 192, 0, 2, 1])))
   = SockAddrToIp (quiet_env\<lparr>GetNameInfoA := (\<lambda>_ _. Some (dotted_quad [192, 0, 2, 1]))\<rparr>)
     (Some (SockAddrIn 443 [192, 0, 2, 1]))"
  by (rule mapped_ipv4_same_text) simp

text \<open>The sixteen-byte buffer never cuts the text of a mapped address: two mapped addresses
  with the same text have the same four address bytes.\<close>

theorem mapped_ipv4_text_injective:
  assumes "length x = 16" and "length y = 16"
    and "IN6_IS_ADDR_V4MAPPED x" and "IN6_IS_ADDR_V4MAPPED y"
    and "SockAddrToIp env (Some (SockAddrIn6 p x)) = SockAddrToIp env (Some (SockAddrIn6 q y))"
  shows "x = y"
proof -
  have full: "take 15 (dotted_quad z) = dotted_quad z" for z
    using dotted_quad_length by simp
  from assms have "dotted_quad [x ! 12, x ! 13, x ! 14, x ! 15]
      = dotted_quad [y ! 12, y ! 13, y ! 14, y ! 15]"
    by (simp add: SockAddrToIp_def full)
  from dotted_quad_inj[OF this]
  have tail: "x ! 12 = y ! 12" "x ! 13 = y ! 13" "x ! 14 = y ! 14" "x ! 15 = y ! 15"
    by simp_all
  from assms have head: "take 12 x = take 12 y" by (simp add: IN6_IS_ADDR_V4MAPPED_def)
  have "drop 12 x = drop 12 y"
  proof (rule nth_equalityI)
    fix i assume "i < length (drop 12 x)"
    with assms(1) have "i = 0 \<or> i = 1 \<or> i = 2 \<or> i = 3" by auto
    with tail assms(1,2) show "drop 12 x ! i = drop 12 y ! i" by auto
  qed (simp add: assms)
  with head show ?thesis by (metis append_take_drop_id)
qed

theorem mapped_ipv4_text_injective_witness:
  "replicate 10 (0 :: 8 word) @ [0xFF, 0xFF, 10, 1, 2, 3]
    = replicate 10 0 @ [0xFF, 0xFF, 10, 1, 2, 3]"
  by (rule mapped_ipv4_text_injective [where env = quiet_env and p = 0 and q = 0])
     (simp_all add: IN6_IS_ADDR_V4MAPPED_def)

lemma max_inspect_value:
  assumes "GetEnvironmentVariableA env ''MODSEC_IIS_MAX_INSPECT_BODY_BYTES'' 32
      = (length (to_dec n), to_dec n)"
    and "0 < n" and "n < 2 ^ 64"
  shows "unat (GetMaxInspectBodyBytes env) = min n 0xFFFFFFFF"
proof -
  have len: "length (to_dec n) \<le> 20"
    by (rule to_dec_length) (use assms(3) in simp_all)
  have "env_buf (length (to_dec n)) (to_dec n) = to_dec n"
    by (simp add: env_buf_def)
  moreover have "parse_positive (to_dec n) = Some (word_of_nat n)"
    using assms(2,3) to_dec_digits by (simp add: parse_positive_Some digits_value_to_dec)
  ultimately have "GetMaxInspectBodyBytes env
      = (if word_of_nat n > (0xFFFFFFFF :: 64 word) then 0xFFFFFFFF else word_of_nat n)"
    using assms(1) len to_dec_nonempty[of n] by (simp add: GetMaxInspectBodyBytes_def)
  with assms(3) show ?thesis by (simp add: word_less_nat_alt unat_of_nat min_def)
qed

text \<open>The inspection cap is the value of MODSEC_IIS_MAX_INSPECT_BODY_BYTES when that is the
  decimal text of a positive number, clamped to what a DWORD can hold.\<close>

theorem max_inspect_configured:
  assumes "GetEnvironmentVariableA env ''MODSEC_IIS_MAX_INSPECT_BODY_BYTES'' 32
      = (length (to_dec n), to_dec n)"
    and "0 < n" and "n < 2 ^ 64"
  shows "unat (GetMaxInspectBodyBytes env) = min n 0xFFFFFFFF"
  using assms by (rule max_inspect_value)

theorem max_inspect_configured_witness:
  "unat (GetMaxInspectBodyBytes (quiet_env\<lparr>GetEnvironmentVariableA :=
     (\<lambda>_ _. (length (to_dec 5000000000), to_dec 5000000000))\<rparr>)) = min 5000000000 0xFFFFFFFF"
  by (rule max_inspect_configured) simp_all

text \<open>The body-read mode is decided by the first request: once it has been answered, every
  later call gives the same answer and changes nothing, whatever the environment variable
  says by then.\<close>

theorem body_read_mode_stable:
  assumes "BodyReadsAsync env w = (Ok a, v)" and "g_bodyAsyncState u = g_bodyAsyncState v"
  shows "BodyReadsAsync env' u = (Ok a, u)"
proof (cases "g_bodyAsyncState v = 0")
  case True
  with assms show ?thesis
    by (auto simp: BodyReadsAsync_def prog_defs Let_def split: prod.splits if_splits)
next
  case False
  from async_mode.kept_get[of env w a] assms(1) False have "a \<longleftrightarrow> g_bodyAsyncState v = 2"
    by (simp add: result_of_def async_mode_kept_def)
  with False assms(2) show ?thesis by (simp add: BodyReadsAsync_def prog_simps)
qed

theorem body_read_mode_stable_witness:
  "BodyReadsAsync (quiet_env\<lparr>GetEnvironmentVariableA := (\<lambda>_ _. (1, ''0''))\<rparr>)
     (start_world\<lparr>g_bodyAsyncState := 2\<rparr>) = (Ok True, start_world\<lparr>g_bodyAsyncState := 2\<rparr>)"
  by (rule body_read_mode_stable [where env = quiet_env and w = start_world
        and v = "start_world\<lparr>g_bodyAsyncState := 2\<rparr>"])
     (simp_all add: BodyReadsAsync_def prog_simps)

end
