(* ===== verification/Connector.thy ===== *)
theory Connector
  imports Helpers
begin

text \<open>
  The connector of \<open>src/connector.cpp\<close>: the event-log writer, the rate limit of the server-log
  callback, the engine singleton and the rules cache, with its two critical sections as
  separate operations so that they can be interleaved. \<open>ReportException\<close> of
  \<open>src/ModSecurityIIS.cpp\<close> rests on the writer and stands here too.
\<close>

section \<open>Event Viewer\<close>

definition WriteEventViewerLog :: "string option \<Rightarrow> log_category \<Rightarrow> unit wprog" where
  "WriteEventViewerLog message category =
     bnd (gets g_hEventLog) (\<lambda>handle.
       case message of
         None \<Rightarrow> ret ()
       | Some m \<Rightarrow> if handle then emit (EventLogged m category) else ret ())"

text \<open>The message buffer has 512 bytes; the text is cut to 511 before the terminator.\<close>

definition ReportException :: "string \<Rightarrow> exn \<Rightarrow> unit wprog" where
  "ReportException site e =
     (let what = (case e of StdException s \<Rightarrow> s | OtherException \<Rightarrow> ''unknown error'');
          buf = take 511 (''ModSecurityIIS: unexpected exception in '' @ site @ '': '' @ what)
      in WriteEventViewerLog (Some buf) EVENTLOG_ERROR_TYPE)"

section \<open>The server-log rate limit\<close>

record throttle =
  g_logWindowStart :: ULONGLONG
  g_logCount :: DWORD

definition kMaxLogsPerSecond :: DWORD where
  "kMaxLogsPerSecond = 100"

definition throttle_admit :: "ULONGLONG \<Rightarrow> throttle \<Rightarrow> bool \<times> throttle" where
  "throttle_admit now th0 =
     (let th = (if now - g_logWindowStart th0 \<ge> 1000
                then th0\<lparr>g_logWindowStart := now, g_logCount := 0\<rparr> else th0)
      in if g_logCount th \<ge> kMaxLogsPerSecond then (False, th)
         else (True, th\<lparr>g_logCount := g_logCount th + 1\<rparr>))"

text \<open>The callback: which text, if any, goes to the event log at time \<open>now\<close>.\<close>

definition ServerLogCallback ::
  "string option \<Rightarrow> ULONGLONG \<Rightarrow> throttle \<Rightarrow> string option \<times> throttle" where
  "ServerLogCallback message now th =
     (case message of
        None \<Rightarrow> (None, th)
      | Some m \<Rightarrow> (case throttle_admit now th of
            (True, th') \<Rightarrow> (Some m, th')
          | (False, th') \<Rightarrow> (None, th')))"

text \<open>The texts logged for a run of engine messages.\<close>

fun logged :: "(string option \<times> ULONGLONG) list \<Rightarrow> throttle \<Rightarrow> string list" where
  "logged [] th = []"
| "logged ((m, now) # ms) th =
     (case ServerLogCallback m now th of
        (None, th') \<Rightarrow> logged ms th'
      | (Some t, th') \<Rightarrow> t # logged ms th')"

lemma throttle_count_bound: "g_logCount th \<le> kMaxLogsPerSecond \<Longrightarrow>
   g_logCount (snd (throttle_admit now th)) \<le> kMaxLogsPerSecond"
  by (auto simp: throttle_admit_def kMaxLogsPerSecond_def Let_def word_le_nat_alt unat_word_ariths)

text \<open>Without a reset the window admits at most what is left of its quota.\<close>

lemma logged_in_window:
  assumes "\<forall>(m, t) \<in> set ms. t - g_logWindowStart th < 1000"
    and "unat (g_logCount th) \<le> 100"
  shows "length (logged ms th) + unat (g_logCount th) \<le> 100"
  using assms
proof (induction ms arbitrary: th)
  case Nil
  then show ?case by simp
next
  case (Cons mt ms)
  obtain m t where mt: "mt = (m, t)" by fastforce
  from Cons.prems mt have noreset: "\<not> t - g_logWindowStart th \<ge> 1000" by auto
  show ?case
  proof (cases m)
    case None
    with Cons mt show ?thesis by (auto simp: ServerLogCallback_def)
  next
    case (Some msg)
    show ?thesis
    proof (cases "g_logCount th \<ge> 100")
      case True
      with Cons mt Some noreset show ?thesis
        by (auto simp: ServerLogCallback_def throttle_admit_def kMaxLogsPerSecond_def)
    next
      case False
      let ?th = "th\<lparr>g_logCount := g_logCount th + 1\<rparr>"
      from False have inc: "unat (g_logCount th + 1) = unat (g_logCount th) + 1"
        by (simp add: unat_word_ariths word_le_nat_alt)
      from False inc have "unat (g_logCount ?th) \<le> 100"
        by (simp add: word_le_nat_alt)
      with Cons.IH[of ?th] Cons.prems mt inc have
        "length (logged ms ?th) + unat (g_logCount th) + 1 \<le> 100" by auto
      with mt Some noreset False show ?thesis
        by (simp add: ServerLogCallback_def throttle_admit_def kMaxLogsPerSecond_def)
    qed
  qed
qed

lemma sub_less_1000:
  fixes s t :: ULONGLONG
  assumes "unat s \<le> unat t" and "unat t < unat s + 1000"
  shows "t - s < 1000"
proof -
  from assms(1) have "unat (t - s) = unat t - unat s"
    by (simp add: word_le_nat_alt unat_sub)
  with assms(2) show ?thesis by (simp add: word_less_nat_alt)
qed

lemma logged_in_second:
  assumes "sorted (map (unat \<circ> snd) ms)"
    and "\<forall>(m, t) \<in> set ms. a \<le> unat t \<and> unat t < a + 1000"
    and "unat (g_logCount th) \<le> 100"
  shows "length (logged ms th) + unat (g_logCount th) \<le> 200"
  using assms
proof (induction ms arbitrary: th)
  case Nil
  then show ?case by simp
next
  case (Cons mt ms)
  obtain m t where mt: "mt = (m, t)" by fastforce
  have later: "\<forall>(m', t') \<in> set ms. unat t \<le> unat t' \<and> unat t' < unat t + 1000"
    using Cons.prems(1,2) mt by fastforce
  have tail: "sorted (map (unat \<circ> snd) ms)"
    "\<forall>(m, t) \<in> set ms. a \<le> unat t \<and> unat t < a + 1000"
    using Cons.prems by (auto simp: comp_def)
  show ?case
  proof (cases m)
    case None
    with Cons.IH[OF tail Cons.prems(3)] mt show ?thesis by (simp add: ServerLogCallback_def)
  next
    case (Some msg)
    show ?thesis
    proof (cases "t - g_logWindowStart th \<ge> 1000")
      case True
      let ?th = "th\<lparr>g_logWindowStart := t, g_logCount := 1\<rparr>"
      have "\<forall>(m', t') \<in> set ms. t' - g_logWindowStart ?th < 1000"
        using later sub_less_1000 by fastforce
      then have "length (logged ms ?th) + unat (g_logCount ?th) \<le> 100"
        by (rule logged_in_window) simp
      with True mt Some Cons.prems(3) show ?thesis
        by (simp add: ServerLogCallback_def throttle_admit_def kMaxLogsPerSecond_def)
    next
      case False
      show ?thesis
      proof (cases "g_logCount th \<ge> 100")
        case True
        with Cons.IH[OF tail Cons.prems(3)] mt Some False show ?thesis
          by (simp add: ServerLogCallback_def throttle_admit_def kMaxLogsPerSecond_def)
      next
        case small: False
        let ?th = "th\<lparr>g_logCount := g_logCount th + 1\<rparr>"
        from small have inc: "unat (g_logCount th + 1) = unat (g_logCount th) + 1"
          by (simp add: unat_word_ariths word_le_nat_alt)
        with small have "unat (g_logCount ?th) \<le> 100" by (simp add: word_le_nat_alt)
        from Cons.IH[OF tail this] mt Some False small inc show ?thesis
          by (simp add: ServerLogCallback_def throttle_admit_def kMaxLogsPerSecond_def)
      qed
    qed
  qed
qed

section \<open>The engine singleton\<close>

definition engine :: "env \<Rightarrow> engine_obj wprog" where
  "engine env =
     bnd (gets g_engine) (\<lambda>e.
       case e of
         Some g \<Rightarrow> ret g
       | None \<Rightarrow>
           andThen (heap_alloc env)
             (let g = \<lparr> connector_information = ''ModSecurity IIS (libModSecurity v3)'',
                        has_log_callback = True \<rparr>
              in andThen (modify (\<lambda>w. w\<lparr>g_engine := Some g\<rparr>)) (ret g)))"

interpretation engine_singleton: reliable_memo g_engine "\<lambda>env. result_of (engine env)"
  by unfold_locales
     (auto simp: result_of_def engine_def heap_alloc_def prog_defs Let_def)

section \<open>The rules cache\<close>

text \<open>
  The interface of \<open>std::unordered_map\<close> the cache uses: lookup by key and insertion.
\<close>

locale cache_map =
  fixes find :: "'m \<Rightarrow> string \<Rightarrow> 'v option" and insert :: "'m \<Rightarrow> string \<Rightarrow> 'v \<Rightarrow> 'm"
  assumes find_insert: "find (insert m k v) j = (if j = k then Some v else find m j)"
begin

lemma find_after_insert: "find (insert m k v) k = Some v"
  by (simp add: find_insert)

lemma insert_absent_keeps:
  "find m k = None \<Longrightarrow> find m j = Some u \<Longrightarrow> find (insert m k v) j = Some u"
  by (auto simp: find_insert)

end

definition cache_find :: "(string \<rightharpoonup> cached_rules) \<Rightarrow> string \<Rightarrow> cached_rules option" where
  "cache_find m k = m k"

definition cache_insert ::
  "(string \<rightharpoonup> cached_rules) \<Rightarrow> string \<Rightarrow> cached_rules \<Rightarrow> (string \<rightharpoonup> cached_rules)" where
  "cache_insert m k v = m(k \<mapsto> v)"

interpretation rules_cache: cache_map cache_find cache_insert
  by unfold_locales (simp add: cache_find_def cache_insert_def)

definition GetRulesFileTime :: "env \<Rightarrow> event list \<Rightarrow> string \<Rightarrow> filetime option" where
  "GetRulesFileTime env evs configFile =
     (let wlen = fst (MultiByteToWideChar env (c_str configFile) 0)
      in if wlen = 0 then None
         else let wpath = take wlen (snd (MultiByteToWideChar env (c_str configFile) wlen)
                            @ replicate wlen 0)
              in GetFileAttributesExW env evs (takeWhile (\<lambda>c. c \<noteq> 0) wpath))"

text \<open>First critical section: the cached rules when the file has not changed.\<close>

definition getRules_fast ::
  "(string \<rightharpoonup> cached_rules) \<Rightarrow> string \<Rightarrow> filetime option \<Rightarrow> rules_set option" where
  "getRules_fast cache configFile mtime =
     (case cache_find cache configFile of
        None \<Rightarrow> None
      | Some it \<Rightarrow>
          (case mtime of
             None \<Rightarrow> Some (cr_rules it)
           | Some cur \<Rightarrow>
               if dwLowDateTime (cr_mtime it) = dwLowDateTime cur \<and>
                  dwHighDateTime (cr_mtime it) = dwHighDateTime cur
               then Some (cr_rules it) else None))"

text \<open>
  Second critical section, after the file was parsed with result \<open>rc\<close>: what is returned and
  the cache it leaves. An unreadable time is the zero FILETIME of the declaration.
\<close>

definition zero_filetime :: filetime where
  "zero_filetime = \<lparr> dwLowDateTime = 0, dwHighDateTime = 0 \<rparr>"

definition getRules_commit ::
  "(string \<rightharpoonup> cached_rules) \<Rightarrow> string \<Rightarrow> filetime option \<Rightarrow> int \<Rightarrow> rules_set
    \<Rightarrow> rules_set option \<times> (string \<rightharpoonup> cached_rules)" where
  "getRules_commit cache configFile mtime rc rules =
     (if rc < 0
      then (case cache_find cache configFile of
              Some it \<Rightarrow> (Some (cr_rules it), cache)
            | None \<Rightarrow> (None, cache))
      else (case cache_find cache configFile of
              Some it \<Rightarrow> (Some (cr_rules it), cache)
            | None \<Rightarrow>
                (Some rules, cache_insert cache configFile
                   \<lparr> cr_rules = rules,
                     cr_mtime = (case mtime of Some t \<Rightarrow> t | None \<Rightarrow> zero_filetime) \<rparr>)))"

text \<open>The whole call; it returns the rules and the error text stored through \<open>err\<close>.\<close>

definition getRules :: "env \<Rightarrow> string \<Rightarrow> (rules_set option \<times> string) wprog" where
  "getRules env configFile =
     bnd (gets (\<lambda>w. GetRulesFileTime env (w_evs w) configFile)) (\<lambda>mtime.
     bnd (gets (\<lambda>w. getRules_fast (g_rulesCache w) configFile mtime)) (\<lambda>hit.
       case hit of
         Some rules \<Rightarrow> ret (Some rules, '''')
       | None \<Rightarrow>
           andThen (heap_alloc env) (
           bnd (gets (\<lambda>w. loadFromUri env (w_evs w) (c_str configFile))) (\<lambda>loaded.
             case loaded of
               Inl e \<Rightarrow> raise e
             | Inr (rc, rules, parserError) \<Rightarrow>
                 andThen (emit (RulesLoaded configFile rc)) (
                 bnd (gets g_rulesCache) (\<lambda>cache.
                   let (r, cache') = getRules_commit cache configFile mtime rc rules;
                       err = (if rc < 0 then parserError else '''')
                   in andThen (whenever (rc < 0 \<and> r \<noteq> None)
                        (WriteEventViewerLog
                          (Some (''ModSecurityIIS: rules reload failed, keeping previous config: '' @ err))
                          EVENTLOG_ERROR_TYPE)) (
                      andThen (modify (\<lambda>w. w\<lparr>g_rulesCache := cache'\<rparr>))
                        (ret (r, err)))))))))"

lemma WriteEventViewerLog_frame:
  assumes "WriteEventViewerLog m c w = (r, w')"
  shows "r = Ok ()" and "g_rulesCache w' = g_rulesCache w" and "w_rsc w' = w_rsc w"
    and "\<exists>es. w_evs w' = w_evs w @ es \<and> (\<forall>e \<in> set es. e = EventLogged (the m) c)"
  using assms
  by (auto simp: WriteEventViewerLog_def prog_simps bnd_def gets_def split: option.splits if_splits)

lemma getRules_commit_keeps:
  assumes "cache_find cache f = Some it"
  shows "getRules_commit cache g mtime rc rules = (r, cache') \<Longrightarrow> cache_find cache' f = Some it"
  using assms rules_cache.insert_absent_keeps
  by (auto simp: getRules_commit_def split: option.splits if_splits)

lemma getRules_commit_result:
  "getRules_commit cache f mtime rc rules = (Some r, cache') \<Longrightarrow>
   \<exists>it. cache_find cache' f = Some it \<and> cr_rules it = r"
  by (auto simp: getRules_commit_def rules_cache.find_after_insert split: option.splits if_splits)

lemma getRules_fast_result:
  "getRules_fast cache f mtime = Some r \<Longrightarrow> \<exists>it. cache_find cache f = Some it \<and> cr_rules it = r"
  by (auto simp: getRules_fast_def split: option.splits if_splits)

definition cached_for :: "string \<Rightarrow> world \<Rightarrow> rules_set option" where
  "cached_for f w = map_option cr_rules (cache_find (g_rulesCache w) f)"

definition getRules_result :: "string \<Rightarrow> env \<Rightarrow> world \<Rightarrow> rules_set option \<times> world" where
  "getRules_result f env w =
     (case result_of (getRules env f) w of (x, w') \<Rightarrow> (Option.bind x fst, w'))"

interpretation file_rules: memo "cached_for f" "getRules_result f" for f
proof unfold_locales
  fix w v env
  assume kept: "cached_for f w = Some v"
  then obtain it where it: "cache_find (g_rulesCache w) f = Some it" "cr_rules it = v"
    by (auto simp: cached_for_def)
  show "fst (getRules_result f env w) = None \<or> fst (getRules_result f env w) = Some v"
    using it
    by (auto simp: getRules_result_def result_of_def getRules_def getRules_fast_def
          getRules_commit_def heap_alloc_def WriteEventViewerLog_def emit_def prog_defs Let_def
        split: option.split sum.split prod.split)
  show "cached_for f (snd (getRules_result f env w)) = Some v"
    using it
    by (auto simp: getRules_result_def result_of_def getRules_def getRules_fast_def cached_for_def
          getRules_commit_def heap_alloc_def WriteEventViewerLog_def emit_def prog_defs Let_def
        split: option.split sum.split prod.split)
next
  fix w env
  assume "cached_for f w = None"
  then have "cache_find (g_rulesCache w) f = None" by (simp add: cached_for_def)
  then show "cached_for f (snd (getRules_result f env w)) = fst (getRules_result f env w)"
    by (auto simp: getRules_result_def result_of_def getRules_def getRules_fast_def cached_for_def
          getRules_commit_def heap_alloc_def WriteEventViewerLog_def emit_def prog_defs Let_def
          rules_cache.find_after_insert
        split: option.split sum.split prod.split)
qed

section \<open>Threads that load the same cache\<close>

text \<open>
  Worker threads call \<open>getRules\<close> concurrently; the two locked sections are atomic and the
  parse between them is not. A thread is before its call, between the sections with what it
  parsed, or back with its result. Another thread may have filled the cache in between.
\<close>

datatype loader =
  Loader_Start
| Loader_Parsed string "filetime option" int rules_set
| Loader_Done string "rules_set option"

record cache_sys =
  cs_cache :: "string \<rightharpoonup> cached_rules"
  cs_threads :: "nat \<Rightarrow> loader"

definition cache_sys_init :: "cache_sys \<Rightarrow> bool" where
  "cache_sys_init s \<longleftrightarrow> (\<forall>i. cs_threads s i = Loader_Start)"

inductive cache_step :: "cache_sys \<Rightarrow> cache_sys \<Rightarrow> bool" where
  fast_hit: "cs_threads s i = Loader_Start \<Longrightarrow>
     getRules_fast (cs_cache s) f mtime = Some r \<Longrightarrow>
     cache_step s (s\<lparr>cs_threads := (cs_threads s)(i := Loader_Done f (Some r))\<rparr>)"
| parsed: "cs_threads s i = Loader_Start \<Longrightarrow>
     getRules_fast (cs_cache s) f mtime = None \<Longrightarrow>
     cache_step s (s\<lparr>cs_threads := (cs_threads s)(i := Loader_Parsed f mtime rc rules)\<rparr>)"
| commit: "cs_threads s i = Loader_Parsed f mtime rc rules \<Longrightarrow>
     getRules_commit (cs_cache s) f mtime rc rules = (r, cache') \<Longrightarrow>
     cache_step s (s\<lparr>cs_cache := cache',
       cs_threads := (cs_threads s)(i := Loader_Done f r)\<rparr>)"

inductive_cases cache_stepE: "cache_step s t"

definition cache_agrees :: "cache_sys \<Rightarrow> bool" where
  "cache_agrees s \<longleftrightarrow> (\<forall>i f r. cs_threads s i = Loader_Done f (Some r) \<longrightarrow>
     (\<exists>it. cache_find (cs_cache s) f = Some it \<and> cr_rules it = r))"

lemma cache_step_agrees: "cache_agrees s \<Longrightarrow> cache_step s t \<Longrightarrow> cache_agrees t"
proof (erule cache_stepE)
  fix i f mtime r
  assume "cache_agrees s" "t = s\<lparr>cs_threads := (cs_threads s)(i := Loader_Done f (Some r))\<rparr>"
    "getRules_fast (cs_cache s) f mtime = Some r"
  then show "cache_agrees t"
    by (auto simp: cache_agrees_def dest: getRules_fast_result)
next
  fix i f mtime rc rules
  assume "cache_agrees s"
    "t = s\<lparr>cs_threads := (cs_threads s)(i := Loader_Parsed f mtime rc rules)\<rparr>"
  then show "cache_agrees t" by (simp add: cache_agrees_def)
next
  fix i f mtime rc rules r cache'
  assume inv: "cache_agrees s"
    and t: "t = s\<lparr>cs_cache := cache', cs_threads := (cs_threads s)(i := Loader_Done f r)\<rparr>"
    and run: "getRules_commit (cs_cache s) f mtime rc rules = (r, cache')"
  show "cache_agrees t"
    unfolding cache_agrees_def
  proof (intro allI impI)
    fix j g q
    assume fin: "cs_threads t j = Loader_Done g (Some q)"
    show "\<exists>it. cache_find (cs_cache t) g = Some it \<and> cr_rules it = q"
    proof (cases "j = i")
      case True
      with fin t run show ?thesis by (auto dest: getRules_commit_result)
    next
      case False
      with fin t have "cs_threads s j = Loader_Done g (Some q)" by simp
      with inv obtain it where "cache_find (cs_cache s) g = Some it" "cr_rules it = q"
        unfolding cache_agrees_def by blast
      with run t show ?thesis by (auto dest: getRules_commit_keeps)
    qed
  qed
qed

interpretation cache_threads: inv_system cache_sys_init cache_step cache_agrees
  by unfold_locales (simp add: cache_agrees_def cache_sys_init_def, rule cache_step_agrees)

section \<open>Properties\<close>

text \<open>C14: Under any interleaving of worker threads in \<open>getRules\<close>, two threads that get rules for
  the same file get the same rules set: the loser of a race discards its own copy.\<close>

theorem threads_share_rules:
  assumes "reach cache_sys_init cache_step s"
    and "cs_threads s i = Loader_Done f (Some r)" and "cs_threads s j = Loader_Done f (Some q)"
  shows "r = q"
proof -
  from assms(1) have "cache_agrees s" by (rule cache_threads.invariant)
  then have done_cached: "\<exists>it. cache_find (cs_cache s) f = Some it \<and> cr_rules it = x"
    if "cs_threads s k = Loader_Done f (Some x)" for k x
    using that unfolding cache_agrees_def by blast
  from done_cached[OF assms(2)] done_cached[OF assms(3)] show ?thesis by auto
qed

theorem threads_share_rules_witness:
  "\<exists>s r q. reach cache_sys_init cache_step s \<and> cs_threads s 0 = Loader_Done ''f'' (Some r) \<and>
     cs_threads s 1 = Loader_Done ''f'' (Some q) \<and> r = q"
proof -
  let ?q = "quiet_rules\<lparr>rs_id := 2\<rparr>"
  let ?m = "Some \<lparr> dwLowDateTime = 1, dwHighDateTime = 0 \<rparr>"
  let ?e = "\<lparr> cr_rules = quiet_rules, cr_mtime = \<lparr> dwLowDateTime = 1, dwHighDateTime = 0 \<rparr> \<rparr>"
  let ?s = "\<lambda>c th. \<lparr> cs_cache = c, cs_threads = th \<rparr>"
  let ?th1 = "(\<lambda>_. Loader_Start)(0 := Loader_Parsed ''f'' ?m 1 quiet_rules)"
  let ?th2 = "?th1(1 := Loader_Parsed ''f'' ?m 1 ?q)"
  have "reach cache_sys_init cache_step (?s Map.empty (\<lambda>_. Loader_Start))"
    by (rule reach_init) (simp add: cache_sys_init_def)
  moreover have "cache_step (?s Map.empty (\<lambda>_. Loader_Start)) (?s Map.empty ?th1)"
    using cache_step.parsed[of "?s Map.empty (\<lambda>_. Loader_Start)" 0 "''f''" ?m 1 quiet_rules]
    by (simp add: getRules_fast_def cache_find_def)
  moreover have "cache_step (?s Map.empty ?th1) (?s Map.empty ?th2)"
    using cache_step.parsed[of "?s Map.empty ?th1" 1 "''f''" ?m 1 ?q]
    by (simp add: getRules_fast_def cache_find_def)
  moreover have "cache_step (?s Map.empty ?th2)
      (?s [''f'' \<mapsto> ?e] (?th2(0 := Loader_Done ''f'' (Some quiet_rules))))"
    using cache_step.commit[of "?s Map.empty ?th2" 0 "''f''" ?m 1 quiet_rules]
    by (simp add: getRules_commit_def cache_find_def cache_insert_def)
  moreover have "cache_step (?s [''f'' \<mapsto> ?e] (?th2(0 := Loader_Done ''f'' (Some quiet_rules))))
      (?s [''f'' \<mapsto> ?e] (?th2(0 := Loader_Done ''f'' (Some quiet_rules),
          1 := Loader_Done ''f'' (Some quiet_rules))))"
    using cache_step.commit[of "?s [''f'' \<mapsto> ?e] (?th2(0 := Loader_Done ''f'' (Some quiet_rules)))"
        1 "''f''" ?m 1 ?q]
    by (simp add: getRules_commit_def cache_find_def)
  ultimately have "reach cache_sys_init cache_step
      (?s [''f'' \<mapsto> ?e] (?th2(0 := Loader_Done ''f'' (Some quiet_rules),
          1 := Loader_Done ''f'' (Some quiet_rules))))"
    by (meson reach_step)
  from this threads_share_rules[OF this, of 0 "''f''" quiet_rules 1 quiet_rules]
  show ?thesis by fastforce
qed

text \<open>Once a file's rules are cached, every later call that does not throw returns those very
  rules and leaves the cache as it was: a failed reload keeps the last good rules, and so does
  a successful one, so an edited file takes effect only in a new process.\<close>

theorem cached_rules_never_replaced:
  assumes "g_rulesCache w f = Some it" and "getRules env f w = (Ok (rules, err), w')"
  shows "rules = Some (cr_rules it) \<and> g_rulesCache w' = g_rulesCache w"
  using assms
  by (auto simp: getRules_def getRules_fast_def getRules_commit_def heap_alloc_def cache_find_def
        WriteEventViewerLog_def emit_def prog_defs Let_def
      split: option.splits sum.splits prod.splits if_splits)

theorem cached_rules_never_replaced_witness:
  "\<exists>rules err w'. getRules (quiet_env\<lparr>loadFromUri := (\<lambda>_ _. Inr (1, quiet_rules\<lparr>rs_id := 2\<rparr>, []))\<rparr>) ''f''
      (start_world\<lparr>g_rulesCache := [''f'' \<mapsto> \<lparr> cr_rules = quiet_rules,
         cr_mtime = \<lparr> dwLowDateTime = 0, dwHighDateTime = 0 \<rparr> \<rparr>]\<rparr>) = (Ok (rules, err), w')
    \<and> rules = Some quiet_rules"
proof -
  let ?env = "quiet_env\<lparr>loadFromUri := (\<lambda>_ _. Inr (1, quiet_rules\<lparr>rs_id := 2\<rparr>, []))\<rparr>"
  let ?it = "\<lparr> cr_rules = quiet_rules, cr_mtime = \<lparr> dwLowDateTime = 0, dwHighDateTime = 0 \<rparr> \<rparr>"
  let ?w = "start_world\<lparr>g_rulesCache := [''f'' \<mapsto> ?it]\<rparr>"
  have "\<exists>rules err w'. getRules ?env ''f'' ?w = (Ok (rules, err), w')"
    by (simp add: getRules_def getRules_fast_def getRules_commit_def heap_alloc_def cache_find_def
        GetRulesFileTime_def prog_simps Let_def c_str_def
        emit_def prog_defs)
  then obtain rules err w' where run: "getRules ?env ''f'' ?w = (Ok (rules, err), w')" by blast
  with cached_rules_never_replaced[OF _ run, of ?it] show ?thesis by auto
qed

text \<open>C29: The server-log callback writes at most 200 lines to the event log within any 1000 ms
  of clock readings, whatever state earlier messages left the rate limiter in.\<close>

theorem server_log_rate:
  assumes "sorted (map (unat \<circ> snd) ms)"
    and "\<forall>(m, t) \<in> set ms. a \<le> unat t \<and> unat t < a + 1000"
    and "g_logCount th \<le> kMaxLogsPerSecond"
  shows "length (logged ms th) \<le> 200"
  using logged_in_second[OF assms(1,2), of th] assms(3)
  by (simp add: kMaxLogsPerSecond_def word_le_nat_alt)

theorem server_log_rate_witness:
  "length (logged [(Some ''a'', 5), (None, 6), (Some ''b'', 900)]
     \<lparr> g_logWindowStart = 0, g_logCount = 0 \<rparr>) \<le> 200"
  by (rule server_log_rate[where a = 5]) (simp_all add: kMaxLogsPerSecond_def)

text \<open>A quiet second restores the quota: after 1000 ms without a reset the next hundred
  messages of the same window are all logged, in order.\<close>

theorem server_log_quota:
  assumes "1000 \<le> t - g_logWindowStart th" and "length texts \<le> 100"
  shows "logged (map (\<lambda>m. (Some m, t)) texts) th = texts"
proof -
  have fill: "logged (map (\<lambda>m. (Some m, t)) ts) th' = ts"
    if "g_logWindowStart th' = t" "unat (g_logCount th') + length ts \<le> 100" for ts th'
    using that
  proof (induction ts arbitrary: th')
    case (Cons m ts)
    then have small: "\<not> 100 \<le> g_logCount th'" by (simp add: word_le_nat_alt)
    then have "unat (g_logCount th' + 1) = unat (g_logCount th') + 1"
      by (simp add: unat_word_ariths word_le_nat_alt)
    with Cons small show ?case
      by (simp add: ServerLogCallback_def throttle_admit_def kMaxLogsPerSecond_def)
  qed simp
  show ?thesis
  proof (cases texts)
    case (Cons m ts)
    have "logged (map (\<lambda>m. (Some m, t)) ts) (th\<lparr>g_logWindowStart := t, g_logCount := 1\<rparr>) = ts"
      by (rule fill) (use assms Cons in simp_all)
    with assms Cons show ?thesis
      by (simp add: ServerLogCallback_def throttle_admit_def kMaxLogsPerSecond_def)
  qed simp
qed

theorem server_log_quota_witness:
  "logged (map (\<lambda>m. (Some m, 2000)) [''a'', ''b'']) \<lparr> g_logWindowStart = 0, g_logCount = 100 \<rparr>
    = [''a'', ''b'']"
  by (rule server_log_quota) simp_all

end
