(* ===== verification/Module_Config.thy ===== *)
theory Module_Config
  imports Connector
begin

text \<open>
  The configuration reader of \<open>src/moduleconfig.cpp\<close>: the two property readers, \<open>Initialize\<close>
  with its single exit, and \<open>GetConfig\<close> with the stored context IIS keeps per configuration
  path. COM objects taken and given back are events of the trace.
\<close>

section \<open>Property readers\<close>

text \<open>
  \<open>VariantClear\<close> reads the type tag of its argument: on a VARIANT that was never passed to
  \<open>VariantInit\<close> that is a read of indeterminate stack memory.
\<close>

definition VariantClear :: "bool \<Rightarrow> unit wprog" where
  "VariantClear initialised = (if initialised then ret () else undef)"

text \<open>
  The part both readers share, up to the \<open>Failure\<close> label: result code, whether an exception
  object was returned, whether the VARIANT is initialised, whether the property is held.
\<close>

definition fetch_property :: "env \<Rightarrow> bool \<Rightarrow> string \<Rightarrow> (HRESULT \<times> bool \<times> bool \<times> bool) wprog" where
  "fetch_property env args_ok name =
     (if \<not> args_ok then ret (E_INVALIDARG, False, False, False)
      else let (hr, held) = GetPropertyByName (com env) name
           in andThen (whenever held (emit (ComAcquire ComProperty)))
                (if FAILED hr then ret (hr, False, False, held)
                 else if \<not> held then ret (E_UNEXPECTED, False, False, False)
                 else if FAILED (get_Value_hr (com env) name)
                      then ret (get_Value_hr (com env) name, False, True, True)
                 else let (hr2, exc) = get_Exception (com env) name
                      in andThen (whenever exc (emit (ComAcquire ComException)))
                           (ret (hr2, exc, True, True))))"

definition release_property :: "bool \<Rightarrow> bool \<Rightarrow> unit wprog" where
  "release_property initialised held =
     andThen (VariantClear initialised) (whenever held (emit (ComRelease ComProperty)))"

definition GetBooleanPropertyValue ::
  "env \<Rightarrow> bool \<Rightarrow> string \<Rightarrow> (HRESULT \<times> bool \<times> bool option) wprog" where
  "GetBooleanPropertyValue env args_ok name =
     bnd (fetch_property env args_ok name) (\<lambda>(hr, exc, initialised, held).
       let value = (if FAILED hr \<or> exc then None
                    else Some (get_Value_bool (com env) name = 0xFFFF))
       in andThen (release_property initialised held) (ret (hr, exc, value)))"

text \<open>\<open>wcsncpy(dst, src, n)\<close>: up to the terminator, the rest filled with zeros.\<close>

definition wcsncpy :: "wchar list \<Rightarrow> nat \<Rightarrow> wchar list" where
  "wcsncpy src n =
     (let t = takeWhile (\<lambda>c. c \<noteq> 0) (take n src) in t @ replicate (n - length t) 0)"

definition wcslen :: "wchar list \<Rightarrow> nat" where
  "wcslen s = length (takeWhile (\<lambda>c. c \<noteq> 0) s)"

definition GetStringPropertyValue ::
  "env \<Rightarrow> bool \<Rightarrow> string \<Rightarrow> (HRESULT \<times> bool \<times> wchar list option) wprog" where
  "GetStringPropertyValue env args_ok name =
     bnd (fetch_property env args_ok name) (\<lambda>(hr, exc, initialised, held).
       if FAILED hr \<or> exc
       then andThen (release_property initialised held) (ret (hr, exc, None))
       else bnd (gets (\<lambda>w. nothrow_null env (w_evs w))) (\<lambda>null.
              let bstr = get_Value_bstr (com env) name;
                  dwLength = length bstr
              in andThen (release_property initialised held)
                   (if null then ret (E_OUTOFMEMORY, exc, None)
                    else ret (hr, exc, Some (wcsncpy bstr dwLength @ [0])))))"

section \<open>Initialize\<close>

definition new_config :: config where
  "new_config = \<lparr> m_bIsEnabled = False, m_pszPath = None, m_bResponseBodyBlock = False \<rparr>"

text \<open>The reads between the section and the \<open>Failure\<close> label; an exception object goes to the caller.\<close>

definition read_section :: "env \<Rightarrow> config \<Rightarrow> (HRESULT \<times> bool \<times> config) wprog" where
  "read_section env c0 =
     bnd (GetBooleanPropertyValue env True ''enabled'') (\<lambda>(hr, exc, enabled).
       let c1 = (case enabled of Some b \<Rightarrow> c0\<lparr>m_bIsEnabled := b\<rparr> | None \<Rightarrow> c0)
       in if FAILED hr then ret (hr, False, c1)
          else if exc then ret (hr, True, c1)
          else if \<not> m_bIsEnabled c1 then ret (hr, False, c1)
          else
     bnd (GetBooleanPropertyValue env True ''responseBodyBlock'') (\<lambda>(hr, exc, block).
       let c2 = (case block of Some b \<Rightarrow> c1\<lparr>m_bResponseBodyBlock := b\<rparr> | None \<Rightarrow> c1)
       in if FAILED hr then ret (hr, False, c2)
          else if exc then ret (hr, True, c2)
          else
     bnd (GetStringPropertyValue env True ''configFile'') (\<lambda>(hr, exc, path).
       let c3 = c2\<lparr>m_pszPath := path\<rparr>
       in if FAILED hr then ret (hr, False, c3)
          else if exc then ret (hr, True, c3)
          else ret (hr, False, c3))))"

definition Initialize :: "env \<Rightarrow> config \<Rightarrow> (HRESULT \<times> bool \<times> config) wprog" where
  "Initialize env c0 =
     andThen (emit (ComAcquire ComBstr)) (
     bnd (if \<not> has_admin_manager (com env) then ret (E_UNEXPECTED, False, c0, False)
          else let (hr, held) = GetAdminSection (com env)
               in andThen (whenever held (emit (ComAcquire ComSection)))
                    (if FAILED hr then ret (hr, False, c0, held)
                     else if \<not> held then ret (E_UNEXPECTED, False, c0, held)
                     else bnd (read_section env c0) (\<lambda>(hr, exc, c). ret (hr, exc, c, held))))
       (\<lambda>(hr, exc, c, held).
          andThen (whenever held (emit (ComRelease ComSection))) (
          andThen (emit (ComRelease ComBstr)) (ret (hr, exc, c)))))"

section \<open>GetConfig\<close>

text \<open>
  \<open>SetModuleContext\<close> on the metadata container fails with ERROR_ALREADY_ASSIGNED when another
  thread stored its configuration first; the container then answers with that one.
\<close>

definition GetConfig :: "env \<Rightarrow> (HRESULT \<times> config option) wprog" where
  "GetConfig env =
     (if \<not> has_metadata_container (com env) then ret (E_UNEXPECTED, None)
      else bnd (gets w_config) (\<lambda>stored.
        case stored of
          Some c \<Rightarrow> ret (S_OK, Some c)
        | None \<Rightarrow>
            bnd (gets (\<lambda>w. nothrow_null env (w_evs w))) (\<lambda>null.
              if null then ret (E_OUTOFMEMORY, None)
              else andThen (emit ConfigNew) (
                bnd (Initialize env new_config) (\<lambda>(hr, exc, c).
                  if FAILED hr \<or> exc
                  then andThen (whenever exc (emit (ComRelease ComException))) (
                       andThen (emit ConfigDelete) (ret (E_UNEXPECTED, None)))
                  else let hr2 = meta_SetModuleContext (com env)
                       in if FAILED hr2
                          then andThen (emit ConfigDelete)
                                 (if hr2 = HRESULT_FROM_WIN32 ERROR_ALREADY_ASSIGNED
                                  then andThen (modify (\<lambda>w. w\<lparr>w_config := concurrent_config (com env)\<rparr>))
                                         (ret (S_OK, concurrent_config (com env)))
                                  else ret (hr2, None))
                          else andThen (modify (\<lambda>w. w\<lparr>w_config := Some c\<rparr>))
                                 (ret (hr2, Some c)))))))"

section \<open>The COM contract and what the readers do under it\<close>

text \<open>
  A failed COM call returns no object; a property that exists is returned. Both are the
  documented behaviour of the administration interfaces for a section of the schema.
\<close>

definition com_contract :: "com_env \<Rightarrow> bool" where
  "com_contract c \<longleftrightarrow>
     (\<forall>name. \<not> FAILED (fst (GetPropertyByName c name)) \<and> snd (GetPropertyByName c name)) \<and>
     (\<forall>name. FAILED (fst (get_Exception c name)) \<longrightarrow> \<not> snd (get_Exception c name)) \<and>
     (FAILED (fst (GetAdminSection c)) \<longrightarrow> \<not> snd (GetAdminSection c))"

definition held :: "com_object \<Rightarrow> event list \<Rightarrow> int" where
  "held x evs = int (count_list evs (ComAcquire x)) - int (count_list evs (ComRelease x))"

lemma held_append [simp]: "held x (xs @ ys) = held x xs + held x ys"
  by (simp add: held_def)

lemma held_Nil [simp]: "held x [] = 0"
  by (simp add: held_def)

lemma held_Cons [simp]:
  "held x (e # es) = (if e = ComAcquire x then 1 else 0) - (if e = ComRelease x then 1 else 0)
     + held x es"
  by (simp add: held_def)

definition only_com :: "event list \<Rightarrow> bool" where
  "only_com es \<longleftrightarrow> (\<forall>e \<in> set es. \<exists>x. e = ComAcquire x \<or> e = ComRelease x)"

lemma only_com_append [simp]: "only_com (xs @ ys) \<longleftrightarrow> only_com xs \<and> only_com ys"
  by (auto simp: only_com_def)

lemma GetBooleanPropertyValue_run:
  assumes "com_contract (com env)"
  obtains hr exc v es where
    "GetBooleanPropertyValue env True name w = (Ok (hr, exc, v), w\<lparr>w_evs := w_evs w @ es\<rparr>)"
    and "only_com es"
    and "\<forall>x. held x es = (if exc \<and> x = ComException then 1 else 0)"
    and "FAILED hr \<longrightarrow> \<not> exc"
    and "v = (if FAILED hr \<or> exc then None else Some (get_Value_bool (com env) name = 0xFFFF))"
proof -
  obtain h0 b0 where p: "GetPropertyByName (com env) name = (h0, b0)" by fastforce
  obtain h2 e2 where x: "get_Exception (com env) name = (h2, e2)" by fastforce
  from assms p x have c: "\<not> FAILED h0" "b0" "FAILED h2 \<longrightarrow> \<not> e2"
    unfolding com_contract_def by (metis fst_conv snd_conv)+
  show thesis
    by (rule that[where hr = "if FAILED (get_Value_hr (com env) name)
            then get_Value_hr (com env) name else h2"
          and exc = "\<not> FAILED (get_Value_hr (com env) name) \<and> e2"
          and es = "ComAcquire ComProperty #
            (if \<not> FAILED (get_Value_hr (com env) name) \<and> e2 then [ComAcquire ComException] else [])
            @ [ComRelease ComProperty]"])
       (use c in \<open>auto simp: GetBooleanPropertyValue_def fetch_property_def release_property_def
          VariantClear_def only_com_def p x prog_simps Let_def\<close>)
qed

lemma GetStringPropertyValue_run:
  assumes "com_contract (com env)"
  obtains hr exc v es where
    "GetStringPropertyValue env True name w = (Ok (hr, exc, v), w\<lparr>w_evs := w_evs w @ es\<rparr>)"
    and "only_com es"
    and "\<forall>x. held x es = (if exc \<and> x = ComException then 1 else 0)"
    and "FAILED hr \<longrightarrow> \<not> exc"
    and "v = (if FAILED hr \<or> exc then None
              else Some (wcsncpy (get_Value_bstr (com env) name)
                           (length (get_Value_bstr (com env) name)) @ [0]))"
proof -
  obtain h0 b0 where p: "GetPropertyByName (com env) name = (h0, b0)" by fastforce
  obtain h2 e2 where x: "get_Exception (com env) name = (h2, e2)" by fastforce
  from assms p x have c: "\<not> FAILED h0" "b0" "FAILED h2 \<longrightarrow> \<not> e2"
    unfolding com_contract_def by (metis fst_conv snd_conv)+
  let ?gv = "get_Value_hr (com env) name"
  let ?e = "\<not> FAILED ?gv \<and> e2"
  let ?es = "ComAcquire ComProperty # (if ?e then [ComAcquire ComException] else [])"
  let ?nn = "nothrow_null env (w_evs w @ ?es)"
  show thesis
    by (rule that[where hr = "if FAILED ?gv then ?gv else if FAILED h2 \<or> e2 then h2
            else if ?nn then E_OUTOFMEMORY else h2"
          and exc = ?e and es = "?es @ [ComRelease ComProperty]"])
       (use c in \<open>auto simp: GetStringPropertyValue_def fetch_property_def release_property_def
          VariantClear_def only_com_def p x prog_simps Let_def\<close>)
qed

text \<open>The values a complete read stores.\<close>

definition schema_config :: "com_env \<Rightarrow> config" where
  "schema_config c =
     (if get_Value_bool c ''enabled'' \<noteq> 0xFFFF then new_config
      else \<lparr> m_bIsEnabled = True,
             m_pszPath = Some (wcsncpy (get_Value_bstr c ''configFile'')
               (length (get_Value_bstr c ''configFile'')) @ [0]),
             m_bResponseBodyBlock = (get_Value_bool c ''responseBodyBlock'' = 0xFFFF) \<rparr>)"

lemma read_section_run:
  assumes "com_contract (com env)"
  shows "\<exists>hr exc c es. read_section env new_config w = (Ok (hr, exc, c), w\<lparr>w_evs := w_evs w @ es\<rparr>) \<and>
    only_com es \<and> (\<forall>x. held x es = (if exc \<and> x = ComException then 1 else 0)) \<and>
    (FAILED hr \<longrightarrow> \<not> exc) \<and> (\<not> FAILED hr \<and> \<not> exc \<longrightarrow> c = schema_config (com env))"
proof -
  obtain h1 x1 v1 e1 where r1:
    "GetBooleanPropertyValue env True ''enabled'' w = (Ok (h1, x1, v1), w\<lparr>w_evs := w_evs w @ e1\<rparr>)"
    "only_com e1" "\<forall>x. held x e1 = (if x1 \<and> x = ComException then 1 else 0)" "FAILED h1 \<longrightarrow> \<not> x1"
    "v1 = (if FAILED h1 \<or> x1 then None else Some (get_Value_bool (com env) ''enabled'' = 0xFFFF))"
    by (rule GetBooleanPropertyValue_run[OF assms])
  show ?thesis
  proof (cases "FAILED h1 \<or> x1 \<or> get_Value_bool (com env) ''enabled'' \<noteq> 0xFFFF")
    case True
    with r1 have "read_section env new_config w = (Ok (h1, x1, new_config), w\<lparr>w_evs := w_evs w @ e1\<rparr>)"
      by (auto simp: read_section_def prog_simps Let_def new_config_def)
    with True r1 show ?thesis by (auto simp: schema_config_def)
  next
    case on: False
    let ?w1 = "w\<lparr>w_evs := w_evs w @ e1\<rparr>"
    obtain h2 x2 v2 e2 where r2:
      "GetBooleanPropertyValue env True ''responseBodyBlock'' ?w1
        = (Ok (h2, x2, v2), ?w1\<lparr>w_evs := w_evs ?w1 @ e2\<rparr>)"
      "only_com e2" "\<forall>x. held x e2 = (if x2 \<and> x = ComException then 1 else 0)" "FAILED h2 \<longrightarrow> \<not> x2"
      "v2 = (if FAILED h2 \<or> x2 then None
             else Some (get_Value_bool (com env) ''responseBodyBlock'' = 0xFFFF))"
      by (rule GetBooleanPropertyValue_run[OF assms])
    let ?w2 = "w\<lparr>w_evs := w_evs w @ e1 @ e2\<rparr>"
    obtain h3 x3 v3 e3 where r3:
      "GetStringPropertyValue env True ''configFile'' ?w2
        = (Ok (h3, x3, v3), ?w2\<lparr>w_evs := w_evs ?w2 @ e3\<rparr>)"
      "only_com e3" "\<forall>x. held x e3 = (if x3 \<and> x = ComException then 1 else 0)" "FAILED h3 \<longrightarrow> \<not> x3"
      "v3 = (if FAILED h3 \<or> x3 then None
             else Some (wcsncpy (get_Value_bstr (com env) ''configFile'')
               (length (get_Value_bstr (com env) ''configFile'')) @ [0]))"
      by (rule GetStringPropertyValue_run[OF assms])
    show ?thesis
    proof (cases "FAILED h2 \<or> x2")
      case True
      with on r1(1,5) r2(1,4,5) have "read_section env new_config w
          = (Ok (h2, x2, new_config\<lparr>m_bIsEnabled := True\<rparr>), w\<lparr>w_evs := w_evs w @ e1 @ e2\<rparr>)"
        by (auto simp: read_section_def prog_simps Let_def)
      moreover have "\<forall>x. held x (e1 @ e2) = (if x2 \<and> x = ComException then 1 else 0)"
        using on r1(3) r2(3) by simp
      moreover have "only_com (e1 @ e2)" using r1(2) r2(2) by simp
      ultimately show ?thesis using True r2(4)
        by (intro exI[of _ h2] exI[of _ x2] exI[of _ "new_config\<lparr>m_bIsEnabled := True\<rparr>"]
              exI[of _ "e1 @ e2"]) auto
    next
      case False
      let ?c = "\<lparr> m_bIsEnabled = True, m_pszPath = v3,
        m_bResponseBodyBlock = (get_Value_bool (com env) ''responseBodyBlock'' = 0xFFFF) \<rparr>"
      from False on r1(1,5) r2(1,5) r3(1,4) have "read_section env new_config w
          = (Ok (h3, x3, ?c), w\<lparr>w_evs := w_evs w @ e1 @ e2 @ e3\<rparr>)"
        by (auto simp: read_section_def prog_simps Let_def new_config_def)
      moreover have "\<forall>x. held x (e1 @ e2 @ e3) = (if x3 \<and> x = ComException then 1 else 0)"
        using on False r1(3) r2(3) r3(3) by simp
      moreover have "only_com (e1 @ e2 @ e3)" using r1(2) r2(2) r3(2) by simp
      moreover have "\<not> FAILED h3 \<and> \<not> x3 \<longrightarrow> ?c = schema_config (com env)"
        using on r3(5) by (simp add: schema_config_def)
      ultimately show ?thesis using r3(4)
        by (intro exI[of _ h3] exI[of _ x3] exI[of _ ?c] exI[of _ "e1 @ e2 @ e3"]) simp
    qed
  qed
qed

lemma Initialize_run:
  assumes "com_contract (com env)"
  shows "\<exists>hr exc c es. Initialize env new_config w = (Ok (hr, exc, c), w\<lparr>w_evs := w_evs w @ es\<rparr>) \<and>
    only_com es \<and> (\<forall>x. held x es = (if exc \<and> x = ComException then 1 else 0)) \<and>
    (FAILED hr \<longrightarrow> \<not> exc) \<and> (\<not> FAILED hr \<and> \<not> exc \<longrightarrow> c = schema_config (com env))"
proof -
  obtain hs bs where s: "GetAdminSection (com env) = (hs, bs)" by fastforce
  with assms have contract: "FAILED hs \<longrightarrow> \<not> bs" by (simp add: com_contract_def)
  let ?w = "w\<lparr>w_evs := w_evs w @ [ComAcquire ComBstr, ComAcquire ComSection]\<rparr>"
  obtain hr exc c es where r: "read_section env new_config ?w = (Ok (hr, exc, c), ?w\<lparr>w_evs := w_evs ?w @ es\<rparr>)"
    "only_com es" "\<forall>x. held x es = (if exc \<and> x = ComException then 1 else 0)"
    "FAILED hr \<longrightarrow> \<not> exc" "\<not> FAILED hr \<and> \<not> exc \<longrightarrow> c = schema_config (com env)"
    using read_section_run[OF assms, of ?w] by blast
  show ?thesis
  proof (cases "has_admin_manager (com env) \<and> \<not> FAILED hs \<and> bs")
    case True
    let ?es = "[ComAcquire ComBstr, ComAcquire ComSection] @ es
        @ [ComRelease ComSection, ComRelease ComBstr]"
    from True r(1) s have "Initialize env new_config w
        = (Ok (hr, exc, c), w\<lparr>w_evs := w_evs w @ ?es\<rparr>)"
      by (simp add: Initialize_def prog_simps)
    moreover from r have "only_com ?es" "\<forall>x. held x ?es = (if exc \<and> x = ComException then 1 else 0)"
      by (auto simp: only_com_def)
    ultimately show ?thesis using r(4,5)
      by (intro exI[of _ hr] exI[of _ exc] exI[of _ c] exI[of _ ?es]) simp
  next
    case False
    let ?hr = "if has_admin_manager (com env) \<and> FAILED hs then hs else E_UNEXPECTED"
    let ?es = "[ComAcquire ComBstr, ComRelease ComBstr]"
    from False contract s have "Initialize env new_config w
        = (Ok (?hr, False, new_config), w\<lparr>w_evs := w_evs w @ ?es\<rparr>)"
      by (auto simp: Initialize_def prog_simps)
    moreover have "only_com ?es" "\<forall>x. held x ?es = 0" "FAILED ?hr"
      by (auto simp: only_com_def)
    ultimately show ?thesis
      by (intro exI[of _ ?hr] exI[of _ False] exI[of _ new_config] exI[of _ ?es]) simp
  qed
qed

definition config_evs :: "event list \<Rightarrow> bool" where
  "config_evs es \<longleftrightarrow> (\<forall>e \<in> set es. e = ConfigNew \<or> e = ConfigDelete \<or>
     (\<exists>x. e = ComAcquire x \<or> e = ComRelease x))"

lemma GetConfig_run:
  assumes "com_contract (com env)"
  shows "\<exists>hr c es. fst (GetConfig env w) = Ok (hr, c) \<and>
    w_evs (snd (GetConfig env w)) = w_evs w @ es \<and> config_evs es \<and> (\<forall>x. held x es = 0) \<and>
    snd (GetConfig env w) = w\<lparr>w_evs := w_evs w @ es, w_config := w_config (snd (GetConfig env w))\<rparr> \<and>
    (\<not> FAILED hr \<longrightarrow> w_config (snd (GetConfig env w)) = c) \<and>
    (\<not> FAILED hr \<longrightarrow> w_config w = None \<longrightarrow>
       c = Some (schema_config (com env)) \<or>
       meta_SetModuleContext (com env) = HRESULT_FROM_WIN32 ERROR_ALREADY_ASSIGNED \<and>
       c = concurrent_config (com env)) \<and>
    (w_config w \<noteq> None \<longrightarrow> FAILED hr \<or> c = w_config w)"
proof (cases "\<not> has_metadata_container (com env) \<or> w_config w \<noteq> None
    \<or> nothrow_null env (w_evs w)")
  case True
  let ?r = "if \<not> has_metadata_container (com env) then (E_UNEXPECTED, None)
    else case w_config w of Some c \<Rightarrow> (S_OK, Some c) | None \<Rightarrow> (E_OUTOFMEMORY, None)"
  from True have "GetConfig env w = (Ok ?r, w)"
    by (cases "w_config w") (auto simp: GetConfig_def prog_simps)
  then show ?thesis
    by (cases "w_config w") (auto simp: config_evs_def intro!: exI[of _ "[]"])
next
  case False
  let ?w = "w\<lparr>w_evs := w_evs w @ [ConfigNew]\<rparr>"
  obtain hr exc c es where r: "Initialize env new_config ?w = (Ok (hr, exc, c), ?w\<lparr>w_evs := w_evs ?w @ es\<rparr>)"
    "only_com es" "\<forall>x. held x es = (if exc \<and> x = ComException then 1 else 0)"
    "FAILED hr \<longrightarrow> \<not> exc" "\<not> FAILED hr \<and> \<not> exc \<longrightarrow> c = schema_config (com env)"
    using Initialize_run[OF assms, of ?w] by blast
  from r(2) have ev: "config_evs es" by (auto simp: only_com_def config_evs_def)
  show ?thesis
  proof (cases "FAILED hr \<or> exc")
    case True
    let ?es = "ConfigNew # es @ (if exc then [ComRelease ComException] else []) @ [ConfigDelete]"
    from False True r(1) have "GetConfig env w = (Ok (E_UNEXPECTED, None), w\<lparr>w_evs := w_evs w @ ?es\<rparr>)"
      by (auto simp: GetConfig_def prog_simps)
    moreover from ev r(3) have "config_evs ?es" "\<forall>x. held x ?es = 0"
      by (auto simp: config_evs_def)
    ultimately show ?thesis using False by (auto intro!: exI[of _ ?es])
  next
    case ok: False
    let ?fail = "FAILED (meta_SetModuleContext (com env))"
    let ?taken = "meta_SetModuleContext (com env) = HRESULT_FROM_WIN32 ERROR_ALREADY_ASSIGNED"
    let ?es = "ConfigNew # es @ (if ?fail then [ConfigDelete] else [])"
    let ?c = "if ?fail then (if ?taken then concurrent_config (com env) else None) else Some c"
    let ?hr = "if ?taken then S_OK else meta_SetModuleContext (com env)"
    from False ok r(1) have "GetConfig env w = (Ok (?hr, ?c), w\<lparr>w_evs := w_evs w @ ?es,
        w_config := (if ?fail \<and> \<not> ?taken then w_config w else ?c)\<rparr>)"
      by (auto simp: GetConfig_def prog_simps)
    moreover from ev r(3) ok have "config_evs ?es" "\<forall>x. held x ?es = 0"
      by (auto simp: config_evs_def)
    ultimately show ?thesis using False ok r(5) by (auto intro!: exI[of _ ?es])
  qed
qed

definition config_of :: "env \<Rightarrow> world \<Rightarrow> config option \<times> world" where
  "config_of env w = (case result_of (GetConfig env) w of (x, w') \<Rightarrow> (Option.bind x snd, w'))"

text \<open>Whatever COM answers, a stored configuration stays and is what later calls return.\<close>

lemma GetConfig_stored:
  "w_config w = Some c \<Longrightarrow> GetConfig env w =
     (Ok (if has_metadata_container (com env) then (S_OK, Some c) else (E_UNEXPECTED, None)), w)"
  by (simp add: GetConfig_def prog_simps)

lemma VariantClear_world: "VariantClear b w = (r, w') \<Longrightarrow> w' = w"
  by (auto simp: VariantClear_def prog_simps split: if_splits)

section \<open>Properties\<close>



text \<open>C39: A successful read of a path seen for the first time yields the values of the section
  (a disabled module has no rules path and no response blocking), or the configuration a
  concurrent request stored first; either way it is what IIS keeps for the path from then on.\<close>

theorem config_read_result:
  assumes "com_contract (com env)" and "GetConfig env w = (Ok (hr, c), w')"
    and "\<not> FAILED hr" and "w_config w = None"
  shows "(c = Some (schema_config (com env)) \<or> c = concurrent_config (com env)) \<and> w_config w' = c"
  using GetConfig_run[OF assms(1), of w] assms(2-4) by auto

theorem config_read_result_witness:
  "\<exists>c w'. GetConfig quiet_env start_world = (Ok (S_OK, c), w') \<and>
     (c = Some (schema_config quiet_com) \<or> c = None) \<and> w_config w' = c"
proof -
  have con: "com_contract (com quiet_env)"
    by (simp add: com_contract_def quiet_com_def)
  have "\<exists>c w'. GetConfig quiet_env start_world = (Ok (S_OK, c), w')"
    by (simp add: GetConfig_def Initialize_def read_section_def GetBooleanPropertyValue_def
        GetStringPropertyValue_def fetch_property_def release_property_def VariantClear_def
        quiet_com_def new_config_def emit_def prog_defs Let_def)
  then obtain c w' where run: "GetConfig quiet_env start_world = (Ok (S_OK, c), w')" by blast
  with config_read_result[OF con run] show ?thesis
    by (auto simp: quiet_com_def)
qed

text \<open>C40: A property the section does not have makes the boolean reader clear a VARIANT that was
  never initialised: whenever \<open>GetPropertyByName\<close> fails, the whole configuration read is
  undefined behaviour instead of an error code.\<close>

theorem missing_property_undefined:
  assumes "has_metadata_container (com env)" and "has_admin_manager (com env)"
    and "w_config w = None" and "\<not> nothrow_null env (w_evs w)"
    and "GetAdminSection (com env) = (S_OK, True)"
    and "FAILED (fst (GetPropertyByName (com env) ''enabled''))"
  shows "fst (GetConfig env w) = Undef"
proof -
  obtain hr b where p: "GetPropertyByName (com env) ''enabled'' = (hr, b)" by fastforce
  have "fst (read_section env new_config v) = Undef" for v
    using assms(6) p
    by (simp add: read_section_def GetBooleanPropertyValue_def fetch_property_def prog_simps
        release_property_def VariantClear_def bnd_def whenever_def)
  then have "\<exists>v'. read_section env new_config v = (Undef, v')" for v
    by (metis prod.collapse)
  then obtain v' where "read_section env new_config
      (w\<lparr>w_evs := w_evs w @ [ConfigNew, ComAcquire ComBstr, ComAcquire ComSection]\<rparr>) = (Undef, v')"
    by blast
  with assms show ?thesis
    by (simp add: GetConfig_def Initialize_def prog_simps)
qed

theorem missing_property_undefined_witness:
  "fst (GetConfig (quiet_env\<lparr>com := quiet_com\<lparr>GetPropertyByName := (\<lambda>_. (E_INVALIDARG, False))\<rparr>\<rparr>)
     start_world) = Undef"
  by (rule missing_property_undefined)
     (simp_all add: quiet_com_def)

text \<open>Once IIS keeps a configuration for the path, reading it again returns that one, does
  not touch COM and changes nothing.\<close>

theorem config_read_once:
  assumes "GetConfig env w = (Ok (hr, Some c), w')" and "\<not> FAILED hr" and "com_contract (com env)"
    and "w_config u = w_config w'" and "has_metadata_container (com env')"
  shows "GetConfig env' u = (Ok (S_OK, Some c), u)"
proof -
  from GetConfig_run[OF assms(3), of w] assms(1,2) have "w_config w' = Some c" by auto
  with assms(4,5) show ?thesis by (simp add: GetConfig_stored)
qed

theorem config_read_once_witness:
  "GetConfig (quiet_env\<lparr>com := quiet_com\<lparr>get_Value_bool := (\<lambda>_. 0)\<rparr>\<rparr>)
     (start_world\<lparr>w_config := Some new_config\<rparr>)
   = (Ok (S_OK, Some new_config), start_world\<lparr>w_config := Some new_config\<rparr>)"
  by (rule config_read_once [where env = quiet_env and w = "start_world\<lparr>w_config := Some new_config\<rparr>"
        and w' = "start_world\<lparr>w_config := Some new_config\<rparr>" and hr = S_OK])
     (simp_all add: GetConfig_stored com_contract_def quiet_com_def)

end
