(* ===== verification/Request_Context.thy ===== *)
theory Request_Context
  imports Module_Config
begin

text \<open>
  The stored context of a request (\<open>src/ModSecurityIIS.h\<close>): how it ends its transaction, how an
  intervention of the engine is applied to the response, when response bodies may be blocked;
  and the ownership invariant of transactions that every handler keeps.
\<close>

section \<open>Ending a request\<close>

text \<open>
  \<open>FinishRequest\<close> on a context: log, delete, forget the transaction, then release the rules.
  An exception of \<open>processLogging\<close> is swallowed; the \<open>delete\<close> behind it is then skipped.
\<close>

definition finish_ctx :: "env \<Rightarrow> request_ctx \<Rightarrow> request_ctx wprog" where
  "finish_ctx env r =
     (case m_pTx r of
        None \<Rightarrow> ret (r\<lparr>m_pRules := None\<rparr>)
      | Some t \<Rightarrow>
          andThen
            (try_catch (andThen (tx_call env t ProcessLogging) (tx_delete t))
               (\<lambda>_. WriteEventViewerLog
                  (Some ''ModSecurityIIS: exception while finalizing transaction'')
                  EVENTLOG_ERROR_TYPE))
            (ret (r\<lparr>m_pTx := None, m_pRules := None\<rparr>)))"

definition FinishRequest :: "env \<Rightarrow> unit wprog" where
  "FinishRequest env = bnd the_rsc (\<lambda>r. bnd (finish_ctx env r) (\<lambda>r'. set_rsc (\<lambda>_. r')))"

text \<open>
  \<open>CleanupStoredContext\<close> finishes the request and deletes the object, whose destructor
  finishes it once more. First for a context the container never took, then for the one IIS
  holds.
\<close>

definition cleanup_ctx :: "env \<Rightarrow> request_ctx \<Rightarrow> unit wprog" where
  "cleanup_ctx env r =
     bnd (finish_ctx env r) (\<lambda>r1. bnd (finish_ctx env r1) (\<lambda>_. emit CtxDelete))"

definition CleanupStoredContext :: "env \<Rightarrow> unit wprog" where
  "CleanupStoredContext env =
     bnd the_rsc (\<lambda>r. andThen (cleanup_ctx env r) (modify (\<lambda>w. w\<lparr>w_rsc := None\<rparr>)))"

section \<open>Applying an intervention\<close>

definition respond :: "env \<Rightarrow> int \<Rightarrow> string \<Rightarrow> int wprog" where
  \<comment> \<open>redirect or status line; returns the status reported to the engine\<close>
  "respond env status redirectUrl =
     (if redirectUrl \<noteq> ''''
      then andThen (resp_call env (RespRedirect redirectUrl))
             (if status \<ge> 301 \<and> status \<le> 308 \<and> status \<noteq> 302
              then andThen (resp_call env (RespSetStatus (word_of_int status) (StandardReason status)))
                     (ret status)
              else ret 302)
      else let status' = (if status \<le> 0 then 403 else status)
           in andThen (resp_call env (RespSetStatus (word_of_int status') (StandardReason status')))
                (ret status'))"

definition block_request :: "env \<Rightarrow> nat \<Rightarrow> intervention \<Rightarrow> bool wprog" where
  \<comment> \<open>the disruptive branch: rewrite the response, tell the engine, end the request\<close>
  "block_request env tx it =
     (let redirectUrl = (case it_url it of Some u \<Rightarrow> u | None \<Rightarrow> '''')
      in andThen (resp_call env RespClear) (
         bnd (respond env (it_status it) redirectUrl) (\<lambda>finalStatus.
         andThen (tx_call env tx (UpdateStatusCode finalStatus)) (
         andThen (emit RequestHandled) (
         andThen (FinishRequest env) (ret True))))))"

definition ApplyIntervention :: "env \<Rightarrow> bool \<Rightarrow> bool wprog" where
  "ApplyIntervention env canBlock =
     bnd the_rsc (\<lambda>rsc.
       case m_pTx rsc of
         None \<Rightarrow> ret False
       | Some tx \<Rightarrow>
           bnd (gets (\<lambda>w. tx_intervention env (calls_of tx (w_evs w)))) (\<lambda>pending.
           andThen (tx_call env tx Intervention)
             (case pending of
                None \<Rightarrow> ret False
              | Some it \<Rightarrow>
                  andThen (whenever (it_url it \<noteq> None) (heap_alloc env))
                    (if it_disruptive it = 0 then ret False
                     else if \<not> canBlock then ret False
                     else block_request env tx it))))"

definition responseBodyBlockingEnabled :: "env \<Rightarrow> bool wprog" where
  "responseBodyBlockingEnabled env =
     gets (\<lambda>w. case w_rsc w of
        None \<Rightarrow> False
      | Some rsc \<Rightarrow> (case m_pTx rsc of
          None \<Rightarrow> False
        | Some tx \<Rightarrow> (case m_pRules rsc of
            None \<Rightarrow> False
          | Some rules \<Rightarrow>
              m_ResponseBodyBlock rsc \<and>
              m_secResponseBodyAccess rules = TrueConfigBoolean \<and>
              getRuleEngineState env (calls_of tx (w_evs w)) = EnabledRuleEngine)))"

section \<open>Ownership of transactions\<close>

text \<open>
  A transaction identifier is the position of its creation in the trace, so a new one is
  fresh. \<open>abandoned\<close>: its final logging threw, so it was never deleted.
\<close>

definition abandoned :: "nat \<Rightarrow> event list \<Rightarrow> bool" where
  "abandoned t evs \<longleftrightarrow> TxThrew t ProcessLogging \<in> set evs"

fun tx_event :: "nat \<Rightarrow> event \<Rightarrow> bool" where
  "tx_event t (TxNew u) = (u = t)"
| "tx_event t (TxCall u c) = (u = t)"
| "tx_event t (TxThrew u c) = (u = t)"
| "tx_event t (TxDelete u) = (u = t)"
| "tx_event t _ = False"

definition ids_bounded :: "event list \<Rightarrow> bool" where
  "ids_bounded evs \<longleftrightarrow> (\<forall>t. (\<exists>e \<in> set evs. tx_event t e) \<longrightarrow> t < length evs)"

text \<open>
  The life of one transaction so far: while it is open no logging has run and it was neither
  deleted nor abandoned; afterwards logging was its last call and ran once, or it was
  deleted before any call. Each body phase ran at most once.
\<close>

definition tx_open :: "nat \<Rightarrow> event list \<Rightarrow> bool" where
  "tx_open t evs \<longleftrightarrow> live t evs \<and> \<not> abandoned t evs \<and> ProcessLogging \<notin> set (calls_of t evs)"

definition tx_closed :: "nat \<Rightarrow> event list \<Rightarrow> bool" where
  "tx_closed t evs \<longleftrightarrow> (TxDelete t \<in> set evs \<or> abandoned t evs) \<and>
     (calls_of t evs = [] \<or>
      (\<exists>cs. calls_of t evs = cs @ [ProcessLogging] \<and> ProcessLogging \<notin> set cs))"

definition phases_once :: "nat \<Rightarrow> event list \<Rightarrow> bool" where
  "phases_once t evs \<longleftrightarrow> count_list (calls_of t evs) ProcessRequestBody \<le> 1 \<and>
     count_list (calls_of t evs) ProcessResponseBody \<le> 1"

definition outstanding :: "event list \<Rightarrow> int" where
  "outstanding evs = int (count_list evs ReadPended) - int (count_list evs ReadClaimed)"

definition ctx_inv :: "world \<Rightarrow> bool" where
  "ctx_inv w \<longleftrightarrow> ids_bounded (w_evs w) \<and> (\<forall>t. phases_once t (w_evs w)) \<and>
     (\<forall>t. TxNew t \<in> set (w_evs w) \<longrightarrow>
        tx_closed t (w_evs w) \<or>
        tx_open t (w_evs w) \<and> (\<exists>r. w_rsc w = Some r \<and> m_pTx r = Some t)) \<and>
     (\<forall>r t. w_rsc w = Some r \<longrightarrow> m_pTx r = Some t \<longrightarrow>
        tx_open t (w_evs w) \<and> m_pRules r \<noteq> None \<and>
        (\<not> m_ResponseBodyEvaluated r \<longrightarrow> ProcessResponseBody \<notin> set (calls_of t (w_evs w))))"

definition quiet_reads :: "world \<Rightarrow> bool" where
  "quiet_reads w \<longleftrightarrow> outstanding (w_evs w) = 0 \<and>
     (\<forall>r. w_rsc w = Some r \<longrightarrow> m_BodyReadState r \<noteq> BRS_READ_PENDING)"

definition idle :: "world \<Rightarrow> bool" where
  "idle w \<longleftrightarrow> ctx_inv w \<and> quiet_reads w"

text \<open>The context holds transaction \<open>t\<close>; it does, and its request-body phase has not run.\<close>

definition holds :: "nat \<Rightarrow> world \<Rightarrow> bool" where
  "holds t w \<longleftrightarrow> idle w \<and> (\<exists>r. w_rsc w = Some r \<and> m_pTx r = Some t)"

definition body_due :: "nat \<Rightarrow> world \<Rightarrow> bool" where
  "body_due t w \<longleftrightarrow> holds t w \<and> ProcessRequestBody \<notin> set (calls_of t (w_evs w))"

text \<open>The context has given up its transaction.\<close>

definition released :: "world \<Rightarrow> bool" where
  "released w \<longleftrightarrow> idle w \<and> (\<exists>r. w_rsc w = Some r \<and> m_pTx r = None)"

text \<open>There is a context, with or without its transaction.\<close>

definition attached :: "world \<Rightarrow> bool" where
  "attached w \<longleftrightarrow> idle w \<and> w_rsc w \<noteq> None"

lemma holds_attached: "holds t w \<Longrightarrow> attached w"
  by (auto simp: holds_def attached_def)

lemma released_attached: "released w \<Longrightarrow> attached w"
  by (auto simp: released_def attached_def)

lemma attached_cases:
  assumes "attached w"
  obtains t where "holds t w" | "released w"
proof -
  from assms obtain r where "idle w" "w_rsc w = Some r" by (auto simp: attached_def)
  then show thesis using that by (cases "m_pTx r") (auto simp: holds_def released_def)
qed

lemma holds_idle: "holds t w \<Longrightarrow> idle w"
  by (simp add: holds_def)

lemma released_idle: "released w \<Longrightarrow> idle w"
  by (simp add: released_def)

lemma body_due_holds: "body_due t w \<Longrightarrow> holds t w"
  by (simp add: body_due_def)

section \<open>How the primitives act on the invariant\<close>

text \<open>Events that concern neither a transaction nor an outstanding read.\<close>

fun neutral :: "event \<Rightarrow> bool" where
  "neutral (TxNew t) = False"
| "neutral (TxCall t c) = False"
| "neutral (TxThrew t c) = False"
| "neutral (TxDelete t) = False"
| "neutral ReadPended = False"
| "neutral ReadClaimed = False"
| "neutral _ = True"

lemma calls_of_neutral [simp]: "neutral e \<Longrightarrow> calls_of t [e] = []"
  by (cases e) auto

lemma neutral_append:
  assumes "neutral e"
  shows "live t (evs @ [e]) = live t evs" and "abandoned t (evs @ [e]) = abandoned t evs"
    and "calls_of t (evs @ [e]) = calls_of t evs" and "outstanding (evs @ [e]) = outstanding evs"
    and "ids_bounded evs \<Longrightarrow> ids_bounded (evs @ [e])"
    and "TxNew t \<in> set (evs @ [e]) \<longleftrightarrow> TxNew t \<in> set evs"
    and "TxDelete t \<in> set (evs @ [e]) \<longleftrightarrow> TxDelete t \<in> set evs"
proof -
  have "\<not> tx_event u e" for u using assms by (cases e) auto
  then show "ids_bounded evs \<Longrightarrow> ids_bounded (evs @ [e])"
    by (auto simp: ids_bounded_def less_Suc_eq)
  show "live t (evs @ [e]) = live t evs" using assms by (cases e) (auto simp: live_def)
  show "abandoned t (evs @ [e]) = abandoned t evs"
    using assms by (cases e) (auto simp: abandoned_def)
  show "calls_of t (evs @ [e]) = calls_of t evs" using assms by (cases e) auto
  show "outstanding (evs @ [e]) = outstanding evs"
    using assms by (cases e) (auto simp: outstanding_def)
  show "TxNew t \<in> set (evs @ [e]) \<longleftrightarrow> TxNew t \<in> set evs" using assms by (cases e) auto
  show "TxDelete t \<in> set (evs @ [e]) \<longleftrightarrow> TxDelete t \<in> set evs" using assms by (cases e) auto
qed

lemma ctx_inv_neutral:
  "neutral e \<Longrightarrow> ctx_inv w \<Longrightarrow> ctx_inv (w\<lparr>w_evs := w_evs w @ [e]\<rparr>)"
  by (simp add: ctx_inv_def tx_open_def tx_closed_def phases_once_def neutral_append
        del: set_append calls_of_append calls_of.simps)

lemma idle_neutral: "neutral e \<Longrightarrow> idle w \<Longrightarrow> idle (w\<lparr>w_evs := w_evs w @ [e]\<rparr>)"
  by (simp add: idle_def quiet_reads_def ctx_inv_neutral neutral_append
        del: set_append calls_of_append calls_of.simps)

text \<open>A predicate that neutral events preserve.\<close>

definition neutral_stable :: "(world \<Rightarrow> bool) \<Rightarrow> bool" where
  "neutral_stable I \<longleftrightarrow> (\<forall>e w. neutral e \<longrightarrow> I w \<longrightarrow> I (w\<lparr>w_evs := w_evs w @ [e]\<rparr>))"

lemma neutral_stable_inv [simp, intro]:
  "neutral_stable idle" "neutral_stable attached" "neutral_stable (holds t)" "neutral_stable (body_due t)"
  "neutral_stable released"
  by (simp_all add: neutral_stable_def holds_def attached_def body_due_def released_def idle_neutral neutral_append
        del: set_append calls_of_append calls_of.simps)

lemma keeps_emit [triple_intros]:
  "neutral_stable I \<Longrightarrow> neutral e \<Longrightarrow> keeps I (emit e)"
  by (simp add: triple_def run_emit neutral_stable_def)

lemma keeps_resp_call [triple_intros]:
  "has_response env \<Longrightarrow> neutral_stable I \<Longrightarrow> neutral e \<Longrightarrow> keeps I (resp_call env e)"
  by (simp add: resp_call_def keeps_emit)

lemma keeps_WriteEventViewerLog [triple_intros]:
  "neutral_stable I \<Longrightarrow> keeps I (WriteEventViewerLog m c)"
  unfolding WriteEventViewerLog_def by (intro triple_intros) auto

lemma keeps_ReportException [triple_intros]: "neutral_stable I \<Longrightarrow> keeps I (ReportException m c)"
  unfolding ReportException_def Let_def by (rule keeps_WriteEventViewerLog)

lemma keeps_heap_alloc [triple_intros]: "keeps I (heap_alloc env)"
  by (simp add: triple_def heap_alloc_def prog_defs)

text \<open>A call that is neither the final logging nor one of the body phases.\<close>

definition plain_call :: "tx_call \<Rightarrow> bool" where
  "plain_call c \<longleftrightarrow> c \<noteq> ProcessLogging \<and> c \<noteq> ProcessRequestBody \<and> c \<noteq> ProcessResponseBody"

text \<open>What one more call on the open transaction \<open>t\<close> does to the trace predicates.\<close>

lemma call_append:
  assumes "es = [TxCall t c] \<or> es = [TxCall t c, TxThrew t c]"
  shows "live u (evs @ es) = live u evs"
    and "calls_of u (evs @ es) = calls_of u evs @ (if u = t then [c] else [])"
    and "outstanding (evs @ es) = outstanding evs"
    and "TxNew u \<in> set (evs @ es) \<longleftrightarrow> TxNew u \<in> set evs"
    and "TxDelete u \<in> set (evs @ es) \<longleftrightarrow> TxDelete u \<in> set evs"
    and "c \<noteq> ProcessLogging \<or> u \<noteq> t \<Longrightarrow> abandoned u (evs @ es) = abandoned u evs"
    and "ids_bounded evs \<Longrightarrow> t < length evs \<Longrightarrow> ids_bounded (evs @ es)"
  using assms
  by (auto simp: live_def abandoned_def outstanding_def ids_bounded_def less_Suc_eq)

lemma live_bounded: "ids_bounded evs \<Longrightarrow> live t evs \<Longrightarrow> t < length evs"
  by (force simp: ids_bounded_def live_def)

definition rsc_of :: "world \<Rightarrow> request_ctx" where
  "rsc_of w = (case w_rsc w of Some r \<Rightarrow> r | None \<Rightarrow> new_request_ctx)"

lemma holdsE:
  assumes "holds t w"
  obtains r where "w_rsc w = Some r" and "m_pTx r = Some t" and "tx_open t (w_evs w)"
    and "live t (w_evs w)" and "t < length (w_evs w)" and "m_pRules r \<noteq> None" and "idle w"
proof -
  from assms obtain r where r: "idle w" "w_rsc w = Some r" "m_pTx r = Some t"
    by (auto simp: holds_def)
  then have o: "tx_open t (w_evs w)" "m_pRules r \<noteq> None" "ids_bounded (w_evs w)"
    by (auto simp: idle_def ctx_inv_def)
  then have "live t (w_evs w)" by (simp add: tx_open_def)
  with r o show thesis by (intro that[of r]) (auto intro: live_bounded)
qed

lemma idle_call:
  assumes h: "holds t w" and es: "es = [TxCall t c] \<or> es = [TxCall t c, TxThrew t c]"
    and c: "c \<noteq> ProcessLogging"
    and req: "c = ProcessRequestBody \<Longrightarrow> ProcessRequestBody \<notin> set (calls_of t (w_evs w))"
    and resp: "c = ProcessResponseBody \<Longrightarrow> ProcessResponseBody \<notin> set (calls_of t (w_evs w))
      \<and> m_ResponseBodyEvaluated (rsc_of w)"
  shows "idle (w\<lparr>w_evs := w_evs w @ es\<rparr>)"
proof -
  from h obtain r where r: "w_rsc w = Some r" "m_pTx r = Some t" "tx_open t (w_evs w)"
    "t < length (w_evs w)" and i: "idle w"
    by (rule holdsE)
  note ap = call_append[OF es]
  have once: "phases_once u (w_evs w @ es)" for u
  proof -
    from i have "phases_once u (w_evs w)" by (simp add: idle_def ctx_inv_def)
    with req resp show ?thesis
      by (cases "u = t"; cases c) (simp_all add: phases_once_def ap(2) count_list_0_iff del: calls_of_append)
  qed
  have open_kept: "tx_open u (w_evs w @ es)" if "tx_open u (w_evs w)" for u
    using that c ap by (simp add: tx_open_def)
  have closed_kept: "tx_closed u (w_evs w @ es)" if "tx_closed u (w_evs w)" for u
  proof -
    from that r(3) have "u \<noteq> t" by (auto simp: tx_closed_def tx_open_def live_def)
    with that ap show ?thesis by (simp add: tx_closed_def)
  qed
  have unread: "ProcessResponseBody \<notin> set (calls_of t (w_evs w @ es))"
    if "\<not> m_ResponseBodyEvaluated r"
  proof -
    from that resp r(1) have "c \<noteq> ProcessResponseBody" by (auto simp: rsc_of_def)
    moreover from i r that have "ProcessResponseBody \<notin> set (calls_of t (w_evs w))"
      by (simp add: idle_def ctx_inv_def)
    ultimately show ?thesis by (simp add: ap(2) del: calls_of_append)
  qed
  have "ctx_inv (w\<lparr>w_evs := w_evs w @ es\<rparr>)"
    using i r ap(4,7) once open_kept closed_kept unread
    unfolding idle_def ctx_inv_def
    by (auto simp del: set_append calls_of_append)
  with i ap show ?thesis by (simp add: idle_def quiet_reads_def)
qed

lemma tx_call_cases:
  assumes "holds t w"
  obtains "tx_call env t c w = (Ok (), w\<lparr>w_evs := w_evs w @ [TxCall t c]\<rparr>)"
  | e where "tx_call env t c w = (Throw e, w\<lparr>w_evs := w_evs w @ [TxCall t c, TxThrew t c]\<rparr>)"
proof -
  from assms have l: "live t (w_evs w)" by (rule holdsE)
  show thesis
  proof (cases "tx_throws env (calls_of t (w_evs w)) c")
    case None
    with l that show thesis by (simp add: run_tx_call)
  next
    case (Some e)
    with l that show thesis by (simp add: run_tx_call_throw)
  qed
qed

lemma triple_tx_call:
  assumes "\<And>w es. P w \<Longrightarrow> es = [TxCall t c] \<or> es = [TxCall t c, TxThrew t c] \<Longrightarrow>
      I (w\<lparr>w_evs := w_evs w @ es\<rparr>)"
    and "\<And>w. P w \<Longrightarrow> holds t w"
  shows "triple P (tx_call env t c) (\<lambda>_. I) (\<lambda>_. I)"
proof -
  have "case tx_call env t c w of (Ok x, v) \<Rightarrow> I v | (Throw e, v) \<Rightarrow> I v | (Undef, v) \<Rightarrow> False"
    if "P w" for w
    by (rule tx_call_cases[OF assms(2)[OF that], of env c]) (use assms(1)[OF that] in auto)
  then show ?thesis unfolding triple_def by simp
qed

lemma holds_after_call:
  assumes "holds t w" and "es = [TxCall t c] \<or> es = [TxCall t c, TxThrew t c]"
    and "plain_call c"
  shows "holds t (w\<lparr>w_evs := w_evs w @ es\<rparr>)"
  using assms(1) idle_call[OF assms(1,2)] assms(3) by (simp add: holds_def plain_call_def)

lemma keeps_tx_call [triple_intros]:
  "plain_call c \<Longrightarrow> keeps (holds t) (tx_call env t c)"
  by (rule triple_tx_call) (blast intro: holds_after_call)+

lemma keeps_tx_call_due [triple_intros]:
  "plain_call c \<Longrightarrow> keeps (body_due t) (tx_call env t c)"
  by (rule triple_tx_call)
     (use call_append in \<open>auto simp: body_due_def holds_after_call plain_call_def\<close>)

lemma triple_request_body:
  "triple (body_due t) (tx_call env t ProcessRequestBody) (\<lambda>_. holds t) (\<lambda>_. holds t)"
  by (rule triple_tx_call) (auto simp: body_due_def holds_def intro!: idle_call)

lemma triple_response_body:
  "triple (\<lambda>w. holds t w \<and> ProcessResponseBody \<notin> set (calls_of t (w_evs w)) \<and>
       m_ResponseBodyEvaluated (rsc_of w))
     (tx_call env t ProcessResponseBody) (\<lambda>_. holds t) (\<lambda>_. holds t)"
  by (rule triple_tx_call) (auto simp: holds_def intro!: idle_call)

text \<open>Plain calls: everything but logging and the two body phases.\<close>

lemma plain_calls [simp]:
  "plain_call (ProcessConnection a b c d)" "plain_call (ProcessURI u m v)"
  "plain_call (AddRequestHeader n v)" "plain_call ProcessRequestHeaders"
  "plain_call (AppendRequestBody bs)" "plain_call (AddResponseHeader n v)"
  "plain_call (ProcessResponseHeaders s p)" "plain_call (AppendResponseBody bs)"
  "plain_call Intervention" "plain_call (UpdateStatusCode s)"
  by (simp_all add: plain_call_def)

text \<open>Updates of the context that leave its transaction, rules and read state alone.\<close>

definition ctx_frame :: "(request_ctx \<Rightarrow> request_ctx) \<Rightarrow> bool" where
  "ctx_frame f \<longleftrightarrow> (\<forall>r. m_pTx (f r) = m_pTx r \<and> m_pRules (f r) = m_pRules r \<and>
     (m_ResponseBodyEvaluated r \<longrightarrow> m_ResponseBodyEvaluated (f r)) \<and>
     (m_BodyReadState (f r) = BRS_READ_PENDING \<longrightarrow> m_BodyReadState r = BRS_READ_PENDING))"

lemma idle_ctx_frame:
  "idle w \<Longrightarrow> w_rsc w = Some r \<Longrightarrow> ctx_frame f \<Longrightarrow> idle (w\<lparr>w_rsc := Some (f r)\<rparr>)"
  unfolding idle_def ctx_inv_def quiet_reads_def ctx_frame_def by fastforce

lemma keeps_set_rsc_holds [triple_intros]: "ctx_frame f \<Longrightarrow> keeps (holds t) (set_rsc f)"
  by (auto simp: triple_def set_rsc_def prog_simps holds_def ctx_frame_def idle_ctx_frame)

lemma keeps_set_rsc_due [triple_intros]: "ctx_frame f \<Longrightarrow> keeps (body_due t) (set_rsc f)"
  by (auto simp: triple_def set_rsc_def prog_simps body_due_def holds_def ctx_frame_def idle_ctx_frame)

lemma keeps_the_rsc [triple_intros]: "keeps (holds t) the_rsc"
  by (auto simp: triple_def the_rsc_def prog_simps holds_def)

lemma keeps_the_rsc_due [triple_intros]: "keeps (body_due t) the_rsc"
  by (auto simp: triple_def the_rsc_def prog_simps body_due_def holds_def)

section \<open>Ending, creating and attaching a transaction\<close>

lemma finish_ctx_run:
  assumes "m_pTx r = Some t" and "live t (w_evs w)"
  shows "\<exists>es. finish_ctx env r w = (Ok (r\<lparr>m_pTx := None, m_pRules := None\<rparr>), w\<lparr>w_evs := w_evs w @ es\<rparr>)
    \<and> (es = [TxCall t ProcessLogging, TxDelete t] \<or>
       es = [TxCall t ProcessLogging, TxThrew t ProcessLogging] \<or>
       es = [TxCall t ProcessLogging, TxThrew t ProcessLogging,
         EventLogged ''ModSecurityIIS: exception while finalizing transaction'' EVENTLOG_ERROR_TYPE])
    \<and> (es = [TxCall t ProcessLogging, TxDelete t] \<longleftrightarrow>
         tx_throws env (calls_of t (w_evs w)) ProcessLogging = None)"
proof (cases "tx_throws env (calls_of t (w_evs w)) ProcessLogging")
  case None
  have "live t (w_evs w @ [TxCall t ProcessLogging])"
    using assms(2) by (simp add: live_append) (simp add: live_def)
  with None assms show ?thesis
    by (intro exI[of _ "[TxCall t ProcessLogging, TxDelete t]"])
       (simp add: finish_ctx_def prog_simps del: calls_of_append)
next
  case (Some e)
  let ?log = "EventLogged ''ModSecurityIIS: exception while finalizing transaction'' EVENTLOG_ERROR_TYPE"
  show ?thesis
  proof (cases "g_hEventLog w")
    case True
    with Some assms show ?thesis
      by (intro exI[of _ "[TxCall t ProcessLogging, TxThrew t ProcessLogging, ?log]"])
         (simp add: finish_ctx_def prog_simps WriteEventViewerLog_def)
  next
    case False
    with Some assms show ?thesis
      by (intro exI[of _ "[TxCall t ProcessLogging, TxThrew t ProcessLogging]"])
         (simp add: finish_ctx_def prog_simps WriteEventViewerLog_def)
  qed
qed

lemma idle_close:
  assumes h: "holds t w"
    and es: "es = [TxCall t ProcessLogging, TxDelete t] \<or>
             es = [TxCall t ProcessLogging, TxThrew t ProcessLogging]"
    and rsc: "rsc = None \<or> (\<exists>r. rsc = Some r \<and> m_pTx r = None \<and> m_BodyReadState r \<noteq> BRS_READ_PENDING)"
  shows "idle (w\<lparr>w_evs := w_evs w @ es, w_rsc := rsc\<rparr>)"
proof -
  from h obtain r where r: "w_rsc w = Some r" "m_pTx r = Some t" "tx_open t (w_evs w)"
    "t < length (w_evs w)" and i: "idle w"
    by (rule holdsE)
  have c: "calls_of u (w_evs w @ es) = calls_of u (w_evs w) @ (if u = t then [ProcessLogging] else [])" for u
    using es by auto
  have others: "u \<noteq> t \<Longrightarrow> tx_closed u (w_evs w @ es) = tx_closed u (w_evs w)" for u
    using es by (auto simp: tx_closed_def abandoned_def)
  have self: "tx_closed t (w_evs w @ es)"
    using es r(3) by (auto simp: tx_closed_def tx_open_def abandoned_def)
  have once: "phases_once u (w_evs w @ es)" for u
    using i c by (simp add: phases_once_def idle_def ctx_inv_def del: calls_of_append)
  have news: "TxNew u \<in> set (w_evs w @ es) \<longleftrightarrow> TxNew u \<in> set (w_evs w)" for u
    using es by auto
  have ids: "ids_bounded (w_evs w @ es)"
    using i r(4) es by (auto simp: idle_def ctx_inv_def ids_bounded_def less_Suc_eq)
  have out: "outstanding (w_evs w @ es) = outstanding (w_evs w)"
    using es by (auto simp: outstanding_def)
  have "TxNew u \<in> set (w_evs w) \<Longrightarrow> tx_closed u (w_evs w @ es)" for u
    using i r others self unfolding idle_def ctx_inv_def by (cases "u = t") auto
  with ids once news out i rsc show ?thesis
    unfolding idle_def ctx_inv_def quiet_reads_def
    by (auto simp del: set_append calls_of_append)
qed

definition log_failure :: event where
  "log_failure =
     EventLogged ''ModSecurityIIS: exception while finalizing transaction'' EVENTLOG_ERROR_TYPE"

text \<open>The three traces of a finished transaction.\<close>

definition finish_trace :: "nat \<Rightarrow> event list \<Rightarrow> bool" where
  "finish_trace t es \<longleftrightarrow> es = [TxCall t ProcessLogging, TxDelete t] \<or>
     es = [TxCall t ProcessLogging, TxThrew t ProcessLogging] \<or>
     es = [TxCall t ProcessLogging, TxThrew t ProcessLogging, log_failure]"

lemma finish_ctxE:
  assumes "m_pTx r = Some t" and "live t (w_evs w)"
  obtains es where "finish_ctx env r w = (Ok (r\<lparr>m_pTx := None, m_pRules := None\<rparr>), w\<lparr>w_evs := w_evs w @ es\<rparr>)"
    and "finish_trace t es"
    and "TxDelete t \<in> set es \<longleftrightarrow> tx_throws env (calls_of t (w_evs w)) ProcessLogging = None"
proof -
  let ?T = "tx_throws env (calls_of t (w_evs w)) ProcessLogging"
  obtain es where run: "finish_ctx env r w =
      (Ok (r\<lparr>m_pTx := None, m_pRules := None\<rparr>), w\<lparr>w_evs := w_evs w @ es\<rparr>)"
    and es: "es = [TxCall t ProcessLogging, TxDelete t] \<or>
       es = [TxCall t ProcessLogging, TxThrew t ProcessLogging] \<or>
       es = [TxCall t ProcessLogging, TxThrew t ProcessLogging,
         EventLogged ''ModSecurityIIS: exception while finalizing transaction'' EVENTLOG_ERROR_TYPE]"
    and del: "es = [TxCall t ProcessLogging, TxDelete t] \<longleftrightarrow> ?T = None"
    using finish_ctx_run[OF assms, of env] by (elim exE conjE) (rule that)
  have "finish_trace t es" using es by (simp add: finish_trace_def log_failure_def)
  moreover have "TxDelete t \<in> set es \<longleftrightarrow> ?T = None" unfolding del[symmetric] using es by auto
  ultimately show thesis by (rule that[OF run])
qed

lemma idle_finish:
  assumes h: "holds t w" and es: "finish_trace t es"
    and rsc: "rsc = None \<or> (\<exists>r. rsc = Some r \<and> m_pTx r = None \<and> m_BodyReadState r \<noteq> BRS_READ_PENDING)"
  shows "idle (w\<lparr>w_evs := w_evs w @ es, w_rsc := rsc\<rparr>)"
proof (cases "es = [TxCall t ProcessLogging, TxThrew t ProcessLogging, log_failure]")
  case True
  let ?v = "w\<lparr>w_evs := w_evs w @ [TxCall t ProcessLogging, TxThrew t ProcessLogging], w_rsc := rsc\<rparr>"
  have "idle ?v" by (rule idle_close[OF h _ rsc]) simp
  then have "idle (?v\<lparr>w_evs := w_evs ?v @ [log_failure]\<rparr>)"
    by (intro idle_neutral) (simp_all add: log_failure_def)
  moreover have "?v\<lparr>w_evs := w_evs ?v @ [log_failure]\<rparr> = w\<lparr>w_evs := w_evs w @ es, w_rsc := rsc\<rparr>"
    using True by simp
  ultimately show ?thesis by simp
next
  case False
  with es show ?thesis by (intro idle_close[OF h _ rsc]) (auto simp: finish_trace_def)
qed

lemma FinishRequest_holds [triple_intros]:
  "triple (holds t) (FinishRequest env) (\<lambda>_. released) (\<lambda>_. released)"
proof -
  have "\<exists>w'. FinishRequest env w = (Ok (), w') \<and> released w'" if h: "holds t w" for w
  proof -
    from h obtain r where r: "w_rsc w = Some r" "m_pTx r = Some t" "live t (w_evs w)" "idle w"
      by (rule holdsE)
    let ?r = "r\<lparr>m_pTx := None, m_pRules := None\<rparr>"
    obtain es where run: "finish_ctx env r w = (Ok ?r, w\<lparr>w_evs := w_evs w @ es\<rparr>)"
      and es: "finish_trace t es"
      using finish_ctxE[OF r(2,3)] by metis
    have "FinishRequest env w = (Ok (), w\<lparr>w_evs := w_evs w @ es, w_rsc := Some ?r\<rparr>)"
      using r run by (simp add: FinishRequest_def prog_simps)
    moreover have "released (w\<lparr>w_evs := w_evs w @ es, w_rsc := Some ?r\<rparr>)"
      using idle_finish[OF h es, of "Some ?r"] r(1,4)
      by (simp add: released_def idle_def quiet_reads_def)
    ultimately show ?thesis by blast
  qed
  then show ?thesis unfolding triple_def by fastforce
qed

lemma FinishRequest_released:
  "released w \<Longrightarrow> \<exists>r. w_rsc w = Some r \<and> m_pTx r = None \<and>
     FinishRequest env w = (Ok (), w\<lparr>w_rsc := Some (r\<lparr>m_pRules := None\<rparr>)\<rparr>)"
  by (auto simp: released_def FinishRequest_def finish_ctx_def prog_simps)

text \<open>A transaction that was created and closed again while the context stayed as it was.\<close>

lemma idle_transient:
  assumes i: "idle w" and t: "t = length (w_evs w)"
    and es: "\<forall>e \<in> set es. neutral e \<or> tx_event t e"
    and self: "tx_closed t es" and once: "phases_once t es"
  shows "idle (w\<lparr>w_evs := w_evs w @ es\<rparr>)"
proof -
  from i have ids: "ids_bounded (w_evs w)" by (simp add: idle_def ctx_inv_def)
  have fresh: "e \<in> set (w_evs w) \<Longrightarrow> \<not> tx_event t e" for e
    using ids t by (auto simp: ids_bounded_def)
  have noself: "calls_of t evs = []" if "\<forall>e \<in> set evs. \<not> tx_event t e" for evs
    using that by (induction evs) (auto split: event.splits)
  have nocall: "calls_of u es = []" if "u \<noteq> t" for u
    using es that
  proof (induction es)
    case (Cons e es)
    then show ?case by (cases e) auto
  qed simp
  have other: "e \<in> set es \<Longrightarrow> tx_event u e \<Longrightarrow> u = t" for e u
    using es by (cases e) auto
  have reads: "ReadPended \<notin> set es" "ReadClaimed \<notin> set es" using es by auto
  have mem: "e \<in> set (w_evs w @ es) \<longleftrightarrow> e \<in> set (w_evs w)" if "tx_event u e" "u \<noteq> t" for u e
    using other that by auto
  have same: "calls_of u (w_evs w @ es) = calls_of u (w_evs w)"
    "live u (w_evs w @ es) = live u (w_evs w)" "abandoned u (w_evs w @ es) = abandoned u (w_evs w)"
    "tx_closed u (w_evs w @ es) = tx_closed u (w_evs w)" if "u \<noteq> t" for u
    using nocall[OF that] mem[OF _ that]
    by (simp_all add: live_def abandoned_def tx_closed_def)
  have tcalls: "calls_of t (w_evs w @ es) = calls_of t es"
    using noself fresh by simp
  have "abandoned t (w_evs w @ es) = abandoned t es" "TxDelete t \<notin> set (w_evs w)"
    using fresh by (force simp: abandoned_def)+
  with self tcalls have closed: "tx_closed t (w_evs w @ es)" by (auto simp: tx_closed_def)
  have allonce: "phases_once u (w_evs w @ es)" for u
    using i once same(1) tcalls by (cases "u = t") (auto simp: phases_once_def idle_def ctx_inv_def)
  have bounded: "ids_bounded (w_evs w @ es)"
    unfolding ids_bounded_def
  proof (intro allI impI)
    fix u assume "\<exists>e \<in> set (w_evs w @ es). tx_event u e"
    then have "(\<exists>e \<in> set (w_evs w). tx_event u e) \<or> (u = t \<and> es \<noteq> [])"
      using other by fastforce
    then show "u < length (w_evs w @ es)"
      using ids t by (auto simp: ids_bounded_def)
  qed
  have out: "outstanding (w_evs w @ es) = outstanding (w_evs w)"
    using reads by (simp add: outstanding_def count_list_0_iff)
  have tnew: "TxNew u \<in> set (w_evs w @ es) \<Longrightarrow> u = t \<or> TxNew u \<in> set (w_evs w)" for u
    using other[of "TxNew u" u] by auto
  have owner: "u \<noteq> t" if "tx_open u (w_evs w)" for u
    using that fresh[of "TxNew u"] by (auto simp: tx_open_def live_def)
  have open_same: "tx_open u (w_evs w @ es) = tx_open u (w_evs w)" if "u \<noteq> t" for u
    using same(1-3)[OF that] by (simp add: tx_open_def)
  from i closed allonce bounded out tnew owner open_same same(1,4) show ?thesis
    unfolding idle_def ctx_inv_def quiet_reads_def
    by (simp del: set_append calls_of_append) metis
qed

text \<open>A new transaction whose context IIS has taken.\<close>

lemma body_due_attach:
  assumes i: "idle w" and t: "t = length (w_evs w)" and none: "w_rsc w = None"
    and r: "m_pTx r = Some t" "m_pRules r \<noteq> None" "m_BodyReadState r = BRS_IDLE"
  shows "body_due t (w\<lparr>w_evs := w_evs w @ [TxNew t, CtxNew], w_rsc := Some r\<rparr>)"
proof -
  let ?es = "[TxNew t, CtxNew]"
  from i have ids: "ids_bounded (w_evs w)" by (simp add: idle_def ctx_inv_def)
  have fresh: "e \<in> set (w_evs w) \<Longrightarrow> \<not> tx_event t e" for e
    using ids t by (auto simp: ids_bounded_def)
  have noself: "calls_of t evs = []" if "\<forall>e \<in> set evs. \<not> tx_event t e" for evs
    using that by (induction evs) (auto split: event.splits)
  have calls: "calls_of u (w_evs w @ ?es) = calls_of u (w_evs w)" for u by simp
  have nocalls: "calls_of t (w_evs w) = []" using noself fresh by blast
  have op: "tx_open t (w_evs w @ ?es)"
    using fresh[of "TxDelete t"] fresh[of "TxThrew t ProcessLogging"] nocalls
    by (auto simp: tx_open_def live_def abandoned_def)
  have closed: "tx_closed u (w_evs w @ ?es) = tx_closed u (w_evs w)" for u
    by (auto simp: tx_closed_def abandoned_def)
  have bounded: "ids_bounded (w_evs w @ ?es)"
    using ids t by (auto simp: ids_bounded_def less_Suc_eq)
  have old: "TxNew u \<in> set (w_evs w) \<Longrightarrow> tx_closed u (w_evs w)" for u
    using i none unfolding idle_def ctx_inv_def by auto
  have "phases_once u (w_evs w @ ?es)" for u
    using i calls by (simp add: phases_once_def idle_def ctx_inv_def)
  then have "ctx_inv (w\<lparr>w_evs := w_evs w @ ?es, w_rsc := Some r\<rparr>)"
    using bounded old closed op r nocalls calls
    unfolding ctx_inv_def by (auto simp del: calls_of_append)
  with i r nocalls show ?thesis
    by (simp add: body_due_def holds_def idle_def quiet_reads_def outstanding_def)
qed



section \<open>Interventions keep the invariant\<close>

lemma triple_the_rsc_tx:
  assumes "\<And>w. P w \<Longrightarrow> holds t w"
    and "\<And>r. m_pTx r = Some t \<Longrightarrow> triple (\<lambda>w. P w \<and> w_rsc w = Some r) (f r) Q E"
  shows "triple P (bnd the_rsc f) Q E"
  unfolding triple_def
proof (intro allI impI)
  fix w assume P: "P w"
  from assms(1)[OF P] obtain r where r: "w_rsc w = Some r" "m_pTx r = Some t" by (rule holdsE)
  then have "bnd the_rsc f w = f r w" by (simp add: prog_simps)
  with assms(2)[OF r(2)] P r(1)
  show "case bnd the_rsc f w of (Ok x, v) \<Rightarrow> Q x v | (Throw e, v) \<Rightarrow> E e v | (Undef, v) \<Rightarrow> False"
    by (simp add: triple_def)
qed

lemma keeps_respond [triple_intros]:
  "has_response env \<Longrightarrow> neutral_stable I \<Longrightarrow> keeps I (respond env s u)"
  unfolding respond_def by (intro triple_intros) auto

lemma triple_catch: "keeps (holds t) m \<Longrightarrow> triple (holds t) m (\<lambda>_. holds t) (\<lambda>_. attached)"
  by (erule triple_conseq) (auto intro: holds_attached)

lemma triple_block_request:
  assumes "has_response env"
  shows "triple (holds t) (block_request env t it) (\<lambda>r w. r \<and> released w) (\<lambda>_. attached)"
proof -
  have fin: "triple (holds t) (FinishRequest env) (\<lambda>_. released) (\<lambda>_. attached)"
    by (rule triple_conseq[OF FinishRequest_holds]) (auto intro: released_attached)
  show ?thesis
    unfolding block_request_def
    by (intro triple_Let triple_andThen[OF triple_catch] triple_bnd[OF triple_catch]
          triple_andThen[OF fin] triple_ret keeps_resp_call keeps_respond keeps_tx_call keeps_emit)
       (auto simp: assms)
qed

text \<open>
  Blocking gives up the transaction; not blocking keeps whatever \<open>I\<close> says of the state, where
  \<open>I\<close> is any invariant that the engine's query for an intervention keeps.
\<close>

lemma triple_ApplyIntervention:
  assumes resp: "has_response env" and h: "\<And>w. I w \<Longrightarrow> holds t w"
    and query: "keeps I (tx_call env t Intervention)"
  shows "triple I (ApplyIntervention env canBlock)
     (\<lambda>r w. if r then released w else I w) (\<lambda>_. attached)"
  unfolding ApplyIntervention_def
proof (rule triple_the_rsc_tx[OF h], assumption)
  fix r :: request_ctx assume tx: "m_pTx r = Some t"
  have query': "triple (\<lambda>w. (I w \<and> w_rsc w = Some r) \<and> x w) (tx_call env t Intervention)
      (\<lambda>_. I) (\<lambda>_. attached)" for x
    by (rule triple_conseq[OF query]) (auto intro: holds_attached h)
  have stay: "triple I (ret False) (\<lambda>r w. if r then released w else I w) (\<lambda>_. attached)"
    by (rule triple_ret) simp
  have block: "triple I (block_request env t it) (\<lambda>r w. if r then released w else I w) (\<lambda>_. attached)"
    for it
    by (rule triple_conseq[OF triple_block_request[OF resp]]) (auto intro: h)
  have alloc: "triple I (whenever c (heap_alloc env)) (\<lambda>_. I) (\<lambda>_. attached)" for c
    by (auto simp: triple_def heap_alloc_def prog_defs intro: holds_attached h)
  show "triple (\<lambda>w. I w \<and> w_rsc w = Some r)
     (case m_pTx r of
         None \<Rightarrow> ret False
       | Some tx \<Rightarrow>
           bnd (gets (\<lambda>w. tx_intervention env (calls_of tx (w_evs w)))) (\<lambda>pending.
           andThen (tx_call env tx Intervention)
             (case pending of
                None \<Rightarrow> ret False
              | Some it \<Rightarrow>
                  andThen (whenever (it_url it \<noteq> None) (heap_alloc env))
                    (if it_disruptive it = 0 then ret False
                     else if \<not> canBlock then ret False
                     else block_request env tx it))))
     (\<lambda>r w. if r then released w else I w) (\<lambda>_. attached)"
    unfolding tx option.case
    by (rule triple_gets_bnd, rule triple_andThen[OF query'])
       (intro triple_case_option triple_if stay block triple_andThen[OF alloc])
qed

lemma Intervention_holds [triple_intros]:
  "has_response env \<Longrightarrow> triple (holds t) (ApplyIntervention env canBlock)
     (\<lambda>r w. if r then released w else holds t w) (\<lambda>_. attached)"
  by (rule triple_ApplyIntervention) (auto intro: triple_intros)

lemma Intervention_due [triple_intros]:
  "has_response env \<Longrightarrow> triple (body_due t) (ApplyIntervention env canBlock)
     (\<lambda>r w. if r then released w else body_due t w) (\<lambda>_. attached)"
  by (rule triple_ApplyIntervention) (auto intro: triple_intros body_due_holds)

section \<open>What the client sees\<close>

text \<open>
  The response IIS will send, as the calls on the response object leave it: \<open>Clear\<close> resets it,
  \<open>Redirect\<close> answers 302 with a Location, \<open>SetStatus\<close> replaces the status line.
\<close>

record client_view =
  cv_status :: USHORT
  cv_location :: "string option"

fun client_step :: "event \<Rightarrow> client_view \<Rightarrow> client_view" where
  "client_step RespClear v = \<lparr> cv_status = 200, cv_location = None \<rparr>"
| "client_step (RespRedirect u) v = v\<lparr>cv_status := 302, cv_location := Some u\<rparr>"
| "client_step (RespSetStatus s reason) v = v\<lparr>cv_status := s\<rparr>"
| "client_step _ v = v"

definition client_sees :: "event list \<Rightarrow> client_view" where
  "client_sees evs = fold client_step evs \<lparr> cv_status = 200, cv_location = None \<rparr>"

lemma client_sees_snoc: "client_sees (evs @ [e]) = client_step e (client_sees evs)"
  by (simp add: client_sees_def)

lemma client_sees_Nil [simp]: "client_sees [] = \<lparr> cv_status = 200, cv_location = None \<rparr>"
  by (simp add: client_sees_def)

lemma client_sees_append: "client_sees (evs @ es) = fold client_step es (client_sees evs)"
  by (simp add: client_sees_def)

text \<open>The events of \<open>respond\<close> and the status it returns, by the engine's answer.\<close>

definition respond_events :: "int \<Rightarrow> string \<Rightarrow> event list" where
  "respond_events status url =
     (if url \<noteq> '''' then RespRedirect url #
        (if status \<ge> 301 \<and> status \<le> 308 \<and> status \<noteq> 302
         then [RespSetStatus (word_of_int status) (StandardReason status)] else [])
      else let s = (if status \<le> 0 then 403 else status)
           in [RespSetStatus (word_of_int s) (StandardReason s)])"

definition respond_status :: "int \<Rightarrow> string \<Rightarrow> int" where
  "respond_status status url =
     (if url \<noteq> '''' then (if status \<ge> 301 \<and> status \<le> 308 then status else 302)
      else if status \<le> 0 then 403 else status)"

lemma run_respond:
  "has_response env \<Longrightarrow> respond env s u w =
     (Ok (respond_status s u), w\<lparr>w_evs := w_evs w @ respond_events s u\<rparr>)"
  by (simp add: respond_def respond_events_def respond_status_def prog_simps Let_def)

lemma respond_events_frame:
  "calls_of t (respond_events s u) = []" "TxNew t \<notin> set (respond_events s u)"
  "TxDelete t \<notin> set (respond_events s u)" "live t (evs @ respond_events s u) = live t evs"
  by (auto simp: respond_events_def Let_def live_def)

lemma live_snoc:
  "live t evs \<Longrightarrow> e \<noteq> TxDelete t \<Longrightarrow> live t (evs @ [e])"
  by (auto simp: live_def)

abbreviation url_of :: "intervention \<Rightarrow> string" where
  "url_of it \<equiv> (case it_url it of Some u \<Rightarrow> u | None \<Rightarrow> '''')"

definition block_events :: "nat \<Rightarrow> intervention \<Rightarrow> event list" where
  "block_events t it =
     [RespClear] @ respond_events (it_status it) (url_of it) @
     [TxCall t (UpdateStatusCode (respond_status (it_status it) (url_of it))), RequestHandled,
      TxCall t ProcessLogging, TxDelete t]"

text \<open>The engine does not throw and memory does not run out while an intervention is applied.\<close>

definition smooth :: "env \<Rightarrow> bool" where
  "smooth env \<longleftrightarrow> has_response env \<and> (\<forall>evs. \<not> bad_alloc env evs) \<and>
     (\<forall>cs c. tx_throws env cs c = None)"

lemma run_block_request:
  assumes r: "w_rsc w = Some r" "m_pTx r = Some t" and l: "live t (w_evs w)" and s: "smooth env"
  shows "block_request env t it w = (Ok True,
     w\<lparr>w_rsc := Some (r\<lparr>m_pTx := None, m_pRules := None\<rparr>), w_evs := w_evs w @ block_events t it\<rparr>)"
proof -
  from s have s': "has_response env" "\<And>cs c. tx_throws env cs c = None"
    by (auto simp: smooth_def)
  have l1: "live t (w_evs w @ RespClear # respond_events (it_status it) (url_of it))"
    using l by (auto simp: live_append respond_events_frame) (auto simp: live_def)
  show ?thesis
    using r s' l1
    by (simp add: block_request_def block_events_def run_respond prog_simps FinishRequest_def
          finish_ctx_def live_append)
qed

lemma run_ApplyIntervention:
  assumes r: "w_rsc w = Some r" "m_pTx r = Some t" and l: "live t (w_evs w)" and s: "smooth env"
  shows "ApplyIntervention env canBlock w =
     (case tx_intervention env (calls_of t (w_evs w)) of
        None \<Rightarrow> (Ok False, w\<lparr>w_evs := w_evs w @ [TxCall t Intervention]\<rparr>)
      | Some it \<Rightarrow>
          if it_disruptive it \<noteq> 0 \<and> canBlock
          then (Ok True, w\<lparr>w_rsc := Some (r\<lparr>m_pTx := None, m_pRules := None\<rparr>),
                  w_evs := w_evs w @ [TxCall t Intervention] @ block_events t it\<rparr>)
          else (Ok False, w\<lparr>w_evs := w_evs w @ [TxCall t Intervention]\<rparr>))"
proof -
  from s have s': "\<And>cs c. tx_throws env cs c = None" "\<And>evs. \<not> bad_alloc env evs"
    by (auto simp: smooth_def)
  let ?w = "w\<lparr>w_evs := w_evs w @ [TxCall t Intervention]\<rparr>"
  have b: "block_request env t it ?w = (Ok True,
     ?w\<lparr>w_rsc := Some (r\<lparr>m_pTx := None, m_pRules := None\<rparr>),
        w_evs := w_evs ?w @ block_events t it\<rparr>)" for it
    by (rule run_block_request) (use r l s in \<open>auto simp: live_snoc\<close>)
  have a: "whenever c (heap_alloc env) v = (Ok (), v)" for c and v :: world
    by (simp add: run_whenever run_heap_alloc s')
  show ?thesis
  proof (cases "tx_intervention env (calls_of t (w_evs w))")
    case None
    with r l s' show ?thesis by (simp add: ApplyIntervention_def prog_simps)
  next
    case (Some it)
    with r l s' b[of it] a show ?thesis
      by (simp add: ApplyIntervention_def prog_simps del: calls_of_append)
  qed
qed

text \<open>
  C13: when a phase ends in a disruptive intervention that may block, \<open>ApplyIntervention\<close>
  leaves the client with exactly the answer it reports to the engine: the redirect target if
  the rule supplied one (with its own flavour for the statuses 301 to 308, else 302), the
  rule's status otherwise, 403 where the rule gave none; whatever the response held before is
  gone, and the transaction has been logged once and deleted.
\<close>

theorem blocked_client_view:
  assumes "w_rsc w = Some r" and "m_pTx r = Some t" and "live t (w_evs w)" and "smooth env"
    and "tx_intervention env (calls_of t (w_evs w)) = Some it" and "it_disruptive it \<noteq> 0"
  shows "\<exists>v s. ApplyIntervention env True w = (Ok True, v) \<and>
     client_sees (w_evs v) = \<lparr> cv_status = word_of_int s,
       cv_location = (if url_of it = '''' then None else it_url it) \<rparr> \<and>
     calls_of t (w_evs v) =
       calls_of t (w_evs w) @ [Intervention, UpdateStatusCode s, ProcessLogging] \<and>
     s = (if url_of it \<noteq> '''' then (if 301 \<le> it_status it \<and> it_status it \<le> 308 then it_status it else 302)
          else if it_status it \<le> 0 then 403 else it_status it) \<and>
     TxDelete t \<in> set (w_evs v) \<and> last (filter (\<lambda>e. response_event e) (w_evs v)) = RequestHandled \<and>
     w_rsc v = Some (r\<lparr>m_pTx := None, m_pRules := None\<rparr>)"
proof -
  let ?s = "respond_status (it_status it) (url_of it)"
  let ?v = "w\<lparr>w_rsc := Some (r\<lparr>m_pTx := None, m_pRules := None\<rparr>),
                  w_evs := w_evs w @ [TxCall t Intervention] @ block_events t it\<rparr>"
  have run: "ApplyIntervention env True w = (Ok True, ?v)"
    using run_ApplyIntervention[OF assms(1-4), of True] assms(5,6) by simp
  have view: "client_sees (w_evs ?v) = \<lparr> cv_status = word_of_int ?s,
       cv_location = (if url_of it = '''' then None else it_url it) \<rparr>"
    by (auto simp: client_sees_append block_events_def respond_events_def respond_status_def Let_def
        split: option.splits)
  show ?thesis
    by (intro exI[of _ ?v] exI[of _ ?s] conjI run view)
       (simp_all add: block_events_def respond_events_frame respond_status_def)
qed

definition blocking_world :: world where
  "blocking_world = start_world\<lparr>w_rsc := Some (new_request_ctx\<lparr>m_pTx := Some 0, m_pRules := Some quiet_rules\<rparr>),
     w_evs := [TxNew 0, CtxNew]\<rparr>"

definition blocking_env :: "int \<Rightarrow> string option \<Rightarrow> env" where
  "blocking_env s u = quiet_env\<lparr>tx_intervention := \<lambda>_. Some \<lparr> it_status = s, it_url = u, it_disruptive = 1 \<rparr>\<rparr>"

lemma blocking_facts [simp]:
  "w_rsc blocking_world = Some (new_request_ctx\<lparr>m_pTx := Some 0, m_pRules := Some quiet_rules\<rparr>)"
  "w_evs blocking_world = [TxNew 0, CtxNew]" "live 0 [TxNew 0, CtxNew]"
  "smooth (blocking_env s u)"
  "tx_intervention (blocking_env s u) cs = Some \<lparr> it_status = s, it_url = u, it_disruptive = 1 \<rparr>"
  by (simp_all add: blocking_world_def blocking_env_def live_def smooth_def)

lemma blocked_client_view_witness:
  "\<exists>v s. ApplyIntervention (blocking_env 307 (Some ''/denied'')) True blocking_world = (Ok True, v) \<and>
     client_sees (w_evs v) = \<lparr> cv_status = 307, cv_location = Some ''/denied'' \<rparr> \<and> s = (307 :: int)"
  using blocked_client_view[of blocking_world "new_request_ctx\<lparr>m_pTx := Some 0, m_pRules := Some quiet_rules\<rparr>"
      0 "blocking_env 307 (Some ''/denied'')" "\<lparr> it_status = 307, it_url = Some ''/denied'', it_disruptive = 1 \<rparr>"]
  by fastforce

text \<open>
  C22: an intervention that is not disruptive, or that comes where the caller may not block,
  is consumed and otherwise ignored: the call returns false, the response and the context
  are untouched, and the transaction only saw the query. In particular a caller that passes
  \<open>canBlock = false\<close> never makes the module touch the response.
\<close>

theorem unblocked_untouched:
  assumes "w_rsc w = Some r" and "m_pTx r = Some t" and "live t (w_evs w)" and "smooth env"
    and "\<not> canBlock \<or> (\<forall>it. tx_intervention env (calls_of t (w_evs w)) = Some it \<longrightarrow> it_disruptive it = 0)"
  shows "\<exists>v. ApplyIntervention env canBlock w = (Ok False, v) \<and> w_rsc v = w_rsc w \<and>
     client_sees (w_evs v) = client_sees (w_evs w) \<and>
     filter response_event (w_evs v) = filter response_event (w_evs w) \<and>
     calls_of t (w_evs v) = calls_of t (w_evs w) @ [Intervention]"
proof -
  let ?v = "w\<lparr>w_evs := w_evs w @ [TxCall t Intervention]\<rparr>"
  have run: "ApplyIntervention env canBlock w = (Ok False, ?v)"
    using run_ApplyIntervention[OF assms(1-4), of canBlock] assms(5)
    by (auto split: option.splits)
  show ?thesis
    by (intro exI[of _ ?v] conjI run) (simp_all add: client_sees_append)
qed

lemma unblocked_untouched_witness:
  "\<exists>v. ApplyIntervention (blocking_env 403 None) False blocking_world = (Ok False, v) \<and>
     filter response_event (w_evs v) = [] \<and> calls_of 0 (w_evs v) = [Intervention]"
  using unblocked_untouched[of blocking_world
      "new_request_ctx\<lparr>m_pTx := Some 0, m_pRules := Some quiet_rules\<rparr>" 0 "blocking_env 403 None" False]
  by fastforce

section \<open>The end of the context\<close>

lemma cleanup_ctx_released:
  "m_pTx r = None \<Longrightarrow> cleanup_ctx env r w = (Ok (), w\<lparr>w_evs := w_evs w @ [CtxDelete]\<rparr>)"
  by (simp add: cleanup_ctx_def finish_ctx_def prog_simps)

lemma run_cleanup_ctx:
  assumes "finish_ctx env r w = (Ok (r\<lparr>m_pTx := None, m_pRules := None\<rparr>), w\<lparr>w_evs := w_evs w @ es\<rparr>)"
  shows "cleanup_ctx env r w = (Ok (), w\<lparr>w_evs := w_evs w @ es @ [CtxDelete]\<rparr>)"
  using assms by (simp add: cleanup_ctx_def finish_ctx_def[of _ "_\<lparr>m_pTx := None, m_pRules := None\<rparr>"] prog_simps)

text \<open>
  C23: when IIS deletes the stored context of a request, a transaction it still holds is logged
  exactly once, although the destructor finishes the request a second time; the transaction is
  deleted unless its logging threw, the context object is deleted once, and no undefined
  behaviour and no exception escapes to IIS.
\<close>

theorem cleanup_logs_once:
  assumes "w_rsc w = Some r" and "m_pTx r = Some t" and "live t (w_evs w)"
  shows "\<exists>v es. CleanupStoredContext env w = (Ok (), v) \<and> w_evs v = w_evs w @ es \<and>
     w_rsc v = None \<and> calls_of t es = [ProcessLogging] \<and> count_list es CtxDelete = 1 \<and>
     (TxDelete t \<in> set es \<longleftrightarrow> tx_throws env (calls_of t (w_evs w)) ProcessLogging = None) \<and>
     count_list es (TxDelete t) \<le> 1 \<and> filter response_event es = []"
proof -
  obtain es where run: "finish_ctx env r w =
      (Ok (r\<lparr>m_pTx := None, m_pRules := None\<rparr>), w\<lparr>w_evs := w_evs w @ es\<rparr>)"
    and es: "finish_trace t es"
    and del: "TxDelete t \<in> set es \<longleftrightarrow> tx_throws env (calls_of t (w_evs w)) ProcessLogging = None"
    by (rule finish_ctxE[OF assms(2,3)])
  let ?v = "w\<lparr>w_evs := w_evs w @ es @ [CtxDelete], w_rsc := None\<rparr>"
  have "CleanupStoredContext env w = (Ok (), ?v)"
    using assms(1) run_cleanup_ctx[OF run] by (simp add: CleanupStoredContext_def prog_simps)
  then show ?thesis
    by (intro exI[of _ ?v] exI[of _ "es @ [CtxDelete]"] conjI)
       (use es del in \<open>auto simp: finish_trace_def log_failure_def\<close>)
qed

lemma cleanup_logs_once_witness:
  "\<exists>v es. CleanupStoredContext quiet_env blocking_world = (Ok (), v) \<and> w_evs v = [TxNew 0, CtxNew] @ es \<and>
     calls_of 0 es = [ProcessLogging] \<and> count_list es CtxDelete = 1"
  using cleanup_logs_once[of blocking_world
      "new_request_ctx\<lparr>m_pTx := Some 0, m_pRules := Some quiet_rules\<rparr>" 0 quiet_env]
  by fastforce

text \<open>
  C35: when the engine throws while it writes its log, \<open>FinishRequest\<close> swallows the exception
  but has skipped the \<open>delete\<close>: the transaction stays allocated and the context has forgotten
  it, so neither a second \<open>FinishRequest\<close> nor the destructor will ever delete it.
\<close>

theorem throwing_log_leaks:
  assumes "w_rsc w = Some r" and "m_pTx r = Some t" and "live t (w_evs w)"
    and "tx_throws env (calls_of t (w_evs w)) ProcessLogging = Some e"
  shows "\<exists>v u. FinishRequest env w = (Ok (), v) \<and> live t (w_evs v) \<and>
     w_rsc v = Some (r\<lparr>m_pTx := None, m_pRules := None\<rparr>) \<and>
     FinishRequest env v = (Ok (), v) \<and>
     CleanupStoredContext env v = (Ok (), u) \<and> live t (w_evs u) \<and> w_rsc u = None"
proof -
  let ?r = "r\<lparr>m_pTx := None, m_pRules := None\<rparr>"
  obtain es where run: "finish_ctx env r w = (Ok ?r, w\<lparr>w_evs := w_evs w @ es\<rparr>)"
    and es: "finish_trace t es"
    and del: "TxDelete t \<in> set es \<longleftrightarrow> tx_throws env (calls_of t (w_evs w)) ProcessLogging = None"
    by (rule finish_ctxE[OF assms(2,3)])
  let ?v = "w\<lparr>w_evs := w_evs w @ es, w_rsc := Some ?r\<rparr>"
  let ?u = "w\<lparr>w_evs := w_evs w @ es @ [CtxDelete], w_rsc := None\<rparr>"
  have l: "live t (w_evs w @ es)" using assms(3,4) del by (auto simp: live_def)
  then have l': "live t (w_evs w @ es @ [CtxDelete])" by (simp add: live_def)
  have "FinishRequest env w = (Ok (), ?v)" using run assms(1) by (simp add: FinishRequest_def prog_simps)
  moreover have "FinishRequest env ?v = (Ok (), ?v)"
    by (simp add: FinishRequest_def finish_ctx_def prog_simps)
  moreover have "CleanupStoredContext env ?v = (Ok (), ?u)"
    by (simp add: CleanupStoredContext_def cleanup_ctx_released prog_simps)
  ultimately show ?thesis using l l'
    by (intro exI[of _ ?v] exI[of _ ?u]) simp
qed

lemma throwing_log_leaks_witness:
  "\<exists>v. FinishRequest (quiet_env\<lparr>tx_throws := \<lambda>_ _. Some OtherException\<rparr>) blocking_world = (Ok (), v) \<and>
     live 0 (w_evs v)"
  using throwing_log_leaks[of blocking_world
      "new_request_ctx\<lparr>m_pTx := Some 0, m_pRules := Some quiet_rules\<rparr>" 0
      "quiet_env\<lparr>tx_throws := \<lambda>_ _. Some OtherException\<rparr>"]
  by fastforce

lemma cleanup_ctx_idle:
  assumes "holds t w"
  shows "\<exists>v. CleanupStoredContext env w = (Ok (), v) \<and> idle v \<and> w_rsc v = None"
proof -
  from assms obtain r where r: "w_rsc w = Some r" "m_pTx r = Some t" "live t (w_evs w)"
    by (rule holdsE)
  obtain es where run: "finish_ctx env r w =
      (Ok (r\<lparr>m_pTx := None, m_pRules := None\<rparr>), w\<lparr>w_evs := w_evs w @ es\<rparr>)"
    and es: "finish_trace t es"
    by (rule finish_ctxE[OF r(2,3)])
  let ?v = "w\<lparr>w_evs := w_evs w @ es, w_rsc := None\<rparr>"
  let ?u = "w\<lparr>w_evs := w_evs w @ es @ [CtxDelete], w_rsc := None\<rparr>"
  have "idle ?v" by (rule idle_finish[OF assms es]) simp
  then have "idle (?v\<lparr>w_evs := w_evs ?v @ [CtxDelete]\<rparr>)" by (intro idle_neutral) simp_all
  moreover have "?v\<lparr>w_evs := w_evs ?v @ [CtxDelete]\<rparr> = ?u" by simp
  ultimately have "idle ?u" by metis
  moreover have "CleanupStoredContext env w = (Ok (), ?u)"
    using r(1) run_cleanup_ctx[OF run] by (simp add: CleanupStoredContext_def prog_simps)
  ultimately show ?thesis by (intro exI[of _ ?u]) simp
qed

lemma cleanup_ctx_idle_released:
  assumes "released w"
  shows "\<exists>v. CleanupStoredContext env w = (Ok (), v) \<and> idle v \<and> w_rsc v = None"
proof -
  from assms obtain r where r: "w_rsc w = Some r" "m_pTx r = None" and i: "idle w"
    by (auto simp: released_def)
  have "idle (w\<lparr>w_evs := w_evs w @ [CtxDelete]\<rparr>)" using i by (rule idle_neutral[rotated]) simp
  then have "idle (w\<lparr>w_evs := w_evs w @ [CtxDelete], w_rsc := None\<rparr>)"
    using r unfolding idle_def ctx_inv_def quiet_reads_def by auto
  then show ?thesis
    using r by (intro exI[of _ "w\<lparr>w_evs := w_evs w @ [CtxDelete], w_rsc := None\<rparr>"])
       (simp add: CleanupStoredContext_def cleanup_ctx_released prog_simps)
qed

lemma cleanup_attached:
  "attached w \<Longrightarrow> \<exists>v. CleanupStoredContext env w = (Ok (), v) \<and> idle v \<and> w_rsc v = None"
  by (erule attached_cases) (auto intro: cleanup_ctx_idle cleanup_ctx_idle_released)

section \<open>What these operations add to the trace\<close>

lemma emits_WriteEventViewerLog [emits_intros]:
  "(\<And>s. A (EventLogged s c)) \<Longrightarrow> emits A (WriteEventViewerLog m c)"
  unfolding WriteEventViewerLog_def by (intro emits_intros)

lemma emits_ReportException [emits_intros]:
  "(\<And>s. A (EventLogged s EVENTLOG_ERROR_TYPE)) \<Longrightarrow> emits A (ReportException site e)"
  unfolding ReportException_def by (intro emits_intros)

text \<open>Events that neither feed a body to the engine nor read or re-insert one.\<close>

fun body_silent :: "event \<Rightarrow> bool" where
  "body_silent (TxCall t (AppendRequestBody bs)) = False"
| "body_silent (ReadReturned bs hr) = False"
| "body_silent (BodyInserted bs hr) = False"
| "body_silent CtxNew = False"
| "body_silent _ = True"

text \<open>Events of a phase that inspects without blocking.\<close>

definition inspects :: "event \<Rightarrow> bool" where
  "inspects e \<longleftrightarrow> \<not> response_event e"

lemma inspects_simps [simp]:
  "inspects (TxCall t c)" "inspects (TxThrew t c)" "inspects (EventLogged s k)"
  "inspects (TxDelete t)" "inspects (HandleDuplicated h)" "inspects (HandleClosed h)"
  by (simp_all add: inspects_def)

lemma emits_FinishRequest:
  "(\<And>t. A (TxCall t ProcessLogging) \<and> A (TxThrew t ProcessLogging) \<and> A (TxDelete t)) \<Longrightarrow>
   (\<And>s. A (EventLogged s EVENTLOG_ERROR_TYPE)) \<Longrightarrow> emits A (FinishRequest env)"
  unfolding FinishRequest_def finish_ctx_def by (intro emits_intros) auto

lemma emits_Intervention_silent [emits_intros]:
  "emits body_silent (ApplyIntervention env canBlock)"
  unfolding ApplyIntervention_def block_request_def respond_def
  by (intro emits_intros emits_FinishRequest) auto

lemma emits_Intervention_inspects [emits_intros]:
  "emits inspects (ApplyIntervention env False)"
  unfolding ApplyIntervention_def by (intro emits_intros) auto

end
