(* ===== verification/Body_Read.thy ===== *)
theory Body_Read
  imports Request_Context
begin

text \<open>
  The request-body state machine of \<open>src/ModSecurityIIS.cpp\<close>: it drains the entity body chunk
  by chunk, inline or one completion at a time, hands what it drained back to IIS, and runs
  the engine's request-body phase. The theorems say that the engine sees a prefix and the
  application all of what was read, that the loop ends, and that a completion is claimed once.
\<close>

section \<open>The end of the body\<close>

text \<open>
  The re-insertion half of \<open>FinishBodyRead\<close>: \<open>Inl\<close> is its early return, \<open>Inr\<close> the flag
  \<open>restoreFailed\<close>. The size is cast to DWORD for the allocation; the copy is not.
\<close>

definition reinsert :: "env \<Rightarrow> bytes \<Rightarrow> (notification_status + bool) wprog" where
  "reinsert env body =
     (let size = (word_of_nat (length body) :: DWORD)
      in bnd (gets (\<lambda>w. AllocateRequestMemory env (w_evs w) size)) (\<lambda>allocated.
         if allocated
         then andThen (emit (MemAllocated size))
           (if length body > unat size then undef
            else bnd (gets (\<lambda>w. InsertEntityBody env (w_evs w))) (\<lambda>ihr.
                 andThen (emit (BodyInserted (take (unat size) body) ihr))
                   (if FAILED ihr
                    then andThen (WriteEventViewerLog (Some
                           (''ModSecurityIIS: InsertEntityBody failed while '' @
                            ''re-forwarding the request body; failing the request''))
                           EVENTLOG_ERROR_TYPE) (ret (Inl RQ_NOTIFICATION_FINISH_REQUEST))
                    else ret (Inr False))))
         else andThen (WriteEventViewerLog (Some
                (''ModSecurityIIS: AllocateRequestMemory failed while '' @
                 ''re-forwarding the request body; the request will be '' @
                 ''failed unless the engine blocks it''))
                EVENTLOG_ERROR_TYPE) (ret (Inr True))))"

definition restore_body :: "env \<Rightarrow> (notification_status + bool) wprog" where
  "restore_body env =
     bnd the_rsc (\<lambda>rsc.
       if has_request env \<and> m_Body rsc \<noteq> [] then reinsert env (m_Body rsc)
       else ret (Inr False))"

definition feed_body :: "env \<Rightarrow> unit wprog" where
  "feed_body env =
     bnd the_rsc (\<lambda>rsc.
       let take_n = min (length (m_Body rsc)) (unat (GetMaxInspectBodyBytes env))
       in andThen
            (whenever (take_n > 0)
               (bnd the_tx (\<lambda>t. tx_call env t (AppendRequestBody (take take_n (m_Body rsc))))))
            (bnd the_tx (\<lambda>t. tx_call env t ProcessRequestBody)))"

text \<open>The try block with its handlers, then what follows it.\<close>

definition deliver_body :: "env \<Rightarrow> (notification_status + bool) wprog" where
  "deliver_body env =
     try_catch
       (bnd (restore_body env) (\<lambda>restored. case restored of
          Inl status \<Rightarrow> ret (Inl status)
        | Inr restoreFailed \<Rightarrow> andThen (feed_body env) (ret (Inr restoreFailed))))
       (\<lambda>e. andThen (ReportException ''FinishBodyRead'' e)
              (ret (Inl RQ_NOTIFICATION_FINISH_REQUEST)))"

definition body_verdict :: "env \<Rightarrow> bool \<Rightarrow> notification_status wprog" where
  "body_verdict env restoreFailed =
     bnd (ApplyIntervention env True) (\<lambda>blocked.
       if blocked then ret RQ_NOTIFICATION_FINISH_REQUEST
       else if restoreFailed
       then andThen (resp_call env (RespSetStatus 500 ''Internal Server Error''))
              (ret RQ_NOTIFICATION_FINISH_REQUEST)
       else ret RQ_NOTIFICATION_CONTINUE)"

definition FinishBodyRead :: "env \<Rightarrow> notification_status wprog" where
  "FinishBodyRead env =
     bnd (deliver_body env) (\<lambda>delivered. case delivered of
        Inl status \<Rightarrow> ret status
      | Inr restoreFailed \<Rightarrow> body_verdict env restoreFailed)"

section \<open>One chunk\<close>

definition body_done :: "env \<Rightarrow> notification_status option wprog" where
  "body_done env =
     andThen (set_rsc (\<lambda>r. r\<lparr>m_BodyReadState := BRS_DONE\<rparr>))
       (bnd (FinishBodyRead env) (\<lambda>status. ret (Some status)))"

definition cap_message :: string where
  "cap_message = ''ModSecurityIIS: a request body reached the inspection '' @
     ''cap (MODSEC_IIS_MAX_INSPECT_BODY_BYTES); bytes beyond '' @
     ''it are forwarded to the application but NOT inspected '' @
     ''(logged once per process)''"

text \<open>\<open>None\<close> asks for the next read, \<open>Some\<close> is the status of a finished body.\<close>

definition ConsumeBodyChunk :: "env \<Rightarrow> nat \<Rightarrow> HRESULT \<Rightarrow> notification_status option wprog" where
  "ConsumeBodyChunk env read hr =
     bnd the_rsc (\<lambda>rsc0.
     andThen
       (if read > 0
        then if read > length (m_ReadBuf rsc0) then undef
             else andThen (heap_alloc env)
               (set_rsc (\<lambda>r. r\<lparr>m_Body := m_Body r @ take read (m_ReadBuf r)\<rparr>))
        else ret ())
     (bnd the_rsc (\<lambda>rsc.
       let declared = unat (m_DeclaredBodyLength rsc);
           eof = (read = 0 \<or> HRESULT_CODE hr = ERROR_HANDLE_EOF)
       in if eof then body_done env
          else if FAILED hr then body_done env
          else if declared > 0 \<and> length (m_Body rsc) \<ge> declared then body_done env
          else if length (m_Body rsc) \<ge> unat (GetMaxInspectBodyBytes env)
          then bnd (gets s_capLogged) (\<lambda>seen.
               andThen (whenever (\<not> seen)
                 (andThen (modify (\<lambda>w. w\<lparr>s_capLogged := True\<rparr>))
                    (WriteEventViewerLog (Some cap_message) EVENTLOG_WARNING_TYPE)))
               (body_done env))
          else ret None)))"

section \<open>Reading\<close>

text \<open>
  One \<open>ReadEntityBody\<close>, with the pending state published before it: \<open>None\<close> if it pended,
  otherwise the count and the result code, with the bytes in \<open>m_ReadBuf\<close>.
\<close>

definition read_once :: "env \<Rightarrow> bool \<Rightarrow> (nat \<times> HRESULT) option wprog" where
  "read_once env async =
     andThen (whenever async (set_rsc (\<lambda>r. r\<lparr>m_BodyReadState := BRS_READ_PENDING\<rparr>)))
     (bnd (gets (\<lambda>w. ReadEntityBody env (w_evs w) async)) (\<lambda>rr.
      andThen (emit (ReadIssued async))
        (if async \<and> rr_pending rr then andThen (emit ReadPended) (ret None)
         else bnd the_rsc (\<lambda>rsc.
                if length (rr_data rr) > length (m_ReadBuf rsc) then undef
                else andThen (set_rsc (\<lambda>r. r\<lparr>m_ReadBuf :=
                         rr_data rr @ drop (length (rr_data rr)) (m_ReadBuf r)\<rparr>))
                    (andThen (emit (ReadReturned (rr_data rr) (rr_hr rr)))
                       (ret (Some (length (rr_data rr), rr_hr rr))))))))"

text \<open>The loop of \<open>PumpBodyRead\<close>; \<open>None\<close> means that the fuel ran out.\<close>

primrec pump_loop :: "env \<Rightarrow> bool \<Rightarrow> nat \<Rightarrow> notification_status option wprog" where
  "pump_loop env async 0 = ret None"
| "pump_loop env async (Suc fuel) =
     bnd (read_once env async) (\<lambda>got. case got of
       None \<Rightarrow> ret (Some RQ_NOTIFICATION_PENDING)
     | Some (read, hr) \<Rightarrow>
         andThen (whenever async (set_rsc (\<lambda>r. r\<lparr>m_BodyReadState := BRS_IDLE\<rparr>)))
           (bnd (ConsumeBodyChunk env read hr) (\<lambda>finished. case finished of
              Some status \<Rightarrow> ret (Some status)
            | None \<Rightarrow> pump_loop env async fuel)))"

definition PumpBodyRead :: "env \<Rightarrow> notification_status wprog" where
  "PumpBodyRead env =
     (if \<not> has_request env
      then andThen (set_rsc (\<lambda>r. r\<lparr>m_BodyReadState := BRS_DONE\<rparr>)) (FinishBodyRead env)
      else bnd (BodyReadsAsync env) (\<lambda>async.
           bnd (pump_loop env async (unat (GetMaxInspectBodyBytes env))) (\<lambda>r.
             case r of Some status \<Rightarrow> ret status | None \<Rightarrow> undef)))"

definition vec_resize :: "nat \<Rightarrow> bytes \<Rightarrow> bytes" where
  "vec_resize n v = take n (v @ replicate n NUL)"

lemma length_vec_resize [simp]: "length (vec_resize n v) = n"
  by (simp add: vec_resize_def)

definition BeginBodyRead :: "env \<Rightarrow> notification_status wprog" where
  "BeginBodyRead env =
     (if \<not> has_request env then FinishBodyRead env
      else bnd (GetEntityBodyInfo (raw_request env)) (\<lambda>info.
        if \<not> hasBody info then FinishBodyRead env
        else andThen (set_rsc (\<lambda>r. r\<lparr>m_HasBody := True, m_DeclaredBodyLength := ebi_length info\<rparr>))
            (andThen (heap_alloc env)
            (andThen (set_rsc (\<lambda>r. r\<lparr>m_ReadBuf :=
                vec_resize kBodyReadChunkSize (m_ReadBuf r)\<rparr>))
            (andThen (whenever (ebi_length info > 0) (heap_alloc env))
               (PumpBodyRead env))))))"

section \<open>The completion handler\<close>

text \<open>
  The claim: \<open>InterlockedCompareExchange\<close> of the read state. \<open>None\<close> stands for a null
  completion-info pointer; the other argument is whether the context pointer is valid.
\<close>

definition claim_read :: "bool wprog" where
  "claim_read =
     bnd the_rsc (\<lambda>r.
       if m_BodyReadState r = BRS_READ_PENDING
       then andThen (set_rsc (\<lambda>r. r\<lparr>m_BodyReadState := BRS_IDLE\<rparr>))
              (andThen (emit ReadClaimed) (ret True))
       else ret False)"

definition OnAsyncCompletion ::
  "env \<Rightarrow> bool \<Rightarrow> (DWORD \<times> HRESULT) option \<Rightarrow> notification_status wprog" where
  "OnAsyncCompletion env has_context completion =
     (case (has_context, completion) of
        (True, Some (cb, ch)) \<Rightarrow>
          bnd (gets w_rsc) (\<lambda>stored.
            case stored of
              None \<Rightarrow> ret RQ_NOTIFICATION_CONTINUE
            | Some rsc \<Rightarrow>
                if m_pTx rsc = None then ret RQ_NOTIFICATION_CONTINUE
                else bnd claim_read (\<lambda>claimed.
                  if \<not> claimed then ret RQ_NOTIFICATION_CONTINUE
                  else try_catch
                    (bnd (ConsumeBodyChunk env (unat cb) ch) (\<lambda>finished. case finished of
                       Some status \<Rightarrow> ret status
                     | None \<Rightarrow> PumpBodyRead env))
                    (\<lambda>e. andThen (ReportException ''OnAsyncCompletion'' e)
                           (ret RQ_NOTIFICATION_FINISH_REQUEST))))
      | _ \<Rightarrow> ret RQ_NOTIFICATION_CONTINUE)"

section \<open>Faithful bodies\<close>

text \<open>
  \<open>received\<close>: the body bytes that reads have returned since the current context was created.
  A trace is faithful when every body re-inserted into the request is all that had been
  received, and every body fed to the engine is its prefix up to the inspection cap.
\<close>

fun recv_step :: "event \<Rightarrow> bytes \<Rightarrow> bytes" where
  "recv_step CtxNew acc = []"
| "recv_step (ReadReturned d hr) acc = acc @ d"
| "recv_step _ acc = acc"

definition received :: "event list \<Rightarrow> bytes" where
  "received evs = fold recv_step evs []"

fun body_ok :: "nat \<Rightarrow> bytes \<Rightarrow> event \<Rightarrow> bool" where
  "body_ok cap acc (BodyInserted b hr) = (b = acc)"
| "body_ok cap acc (TxCall t (AppendRequestBody b)) = (b = take cap acc)"
| "body_ok cap acc _ = True"

primrec faithful_from :: "nat \<Rightarrow> bytes \<Rightarrow> event list \<Rightarrow> bool" where
  "faithful_from cap acc [] = True"
| "faithful_from cap acc (e # es) = (body_ok cap acc e \<and> faithful_from cap (recv_step e acc) es)"

definition faithful :: "nat \<Rightarrow> event list \<Rightarrow> bool" where
  "faithful cap evs = faithful_from cap [] evs"

lemma received_snoc [simp]: "received (evs @ [e]) = recv_step e (received evs)"
  by (simp add: received_def)

lemma faithful_from_append:
  "faithful_from cap acc (xs @ ys) =
     (faithful_from cap acc xs \<and> faithful_from cap (fold recv_step xs acc) ys)"
  by (induction xs arbitrary: acc) auto

lemma faithful_snoc [simp]:
  "faithful cap (evs @ [e]) = (faithful cap evs \<and> body_ok cap (received evs) e)"
  by (simp add: faithful_def received_def faithful_from_append)

lemma silent_recv: "body_silent e \<Longrightarrow> recv_step e acc = acc \<and> body_ok cap acc e"
  by (cases e rule: body_silent.cases) auto

text \<open>The cap as a number of bytes.\<close>

abbreviation cap_of :: "env \<Rightarrow> nat" where
  "cap_of env \<equiv> unat (GetMaxInspectBodyBytes env)"

definition loyal :: "env \<Rightarrow> world \<Rightarrow> bool" where
  "loyal env w \<longleftrightarrow> attached w \<and> faithful (cap_of env) (w_evs w)"

text \<open>
  All that was read is in \<open>m_Body\<close>; the reader may ask for more; \<open>read\<close> bytes were fetched
  that \<open>m_Body\<close> does not hold yet.
\<close>

definition drained :: "env \<Rightarrow> nat \<Rightarrow> world \<Rightarrow> bool" where
  "drained env t w \<longleftrightarrow> body_due t w \<and> faithful (cap_of env) (w_evs w) \<and>
     (\<exists>r. w_rsc w = Some r \<and> received (w_evs w) = m_Body r \<and> length (m_Body r) < 2 ^ 32)"

definition reading :: "env \<Rightarrow> nat \<Rightarrow> nat \<Rightarrow> world \<Rightarrow> bool" where
  "reading env t k w \<longleftrightarrow> body_due t w \<and> faithful (cap_of env) (w_evs w) \<and>
     (\<exists>r. w_rsc w = Some r \<and> received (w_evs w) = m_Body r \<and>
        length (m_ReadBuf r) = kBodyReadChunkSize \<and> length (m_Body r) < cap_of env \<and>
        k \<le> length (m_Body r))"

definition fetched :: "env \<Rightarrow> nat \<Rightarrow> nat \<Rightarrow> nat \<Rightarrow> world \<Rightarrow> bool" where
  "fetched env t k read w \<longleftrightarrow> body_due t w \<and> faithful (cap_of env) (w_evs w) \<and>
     (\<exists>r. w_rsc w = Some r \<and> received (w_evs w) = m_Body r @ take read (m_ReadBuf r) \<and>
        length (m_ReadBuf r) = kBodyReadChunkSize \<and> read \<le> kBodyReadChunkSize \<and>
        length (m_Body r) < cap_of env \<and> k \<le> length (m_Body r))"

text \<open>What IIS and http.sys guarantee, and a cap that leaves room for one more chunk in a DWORD.\<close>

definition valid_known :: "known_header \<Rightarrow> bool" where
  "valid_known kh \<longleftrightarrow> (\<forall>mem. pRawValue kh = Some mem \<longrightarrow> unat (RawValueLength kh) \<le> length mem)"

definition body_host :: "env \<Rightarrow> bool" where
  "body_host env \<longleftrightarrow> has_response env \<and>
     (\<forall>evs a. length (rr_data (ReadEntityBody env evs a)) \<le> kBodyReadChunkSize) \<and>
     (\<forall>req. raw_request env = Some req \<longrightarrow>
        valid_known (req_KnownHeaders req ''HttpHeaderContentLength'')) \<and>
     cap_of env + kBodyReadChunkSize \<le> 2 ^ 32"

text \<open>A read is outstanding.\<close>

definition pended :: "env \<Rightarrow> nat \<Rightarrow> world \<Rightarrow> bool" where
  "pended env t w \<longleftrightarrow> ctx_inv w \<and> outstanding (w_evs w) = 1 \<and> faithful (cap_of env) (w_evs w) \<and>
     ProcessRequestBody \<notin> set (calls_of t (w_evs w)) \<and>
     (\<exists>r. w_rsc w = Some r \<and> m_pTx r = Some t \<and> m_BodyReadState r = BRS_READ_PENDING \<and>
        received (w_evs w) = m_Body r \<and>
        length (m_ReadBuf r) = kBodyReadChunkSize \<and> length (m_Body r) < cap_of env)"

lemma drained_due: "drained env t w \<Longrightarrow> body_due t w"
  by (simp add: drained_def)

lemma drained_holds: "drained env t w \<Longrightarrow> holds t w"
  by (simp add: drained_def body_due_def)

lemma faithful_silent:
  "faithful cap evs \<Longrightarrow> body_silent e \<Longrightarrow> faithful cap (evs @ [e])"
  by (simp add: silent_recv)

lemma keeps_loyal:
  assumes "keeps attached m" and "emits body_silent m"
  shows "keeps (loyal env) m"
  unfolding loyal_def by (rule triple_emits[OF assms]) (rule faithful_silent)

lemma keeps_loyal_report [triple_intros]: "keeps (loyal env) (ReportException site e)"
  by (intro keeps_loyal triple_intros emits_intros) auto

section \<open>The end of the body is faithful\<close>

lemma triple_the_tx:
  assumes "\<And>w. P w \<Longrightarrow> holds t w" and "triple P (f t) Q E"
  shows "triple P (bnd the_tx f) Q E"
  unfolding triple_def
proof (intro allI impI)
  fix w assume P: "P w"
  from assms(1)[OF P] obtain r where "w_rsc w = Some r" "m_pTx r = Some t" by (rule holdsE)
  then have "bnd the_tx f w = f t w" by (simp add: prog_simps)
  with assms(2) P
  show "case bnd the_tx f w of (Ok x, v) \<Rightarrow> Q x v | (Throw e, v) \<Rightarrow> E e v | (Undef, v) \<Rightarrow> False"
    by (simp add: triple_def)
qed

text \<open>The body phase with the context known.\<close>

definition drained_as :: "env \<Rightarrow> nat \<Rightarrow> request_ctx \<Rightarrow> world \<Rightarrow> bool" where
  "drained_as env t r w \<longleftrightarrow> drained env t w \<and> w_rsc w = Some r"

lemma drained_as_holds: "drained_as env t r w \<Longrightarrow> holds t w"
  unfolding drained_as_def by (rule drained_holds) (rule conjunct1)

lemma keeps_drained_emit:
  assumes "neutral e" and "\<And>acc. recv_step e acc = acc" and "body_ok (cap_of env) (m_Body r) e"
  shows "keeps (drained_as env t r) (emit e)"
proof -
  have "body_due t (w\<lparr>w_evs := w_evs w @ [e]\<rparr>)" if "body_due t w" for w
    using neutral_stable_inv(4)[of t] assms(1) that by (simp add: neutral_stable_def)
  with assms(2,3) show ?thesis
    by (auto simp: triple_def run_emit drained_as_def drained_def)
qed

lemma keeps_drained_log: "keeps (drained_as env t r) (WriteEventViewerLog m c)"
  unfolding WriteEventViewerLog_def
  by (intro keeps_bnd keeps_gets triple_case_option triple_ret triple_if keeps_drained_emit) auto

lemma drained_as_size: "drained_as env t r w \<Longrightarrow> unat (word_of_nat (length (m_Body r)) :: DWORD) = length (m_Body r)"
  by (auto simp: drained_as_def drained_def unat_of_nat)

lemma drained_loyal: "drained env t w \<Longrightarrow> loyal env w"
  by (auto simp: drained_def loyal_def body_due_def intro: holds_attached)

lemma keeps_restore_body: "keeps (drained env t) (restore_body env)"
  unfolding restore_body_def
proof (rule triple_the_rsc_tx[OF drained_holds], assumption)
  fix r :: request_ctx
  have "keeps (drained_as env t r) (if has_request env \<and> m_Body r \<noteq> [] then reinsert env (m_Body r)
       else ret (Inr False))"
    unfolding reinsert_def
    by (intro triple_if triple_Let keeps_bnd keeps_gets keeps_andThen keeps_drained_emit
          keeps_drained_log triple_ret triple_undef)
       (auto simp: drained_as_size)
  then show "triple (\<lambda>w. drained env t w \<and> w_rsc w = Some r)
      (if has_request env \<and> m_Body r \<noteq> [] then reinsert env (m_Body r) else ret (Inr False))
      (\<lambda>_. drained env t) (\<lambda>_. drained env t)"
    by (rule triple_conseq) (auto simp: drained_as_def)
qed

lemma restore_body_status:
  "restore_body env w = (Ok (Inl st), v) \<Longrightarrow> st = RQ_NOTIFICATION_FINISH_REQUEST"
  by (auto simp: restore_body_def reinsert_def prog_defs Let_def the_rsc_def emit_def
      split: outcome.splits if_splits option.splits prod.splits)

text \<open>The engine's phase gets the prefix and turns \<open>drained\<close> into a held transaction.\<close>

lemma keeps_append_body:
  "triple (drained_as env t r) (tx_call env t (AppendRequestBody (take (cap_of env) (m_Body r))))
     (\<lambda>_. drained_as env t r) (\<lambda>_. loyal env)"
proof -
  let ?c = "AppendRequestBody (take (cap_of env) (m_Body r))"
  have "drained_as env t r (w\<lparr>w_evs := w_evs w @ es\<rparr>)"
    if P: "drained_as env t r w" and es: "es = [TxCall t ?c] \<or> es = [TxCall t ?c, TxThrew t ?c]" for w es
  proof -
    from P have h: "body_due t w" by (simp add: drained_as_def drained_def)
    from holds_after_call[OF body_due_holds[OF h] es]
    have "holds t (w\<lparr>w_evs := w_evs w @ es\<rparr>)" by simp
    moreover have "received (w_evs w @ es) = received (w_evs w)"
      using es by (auto simp: received_def)
    moreover have "faithful (cap_of env) (w_evs w @ es)"
      using P es by (auto simp: drained_as_def drained_def faithful_def faithful_from_append received_def)
    moreover have "ProcessRequestBody \<notin> set (calls_of t (w_evs w @ es))"
      using h es by (auto simp: body_due_def)
    ultimately show ?thesis using P
      by (auto simp: drained_as_def drained_def body_due_def)
  qed
  then have "triple (drained_as env t r) (tx_call env t ?c)
      (\<lambda>_. drained_as env t r) (\<lambda>_. drained_as env t r)"
    by (rule triple_tx_call) (assumption | rule drained_as_holds)+
  then show ?thesis by (rule triple_conseq) (auto simp: drained_as_def intro: drained_loyal)
qed

text \<open>
  The application will get every byte that was read: they were put back, or there was nothing
  to put back. The flag is \<open>restoreFailed\<close>, which will end the request.
\<close>

definition restored :: "env \<Rightarrow> bool \<Rightarrow> event list \<Rightarrow> bool" where
  "restored env failed evs \<longleftrightarrow> failed \<or> \<not> has_request env \<or> received evs = [] \<or>
     (\<exists>hr. \<not> FAILED hr \<and> BodyInserted (received evs) hr \<in> set evs)"

text \<open>Events that leave the received bytes as they are.\<close>

definition unread :: "event \<Rightarrow> bool" where
  "unread e \<longleftrightarrow> (\<forall>acc. recv_step e acc = acc)"

lemma unread_simps [simp]:
  "unread (TxCall t c)" "unread (TxThrew t c)" "unread (MemAllocated n)" "unread (BodyInserted b hr)"
  "unread (EventLogged s k)"
  by (simp_all add: unread_def)

lemma restored_stable: "restored env b evs \<Longrightarrow> unread e \<Longrightarrow> restored env b (evs @ [e])"
  by (auto simp: restored_def unread_def)

lemma received_unread: "\<forall>e \<in> set es. unread e \<Longrightarrow> received (evs @ es) = received evs"
proof (induction es arbitrary: evs)
  case (Cons e es)
  from Cons.IH[of "evs @ [e]"] Cons.prems show ?case by (simp add: unread_def)
qed simp

lemma emits_restore_body: "emits unread (restore_body env)"
  unfolding restore_body_def reinsert_def by (intro emits_intros) auto

lemma emits_feed_body: "emits unread (feed_body env)"
  unfolding feed_body_def by (intro emits_intros) auto

lemma reinsert_result:
  assumes "reinsert env body w = (Ok (Inr b), v)" and "unat (word_of_nat (length body) :: DWORD) = length body"
  shows "b \<or> (\<exists>hr. \<not> FAILED hr \<and> BodyInserted body hr \<in> set (w_evs v))"
  using assms
  by (auto simp: reinsert_def prog_defs Let_def emit_def split: if_splits outcome.splits prod.splits)

lemma triple_restore_body:
  "triple (drained env t) (restore_body env)
     (\<lambda>x w. drained env t w \<and>
        (x = Inl RQ_NOTIFICATION_FINISH_REQUEST \<or> (\<exists>b. x = Inr b \<and> restored env b (w_evs w)))) (\<lambda>_. loyal env)"
proof (rule tripleI)
  fix w x v assume P: "drained env t w" and run: "restore_body env w = (Ok x, v)"
  have D: "drained env t v" by (rule triple_Ok[OF keeps_restore_body P run])
  from P obtain r where r: "w_rsc w = Some r" "received (w_evs w) = m_Body r" "length (m_Body r) < 2 ^ 32"
    by (auto simp: drained_def)
  have len: "unat (word_of_nat (length (m_Body r)) :: DWORD) = length (m_Body r)"
    using r(3) by (simp add: unat_of_nat)
  have rec: "received (w_evs v) = received (w_evs w)"
    using emitsE[OF emits_restore_body run] received_unread by metis
  have "restored env b (w_evs v)" if x: "x = Inr b" for b
  proof (cases "has_request env \<and> m_Body r \<noteq> []")
    case True
    then have "reinsert env (m_Body r) w = (Ok (Inr b), v)"
      using run r(1) x by (simp add: restore_body_def run_bnd_Ok run_the_rsc)
    from reinsert_result[OF this len] r(2) rec show ?thesis by (auto simp: restored_def)
  next
    case False
    with r(2) rec show ?thesis by (auto simp: restored_def)
  qed
  with D restore_body_status[of env w _ v] run
  show "drained env t v \<and>
      (x = Inl RQ_NOTIFICATION_FINISH_REQUEST \<or> (\<exists>b. x = Inr b \<and> restored env b (w_evs v)))"
    by (cases x) auto
qed (blast dest: triple_Throw[OF keeps_restore_body] triple_Undef[OF keeps_restore_body]
      intro: drained_loyal)+

text \<open>The engine's body phase has run on the prefix, and the application's share is restored.\<close>

definition ruled :: "env \<Rightarrow> nat \<Rightarrow> bool \<Rightarrow> event list \<Rightarrow> bool" where
  "ruled env t failed evs \<longleftrightarrow> faithful (cap_of env) evs \<and>
     ProcessRequestBody \<in> set (calls_of t evs) \<and> restored env failed evs"

definition fed :: "env \<Rightarrow> nat \<Rightarrow> bool \<Rightarrow> world \<Rightarrow> bool" where
  "fed env t failed w \<longleftrightarrow> holds t w \<and> ruled env t failed (w_evs w)"

lemma ruled_silent: "ruled env t b evs \<Longrightarrow> body_silent e \<Longrightarrow> ruled env t b (evs @ [e])"
  by (auto simp: ruled_def silent_recv restored_stable unread_def)

text \<open>The state after a body phase: the status that IIS gets decides who owns what.\<close>

definition settled :: "env \<Rightarrow> nat \<Rightarrow> notification_status \<Rightarrow> world \<Rightarrow> bool" where
  "settled env t st w \<longleftrightarrow> (case st of
     RQ_NOTIFICATION_CONTINUE \<Rightarrow> fed env t False w
   | RQ_NOTIFICATION_FINISH_REQUEST \<Rightarrow> loyal env w
   | RQ_NOTIFICATION_PENDING \<Rightarrow> pended env t w)"

lemma ruled_faithful: "ruled env t b evs \<Longrightarrow> faithful (cap_of env) evs"
  by (simp add: ruled_def)

lemma fed_loyal: "fed env t b w \<Longrightarrow> loyal env w"
  by (auto simp: fed_def ruled_def loyal_def intro: holds_attached)

lemma drained_as_simps:
  "drained_as env t r w \<Longrightarrow> body_due t w \<and> faithful (cap_of env) (w_evs w)"
  by (simp add: drained_as_def drained_def)

definition processed :: "env \<Rightarrow> nat \<Rightarrow> world \<Rightarrow> bool" where
  "processed env t w \<longleftrightarrow> holds t w \<and> faithful (cap_of env) (w_evs w) \<and>
     ProcessRequestBody \<in> set (calls_of t (w_evs w))"

lemma triple_process_body:
  "triple (drained_as env t r) (tx_call env t ProcessRequestBody) (\<lambda>_. processed env t) (\<lambda>_. loyal env)"
proof -
  have "triple (drained_as env t r) (tx_call env t ProcessRequestBody) (\<lambda>_. processed env t) (\<lambda>_. processed env t)"
  proof (rule triple_tx_call)
    fix w es assume P: "drained_as env t r w"
      and es: "es = [TxCall t ProcessRequestBody] \<or> es = [TxCall t ProcessRequestBody, TxThrew t ProcessRequestBody]"
    from P have h: "holds t w" by (rule drained_as_holds)
    have "idle (w\<lparr>w_evs := w_evs w @ es\<rparr>)"
      by (rule idle_call[OF h es]) (use P in \<open>auto simp: drained_as_def drained_def body_due_def\<close>)
    with h have "holds t (w\<lparr>w_evs := w_evs w @ es\<rparr>)" by (simp add: holds_def)
    moreover have "faithful (cap_of env) (w_evs w @ es)"
      using drained_as_simps[OF P] es by (auto simp: faithful_def faithful_from_append)
    ultimately show "processed env t (w\<lparr>w_evs := w_evs w @ es\<rparr>)"
      using es by (auto simp: processed_def)
  qed (rule drained_as_holds)
  then show ?thesis
    by (rule triple_conseq) (auto simp: processed_def loyal_def intro: holds_attached)
qed

lemma triple_feed_processed: "triple (drained env t) (feed_body env) (\<lambda>_. processed env t) (\<lambda>_. loyal env)"
  unfolding feed_body_def
proof (rule triple_the_rsc_tx[OF drained_holds[of env]], assumption)
  fix r :: request_ctx
  have prefix_eq: "take (min (length (m_Body r)) n) (m_Body r) = take n (m_Body r)" for n
    by (simp add: min_def)
  have "triple (drained_as env t r)
     (let take_n = min (length (m_Body r)) (cap_of env)
       in andThen
            (whenever (take_n > 0)
               (bnd the_tx (\<lambda>t. tx_call env t (AppendRequestBody (take take_n (m_Body r))))))
            (bnd the_tx (\<lambda>t. tx_call env t ProcessRequestBody))) (\<lambda>_. processed env t) (\<lambda>_. loyal env)"
    unfolding Let_def prefix_eq
    by (intro triple_andThen[where R = "drained_as env t r"] triple_whenever
          triple_the_tx[OF drained_as_holds[of env t r]] keeps_append_body triple_process_body)
  then show "triple (\<lambda>w. drained env t w \<and> w_rsc w = Some r)
     (let take_n = min (length (m_Body r)) (cap_of env)
       in andThen
            (whenever (take_n > 0)
               (bnd the_tx (\<lambda>t. tx_call env t (AppendRequestBody (take take_n (m_Body r))))))
            (bnd the_tx (\<lambda>t. tx_call env t ProcessRequestBody))) (\<lambda>_. processed env t) (\<lambda>_. loyal env)"
    by (rule triple_pre) (simp add: drained_as_def)
qed

lemma triple_feed_body:
  "triple (\<lambda>w. drained env t w \<and> restored env b (w_evs w)) (feed_body env) (\<lambda>_. fed env t b) (\<lambda>_. loyal env)"
  by (rule triple_conseq[OF triple_emits[OF triple_feed_processed emits_feed_body,
        where F = "restored env b"]])
     (auto simp: processed_def fed_def ruled_def intro: restored_stable)

text \<open>The whole of \<open>FinishBodyRead\<close>.\<close>

lemma triple_Intervention_fed:
  assumes "has_response env"
  shows "triple (fed env t failed) (ApplyIntervention env True)
     (\<lambda>b w. if b then loyal env w else fed env t failed w) (\<lambda>_. loyal env)"
  unfolding fed_def
  by (rule triple_conseq[OF triple_emits[OF Intervention_holds[OF assms]
        emits_Intervention_silent, where F = "ruled env t failed"]])
     (auto simp: loyal_def ruled_faithful split: if_splits
        intro: holds_attached released_attached ruled_silent dest: ruled_faithful)

lemma keeps_loyal_resp [triple_intros]:
  "has_response env \<Longrightarrow> body_silent e \<Longrightarrow> neutral e \<Longrightarrow> keeps (loyal env) (resp_call env e)"
  by (intro keeps_loyal triple_intros emits_intros) auto

definition delivered :: "env \<Rightarrow> nat \<Rightarrow> notification_status + bool \<Rightarrow> world \<Rightarrow> bool" where
  "delivered env t x w \<longleftrightarrow> x = Inl RQ_NOTIFICATION_FINISH_REQUEST \<and> loyal env w \<or>
     (\<exists>b. x = Inr b \<and> fed env t b w)"

lemma triple_deliver_body:
  "triple (drained env t) (deliver_body env) (delivered env t) (\<lambda>_. loyal env)"
proof -
  have feed: "triple (\<lambda>w. drained env t w \<and> restored env b (w_evs w))
      (andThen (feed_body env) (ret (Inr b))) (delivered env t) (\<lambda>_. loyal env)" for b
    by (rule triple_andThen[OF triple_feed_body]) (rule triple_ret, simp add: delivered_def)
  have next_step: "triple (\<lambda>w. drained env t w \<and> (x = Inl RQ_NOTIFICATION_FINISH_REQUEST \<or>
          (\<exists>b. x = Inr b \<and> restored env b (w_evs w))))
       (case x of Inl status \<Rightarrow> ret (Inl status)
             | Inr restoreFailed \<Rightarrow> andThen (feed_body env) (ret (Inr restoreFailed)))
       (delivered env t) (\<lambda>_. loyal env)" for x
    by (cases x) (auto intro!: triple_ret triple_pre[OF feed] simp: delivered_def intro: drained_loyal)
  have caught: "triple (loyal env) (andThen (ReportException ''FinishBodyRead'' e)
      (ret (Inl RQ_NOTIFICATION_FINISH_REQUEST))) (delivered env t) (\<lambda>_. loyal env)" for e
    by (rule triple_andThen[OF keeps_loyal_report]) (rule triple_ret, simp add: delivered_def)
  show ?thesis
    unfolding deliver_body_def
    by (rule triple_try[OF triple_bnd[OF triple_restore_body next_step] caught])
qed

lemma triple_body_verdict:
  assumes resp: "has_response env"
  shows "triple (fed env t b) (body_verdict env b) (settled env t) (\<lambda>_. loyal env)"
  unfolding body_verdict_def
proof (rule triple_bnd[OF triple_Intervention_fed[OF resp]])
  fix blocked
  have fail: "triple (loyal env) (andThen (resp_call env (RespSetStatus 500 ''Internal Server Error''))
                   (ret RQ_NOTIFICATION_FINISH_REQUEST)) (settled env t) (\<lambda>_. loyal env)"
    by (rule triple_andThen[OF keeps_loyal_resp[OF resp]], simp, simp)
       (rule triple_ret, simp add: settled_def)
  show "triple (\<lambda>w. if blocked then loyal env w else fed env t b w)
       (if blocked then ret RQ_NOTIFICATION_FINISH_REQUEST
            else if b
            then andThen (resp_call env (RespSetStatus 500 ''Internal Server Error''))
                   (ret RQ_NOTIFICATION_FINISH_REQUEST)
            else ret RQ_NOTIFICATION_CONTINUE) (settled env t) (\<lambda>_. loyal env)"
    by (intro triple_if triple_ret triple_pre[OF fail])
       (auto simp: settled_def fed_loyal split: if_splits)
qed

lemma triple_FinishBodyRead:
  assumes "has_response env"
  shows "triple (drained env t) (FinishBodyRead env) (settled env t) (\<lambda>_. loyal env)"
  unfolding FinishBodyRead_def
proof (rule triple_bnd[OF triple_deliver_body])
  fix x
  show "triple (delivered env t x) (case x of Inl status \<Rightarrow> ret status
      | Inr restoreFailed \<Rightarrow> body_verdict env restoreFailed) (settled env t) (\<lambda>_. loyal env)"
    by (cases x)
       (auto intro!: triple_ret triple_pre[OF triple_body_verdict[OF assms]]
          simp: settled_def delivered_def)
qed

section \<open>One chunk is faithful\<close>

lemma body_due_frame:
  assumes "body_due t w" and "w_rsc w = Some r" and "ctx_frame f"
  shows "body_due t (w\<lparr>w_rsc := Some (f r)\<rparr>)"
  using triple_Ok[OF keeps_set_rsc_due[OF assms(3)] assms(1), of "()"] assms(2)
  by (simp add: run_set_rsc)

lemma triple_set_rsc:
  assumes "\<And>w. P w \<Longrightarrow> \<exists>r. w_rsc w = Some r \<and> Q (w\<lparr>w_rsc := Some (f r)\<rparr>)"
  shows "triple P (set_rsc f) (\<lambda>_. Q) E"
proof -
  have "case set_rsc f w of (Ok x, v) \<Rightarrow> Q v | (Throw e, v) \<Rightarrow> E e v | (Undef, v) \<Rightarrow> False"
    if "P w" for w
    using assms[OF that] by (auto simp: run_set_rsc)
  then show ?thesis unfolding triple_def by blast
qed

lemma frame_body_fields [simp]:
  "ctx_frame (\<lambda>r. r\<lparr>m_BodyReadState := BRS_DONE\<rparr>)" "ctx_frame (\<lambda>r. r\<lparr>m_BodyReadState := BRS_IDLE\<rparr>)"
  "ctx_frame (\<lambda>r. r\<lparr>m_ReadBuf := f r\<rparr>)" "ctx_frame (\<lambda>r. r\<lparr>m_Body := f r\<rparr>)"
  "ctx_frame (\<lambda>r. r\<lparr>m_HasBody := b, m_DeclaredBodyLength := n\<rparr>)"
  by (simp_all add: ctx_frame_def)

text \<open>The chunk is in \<open>m_Body\<close>.\<close>

definition taken :: "env \<Rightarrow> nat \<Rightarrow> nat \<Rightarrow> world \<Rightarrow> bool" where
  "taken env t k w \<longleftrightarrow> body_due t w \<and> faithful (cap_of env) (w_evs w) \<and>
     (\<exists>r. w_rsc w = Some r \<and> received (w_evs w) = m_Body r \<and>
        length (m_ReadBuf r) = kBodyReadChunkSize \<and>
        length (m_Body r) < cap_of env + kBodyReadChunkSize \<and> k \<le> length (m_Body r))"

definition taken_as :: "env \<Rightarrow> nat \<Rightarrow> nat \<Rightarrow> request_ctx \<Rightarrow> world \<Rightarrow> bool" where
  "taken_as env t k r w \<longleftrightarrow> taken env t k w \<and> w_rsc w = Some r"

lemma taken_holds: "taken env t k w \<Longrightarrow> holds t w"
  by (simp add: taken_def body_due_def)

lemma taken_loyal: "taken env t k w \<Longrightarrow> loyal env w"
  by (auto simp: taken_def loyal_def body_due_def intro: holds_attached)

lemma fetched_holds: "fetched env t k n w \<Longrightarrow> holds t w"
  by (simp add: fetched_def body_due_def)

lemma fetched_loyal: "fetched env t k n w \<Longrightarrow> loyal env w"
  by (auto simp: fetched_def loyal_def body_due_def intro: holds_attached)

definition take_chunk :: "nat \<Rightarrow> request_ctx \<Rightarrow> request_ctx" where
  "take_chunk n r = r\<lparr>m_Body := m_Body r @ take n (m_ReadBuf r)\<rparr>"

lemma fetched_take_chunk:
  assumes "fetched env t k n w"
  shows "\<exists>r. w_rsc w = Some r \<and> taken env t (k + n) (w\<lparr>w_rsc := Some (take_chunk n r)\<rparr>)"
proof -
  from assms obtain r where r: "w_rsc w = Some r" "body_due t w"
    "received (w_evs w) = m_Body r @ take n (m_ReadBuf r)"
    "length (m_ReadBuf r) = kBodyReadChunkSize" "n \<le> kBodyReadChunkSize"
    "length (m_Body r) < cap_of env" "k \<le> length (m_Body r)"
    by (auto simp: fetched_def)
  have "ctx_frame (take_chunk n)" by (simp add: ctx_frame_def take_chunk_def)
  from body_due_frame[OF r(2,1) this] assms r show ?thesis
    by (auto simp: taken_def fetched_def take_chunk_def)
qed

lemma triple_take_chunk:
  "triple (\<lambda>w. fetched env t k n w \<and> w_rsc w = Some r0)
     (if n > 0
        then if n > length (m_ReadBuf r0) then undef
             else andThen (heap_alloc env)
               (set_rsc (\<lambda>r. r\<lparr>m_Body := m_Body r @ take n (m_ReadBuf r)\<rparr>))
        else ret ()) (\<lambda>_. taken env t (k + n)) (\<lambda>_. loyal env)"
proof (intro triple_if triple_undef triple_ret)
  have grow: "triple (fetched env t k n) (set_rsc (\<lambda>r. r\<lparr>m_Body := m_Body r @ take n (m_ReadBuf r)\<rparr>))
      (\<lambda>_. taken env t (k + n)) (\<lambda>_. loyal env)"
    by (rule triple_set_rsc) (drule fetched_take_chunk, simp add: take_chunk_def)
  have alloc: "triple (fetched env t k n) (heap_alloc env) (\<lambda>_. fetched env t k n) (\<lambda>_. loyal env)"
    by (rule triple_conseq[OF keeps_heap_alloc[of "fetched env t k n" env]]) (auto intro: fetched_loyal)
  show "triple (\<lambda>w. fetched env t k n w \<and> w_rsc w = Some r0)
     (andThen (heap_alloc env) (set_rsc (\<lambda>r. r\<lparr>m_Body := m_Body r @ take n (m_ReadBuf r)\<rparr>)))
     (\<lambda>_. taken env t (k + n)) (\<lambda>_. loyal env)"
    by (rule triple_pre[OF triple_andThen[OF alloc grow]]) simp
qed (auto simp: fetched_def taken_def)

lemma triple_body_done:
  assumes host: "body_host env"
  shows "triple (taken env t k) (body_done env)
     (\<lambda>x w. \<exists>st. x = Some st \<and> settled env t st w) (\<lambda>_. loyal env)"
proof -
  have room: "cap_of env + kBodyReadChunkSize \<le> 2 ^ 32" and resp: "has_response env"
    using host by (auto simp: body_host_def)
  have "\<exists>r. w_rsc w = Some r \<and> drained env t (w\<lparr>w_rsc := Some (r\<lparr>m_BodyReadState := BRS_DONE\<rparr>)\<rparr>)"
    if T: "taken env t k w" for w
  proof -
    from T obtain r where r: "w_rsc w = Some r" "body_due t w" by (auto simp: taken_def)
    have "body_due t (w\<lparr>w_rsc := Some (r\<lparr>m_BodyReadState := BRS_DONE\<rparr>)\<rparr>)"
      by (rule body_due_frame[OF r(2,1)]) simp
    with T r room show ?thesis by (auto simp: taken_def drained_def)
  qed
  then have step: "triple (taken env t k) (set_rsc (\<lambda>r. r\<lparr>m_BodyReadState := BRS_DONE\<rparr>))
     (\<lambda>_. drained env t) (\<lambda>_. loyal env)"
    by (rule triple_set_rsc)
  have fin: "triple (drained env t) (bnd (FinishBodyRead env) (\<lambda>status. ret (Some status)))
     (\<lambda>x w. \<exists>st. x = Some st \<and> settled env t st w) (\<lambda>_. loyal env)"
    by (rule triple_bnd[OF triple_FinishBodyRead[OF resp]]) (rule triple_ret, simp)
  show ?thesis unfolding body_done_def by (rule triple_andThen[OF step fin])
qed

lemma taken_reading:
  "taken env t k w \<Longrightarrow> w_rsc w = Some r \<Longrightarrow> length (m_Body r) < cap_of env \<Longrightarrow> reading env t k w"
  by (auto simp: taken_def reading_def)

text \<open>
  A consumed chunk either settles the body or leaves the reader with strictly more bytes than
  before, and still below the cap.
\<close>

lemma keeps_taken_log: "keeps (taken env t k) (WriteEventViewerLog m c)"
proof -
  have b: "keeps (body_due t) (WriteEventViewerLog m c)" by (intro triple_intros) simp
  have r: "w_rsc (snd (WriteEventViewerLog m c w)) = w_rsc w \<and>
      (\<exists>es. w_evs (snd (WriteEventViewerLog m c w)) = w_evs w @ es \<and> (es = [] \<or> (\<exists>s. es = [EventLogged s c])))"
    for w
    by (auto simp: WriteEventViewerLog_def prog_defs emit_def split: option.split)
  have "taken env t k v" if T: "taken env t k w" and run: "WriteEventViewerLog m c w = (Ok x, v)" for w x v
  proof -
    from T have "body_due t v" using triple_Ok[OF b _ run] by (auto simp: taken_def)
    with T r[of w] run show ?thesis by (auto simp: taken_def)
  qed
  moreover have "fst (WriteEventViewerLog m c w) = Ok ()" for w
    by (auto simp: WriteEventViewerLog_def prog_defs emit_def split: option.split)
  ultimately show ?thesis by (intro tripleI) (metis fst_conv outcome.distinct)+
qed

lemma keeps_taken_cap: "keeps (taken env t k) (modify (\<lambda>w. w\<lparr>s_capLogged := True\<rparr>))"
  by (rule triple_modify)
     (auto simp: taken_def body_due_def holds_def idle_def ctx_inv_def quiet_reads_def)

lemma triple_ConsumeBodyChunk:
  assumes host: "body_host env"
  shows "triple (fetched env t k n) (ConsumeBodyChunk env n hr)
     (\<lambda>x w. case x of Some st \<Rightarrow> settled env t st w | None \<Rightarrow> reading env t (Suc k) w) (\<lambda>_. loyal env)"
  unfolding ConsumeBodyChunk_def
proof (rule triple_the_rsc_tx[OF fetched_holds], assumption, rule triple_andThen[OF triple_take_chunk],
    rule triple_the_rsc_tx[OF taken_holds], assumption)
  fix r0 r :: request_ctx
  let ?Q = "\<lambda>x w. case x of Some st \<Rightarrow> settled env t st w | None \<Rightarrow> reading env t (Suc k) w"
  have fin: "triple (taken env t (k + n)) (body_done env) ?Q (\<lambda>_. loyal env)"
    by (rule triple_conseq[OF triple_body_done[OF host]]) auto
  have log: "triple (taken env t (k + n)) (whenever (\<not> seen)
                 (andThen (modify (\<lambda>w. w\<lparr>s_capLogged := True\<rparr>))
                    (WriteEventViewerLog (Some cap_message) EVENTLOG_WARNING_TYPE)))
      (\<lambda>_. taken env t (k + n)) (\<lambda>_. loyal env)" for seen
    by (rule triple_conseq[OF keeps_whenever[OF keeps_andThen[OF keeps_taken_cap keeps_taken_log]]])
       (auto intro: taken_loyal)
  have again: "triple (\<lambda>w. taken env t (k + n) w \<and> w_rsc w = Some r) (ret None) ?Q (\<lambda>_. loyal env)"
    if "\<not> (n = 0 \<or> c)" "\<not> cap_of env \<le> length (m_Body r)" for c
    using that by (intro triple_ret) (auto simp: taken_def reading_def)
  show "triple (\<lambda>w. taken env t (k + n) w \<and> w_rsc w = Some r)
     (let declared = unat (m_DeclaredBodyLength r);
           eof = (n = 0 \<or> HRESULT_CODE hr = ERROR_HANDLE_EOF)
       in if eof then body_done env
          else if FAILED hr then body_done env
          else if declared > 0 \<and> length (m_Body r) \<ge> declared then body_done env
          else if length (m_Body r) \<ge> cap_of env
          then bnd (gets s_capLogged) (\<lambda>seen.
               andThen (whenever (\<not> seen)
                 (andThen (modify (\<lambda>w. w\<lparr>s_capLogged := True\<rparr>))
                    (WriteEventViewerLog (Some cap_message) EVENTLOG_WARNING_TYPE)))
               (body_done env))
          else ret None) ?Q (\<lambda>_. loyal env)"
    unfolding Let_def
    by (intro triple_if triple_pre[OF fin] again triple_gets_bnd triple_pre[OF triple_andThen[OF log fin]])
       auto
qed

section \<open>The read loop\<close>

lemma body_due_neutral: "body_due t w \<Longrightarrow> neutral e \<Longrightarrow> body_due t (w\<lparr>w_evs := w_evs w @ [e]\<rparr>)"
  using neutral_stable_inv(4)[of t] by (simp add: neutral_stable_def)

text \<open>The context after an inline read, and the one that a pended read leaves.\<close>

definition inline_ctx :: "bool \<Rightarrow> bytes \<Rightarrow> request_ctx \<Rightarrow> request_ctx" where
  "inline_ctx async d r = r\<lparr>m_ReadBuf := d @ drop (length d) (m_ReadBuf r),
     m_BodyReadState := (if async then BRS_IDLE else m_BodyReadState r)\<rparr>"

lemma fetched_inline:
  assumes R: "reading env t k w" and r: "w_rsc w = Some r" and d: "length d \<le> kBodyReadChunkSize"
  shows "fetched env t k (length d) (w\<lparr>w_rsc := Some (inline_ctx async d r),
     w_evs := w_evs w @ [ReadIssued async, ReadReturned d hr]\<rparr>)"
proof -
  have "ctx_frame (inline_ctx async d)" by (simp add: ctx_frame_def inline_ctx_def)
  then have "body_due t (w\<lparr>w_rsc := Some (inline_ctx async d r)\<rparr>)"
    using R r by (intro body_due_frame) (simp_all add: reading_def)
  from body_due_neutral[OF body_due_neutral[OF this, of "ReadIssued async"], of "ReadReturned d hr"]
  have due: "body_due t (w\<lparr>w_rsc := Some (inline_ctx async d r),
     w_evs := w_evs w @ [ReadIssued async, ReadReturned d hr]\<rparr>)" by simp
  have "received (w_evs w @ [ReadIssued async, ReadReturned d hr]) = received (w_evs w) @ d"
    by (simp add: received_def)
  moreover have "faithful (cap_of env) (w_evs w @ [ReadIssued async, ReadReturned d hr])"
    using R by (simp add: reading_def faithful_def faithful_from_append)
  ultimately show ?thesis using R r d due
    by (auto simp: reading_def fetched_def inline_ctx_def)
qed

lemma pended_now:
  assumes R: "reading env t k w" and r: "w_rsc w = Some r"
  shows "pended env t (w\<lparr>w_rsc := Some (r\<lparr>m_BodyReadState := BRS_READ_PENDING\<rparr>),
     w_evs := w_evs w @ [ReadIssued True, ReadPended]\<rparr>)"
proof -
  from R r have h: "holds t w" by (simp add: reading_def body_due_def)
  then have i: "ctx_inv w" "outstanding (w_evs w) = 0" and tx: "m_pTx r = Some t"
    using r by (auto simp: holds_def idle_def quiet_reads_def)
  have same: "calls_of u (w_evs w @ [ReadIssued True, ReadPended]) = calls_of u (w_evs w)"
    "tx_open u (w_evs w @ [ReadIssued True, ReadPended]) = tx_open u (w_evs w)"
    "tx_closed u (w_evs w @ [ReadIssued True, ReadPended]) = tx_closed u (w_evs w)"
    "phases_once u (w_evs w @ [ReadIssued True, ReadPended]) = phases_once u (w_evs w)" for u
    by (simp_all add: tx_open_def tx_closed_def phases_once_def live_def abandoned_def)
  have "ids_bounded (w_evs w @ [ReadIssued True, ReadPended])"
    using i(1) by (auto simp: ctx_inv_def ids_bounded_def less_Suc_eq)
  with i(1) r have "ctx_inv (w\<lparr>w_rsc := Some (r\<lparr>m_BodyReadState := BRS_READ_PENDING\<rparr>),
     w_evs := w_evs w @ [ReadIssued True, ReadPended]\<rparr>)"
    unfolding ctx_inv_def by (auto simp: same simp del: calls_of_append)
  moreover have "received (w_evs w @ [ReadIssued True, ReadPended]) = received (w_evs w)"
    by (simp add: received_def)
  moreover have "faithful (cap_of env) (w_evs w @ [ReadIssued True, ReadPended])"
    using R by (simp add: reading_def faithful_def faithful_from_append)
  ultimately show ?thesis using R r i(2) tx
    by (auto simp: reading_def pended_def body_due_def outstanding_def)
qed

lemma read_once_pended:
  assumes r: "w_rsc w = Some r" and pend: "rr_pending (ReadEntityBody env (w_evs w) True)"
  shows "read_once env True w = (Ok None, w\<lparr>w_rsc := Some (r\<lparr>m_BodyReadState := BRS_READ_PENDING\<rparr>),
        w_evs := w_evs w @ [ReadIssued True, ReadPended]\<rparr>)"
  using assms by (simp add: read_once_def prog_defs set_rsc_def emit_def)

lemma read_once_inline:
  assumes r: "w_rsc w = Some r" and inl: "\<not> (async \<and> rr_pending (ReadEntityBody env (w_evs w) async))"
    and d: "rr_data (ReadEntityBody env (w_evs w) async) = d" "length d \<le> length (m_ReadBuf r)"
    and hr: "rr_hr (ReadEntityBody env (w_evs w) async) = hr"
  shows "read_once env async w = (Ok (Some (length d, hr)),
      w\<lparr>w_rsc := Some (r\<lparr>m_ReadBuf := d @ drop (length d) (m_ReadBuf r),
           m_BodyReadState := (if async then BRS_READ_PENDING else m_BodyReadState r)\<rparr>),
        w_evs := w_evs w @ [ReadIssued async, ReadReturned d hr]\<rparr>)"
  using assms by (cases async) (simp_all add: read_once_def prog_defs set_rsc_def emit_def the_rsc_def)

lemma world_rsc_evs: "w\<lparr>w_evs := es, w_rsc := r\<rparr> = w\<lparr>w_rsc := r, w_evs := es\<rparr>"
  by simp

lemma set_idle_inline:
  "andThen (whenever async (set_rsc (\<lambda>r. r\<lparr>m_BodyReadState := BRS_IDLE\<rparr>))) m
     (w\<lparr>w_rsc := Some (r\<lparr>m_ReadBuf := b, m_BodyReadState := (if async then BRS_READ_PENDING else m_BodyReadState r)\<rparr>),
        w_evs := es\<rparr>)
   = m (w\<lparr>w_rsc := Some (r\<lparr>m_ReadBuf := b, m_BodyReadState := (if async then BRS_IDLE else m_BodyReadState r)\<rparr>),
        w_evs := es\<rparr>)"
  by (cases async) (simp_all add: andThen_def bnd_def whenever_def ret_def run_set_rsc world_rsc_evs)

lemma pump_loop_pended:
  assumes "w_rsc w = Some r" and "async" and "rr_pending (ReadEntityBody env (w_evs w) async)"
  shows "pump_loop env async (Suc fuel) w = (Ok (Some RQ_NOTIFICATION_PENDING),
     w\<lparr>w_rsc := Some (r\<lparr>m_BodyReadState := BRS_READ_PENDING\<rparr>),
        w_evs := w_evs w @ [ReadIssued True, ReadPended]\<rparr>)"
  using assms read_once_pended[of w r env] by (simp add: run_bnd_Ok ret_def)

lemma pump_loop_inline:
  assumes r: "w_rsc w = Some r" and inl: "\<not> (async \<and> rr_pending (ReadEntityBody env (w_evs w) async))"
    and d: "rr_data (ReadEntityBody env (w_evs w) async) = d" "length d \<le> length (m_ReadBuf r)"
    and hr: "rr_hr (ReadEntityBody env (w_evs w) async) = hr"
  shows "pump_loop env async (Suc fuel) w =
     bnd (ConsumeBodyChunk env (length d) hr) (\<lambda>finished. case finished of
              Some status \<Rightarrow> ret (Some status) | None \<Rightarrow> pump_loop env async fuel)
       (w\<lparr>w_rsc := Some (inline_ctx async d r),
          w_evs := w_evs w @ [ReadIssued async, ReadReturned d hr]\<rparr>)"
  using read_once_inline[OF assms]
  by (simp add: run_bnd_Ok set_idle_inline inline_ctx_def)

text \<open>
  Every turn of the loop that goes on has added a byte, so the cap bounds the number of turns:
  with that much fuel the loop always ends in a status.
\<close>

lemma triple_pump_loop:
  assumes host: "body_host env"
  shows "cap_of env \<le> fuel + k \<Longrightarrow> triple (reading env t k) (pump_loop env async fuel)
     (\<lambda>x w. \<exists>st. x = Some st \<and> settled env t st w) (\<lambda>_. loyal env)"
proof (induction fuel arbitrary: k)
  case 0
  then show ?case by (auto simp: triple_def reading_def)
next
  case (Suc fuel)
  let ?Q = "\<lambda>x w. \<exists>st. x = Some st \<and> settled env t st w"
  let ?rest = "\<lambda>n hr. bnd (ConsumeBodyChunk env n hr) (\<lambda>finished. case finished of
              Some status \<Rightarrow> ret (Some status)
            | None \<Rightarrow> pump_loop env async fuel)"
  have IH: "triple (reading env t (Suc k)) (pump_loop env async fuel) ?Q (\<lambda>_. loyal env)"
    using Suc by simp
  have rest: "triple (fetched env t k n) (?rest n hr) ?Q (\<lambda>_. loyal env)" for n hr
  proof (rule triple_bnd[OF triple_ConsumeBodyChunk[OF host]])
    fix x
    show "triple (\<lambda>w. case x of Some st \<Rightarrow> settled env t st w | None \<Rightarrow> reading env t (Suc k) w)
        (case x of Some status \<Rightarrow> ret (Some status) | None \<Rightarrow> pump_loop env async fuel) ?Q (\<lambda>_. loyal env)"
      by (cases x) (auto intro: IH triple_ret)
  qed
  have "case pump_loop env async (Suc fuel) w of (Ok x, v) \<Rightarrow> ?Q x v | (Throw e, v) \<Rightarrow> loyal env v
      | (Undef, v) \<Rightarrow> False" if R: "reading env t k w" for w
  proof -
    from R obtain r where r: "w_rsc w = Some r" "length (m_ReadBuf r) = kBodyReadChunkSize"
      by (auto simp: reading_def)
    let ?rr = "ReadEntityBody env (w_evs w) async"
    have d: "length (rr_data ?rr) \<le> kBodyReadChunkSize" using host by (simp add: body_host_def)
    show ?thesis
    proof (cases "async \<and> rr_pending ?rr")
      case True
      then have run: "pump_loop env async (Suc fuel) w = (Ok (Some RQ_NOTIFICATION_PENDING),
         w\<lparr>w_rsc := Some (r\<lparr>m_BodyReadState := BRS_READ_PENDING\<rparr>),
            w_evs := w_evs w @ [ReadIssued True, ReadPended]\<rparr>)"
        using pump_loop_pended[OF r(1)] by blast
      show ?thesis unfolding run using pended_now[OF R r(1)] by (simp add: settled_def)
    next
      case False
      have run: "pump_loop env async (Suc fuel) w = ?rest (length (rr_data ?rr)) (rr_hr ?rr)
         (w\<lparr>w_rsc := Some (inline_ctx async (rr_data ?rr) r),
          w_evs := w_evs w @ [ReadIssued async, ReadReturned (rr_data ?rr) (rr_hr ?rr)]\<rparr>)"
        by (rule pump_loop_inline[OF r(1) False refl _ refl]) (use d r(2) in simp)
      have F: "fetched env t k (length (rr_data ?rr)) (w\<lparr>w_rsc := Some (inline_ctx async (rr_data ?rr) r),
          w_evs := w_evs w @ [ReadIssued async, ReadReturned (rr_data ?rr) (rr_hr ?rr)]\<rparr>)"
        by (rule fetched_inline[OF R r(1) d])
      from rest[of "length (rr_data ?rr)" "rr_hr ?rr"] F show ?thesis
        unfolding run by (simp add: triple_def)
    qed
  qed
  then show ?case unfolding triple_def by blast
qed

section \<open>The whole body phase is faithful\<close>

lemma reading_drained: "reading env t k w \<Longrightarrow> body_host env \<Longrightarrow> drained env t w"
  by (auto simp: reading_def drained_def body_host_def)

lemma reading_loyal: "reading env t k w \<Longrightarrow> loyal env w"
  by (auto simp: reading_def loyal_def body_due_def intro: holds_attached)

lemma ctx_inv_globals [simp]: "ctx_inv (w\<lparr>g_bodyAsyncState := x\<rparr>) = ctx_inv w"
  by (simp add: ctx_inv_def)

lemma body_due_globals [simp]: "body_due t (w\<lparr>g_bodyAsyncState := x\<rparr>) = body_due t w"
  by (simp add: body_due_def holds_def idle_def quiet_reads_def)

lemma keeps_BodyReadsAsync: "keeps (reading env t k) (BodyReadsAsync env)"
  unfolding BodyReadsAsync_def
  by (intro keeps_bnd keeps_gets triple_if triple_Let triple_case_prod keeps_andThen
        triple_modify triple_ret)
     (auto simp: reading_def)

lemma drained_done:
  assumes "drained env t w"
  shows "\<exists>r. w_rsc w = Some r \<and> drained env t (w\<lparr>w_rsc := Some (r\<lparr>m_BodyReadState := BRS_DONE\<rparr>)\<rparr>)"
proof -
  from assms obtain r where r: "w_rsc w = Some r" "body_due t w" by (auto simp: drained_def)
  have "body_due t (w\<lparr>w_rsc := Some (r\<lparr>m_BodyReadState := BRS_DONE\<rparr>)\<rparr>)"
    by (rule body_due_frame[OF r(2,1)]) simp
  with assms r show ?thesis by (auto simp: drained_def)
qed

lemma triple_PumpBodyRead:
  assumes host: "body_host env"
  shows "triple (reading env t k) (PumpBodyRead env) (settled env t) (\<lambda>_. loyal env)"
  unfolding PumpBodyRead_def
proof (rule triple_if)
  have resp: "has_response env" using host by (simp add: body_host_def)
  have "triple (drained env t) (andThen (set_rsc (\<lambda>r. r\<lparr>m_BodyReadState := BRS_DONE\<rparr>)) (FinishBodyRead env))
      (settled env t) (\<lambda>_. loyal env)"
    by (rule triple_andThen[OF triple_set_rsc triple_FinishBodyRead[OF resp]]) (rule drained_done)
  then show "triple (reading env t k)
      (andThen (set_rsc (\<lambda>r. r\<lparr>m_BodyReadState := BRS_DONE\<rparr>)) (FinishBodyRead env))
      (settled env t) (\<lambda>_. loyal env)"
    by (rule triple_pre) (rule reading_drained[OF _ host])
  have async: "triple (reading env t k) (BodyReadsAsync env) (\<lambda>_. reading env t k) (\<lambda>_. loyal env)"
    by (rule triple_conseq[OF keeps_BodyReadsAsync]) (auto intro: reading_loyal)
  have loop: "triple (reading env t k) (pump_loop env a (cap_of env))
     (\<lambda>x w. \<exists>st. x = Some st \<and> settled env t st w) (\<lambda>_. loyal env)" for a
    by (rule triple_pump_loop[OF host]) simp
  have out: "triple (\<lambda>w. \<exists>st. x = Some st \<and> settled env t st w)
     (case x of Some status \<Rightarrow> ret status | None \<Rightarrow> undef) (settled env t) (\<lambda>_. loyal env)" for x
    by (cases x) (auto intro!: triple_ret triple_undef)
  show "triple (reading env t k) (bnd (BodyReadsAsync env) (\<lambda>async.
           bnd (pump_loop env async (cap_of env)) (\<lambda>r.
             case r of Some status \<Rightarrow> ret status | None \<Rightarrow> undef))) (settled env t) (\<lambda>_. loyal env)"
    by (rule triple_bnd[OF async triple_bnd[OF loop out]])
qed

text \<open>A context whose request phase has run its headers: nothing has been read.\<close>

definition fresh_body :: "env \<Rightarrow> nat \<Rightarrow> world \<Rightarrow> bool" where
  "fresh_body env t w \<longleftrightarrow> body_due t w \<and> faithful (cap_of env) (w_evs w) \<and>
     received (w_evs w) = [] \<and> (\<exists>r. w_rsc w = Some r \<and> m_Body r = [])"

lemma fresh_drained: "fresh_body env t w \<Longrightarrow> drained env t w"
  by (auto simp: fresh_body_def drained_def)

lemma fresh_loyal: "fresh_body env t w \<Longrightarrow> loyal env w"
  by (auto intro: drained_loyal fresh_drained)

lemma GetEntityBodyInfo_total:
  assumes "\<And>req. reqp = Some req \<Longrightarrow> valid_known (req_KnownHeaders req ''HttpHeaderContentLength'')"
  shows "\<exists>info. GetEntityBodyInfo reqp s = (Ok info, s)"
  using assms unfolding GetEntityBodyInfo_def valid_known_def
  by (auto simp: prog_defs Let_def not_less split: option.split)

lemma triple_BeginBodyRead:
  assumes host: "body_host env"
  shows "triple (fresh_body env t) (BeginBodyRead env) (settled env t) (\<lambda>_. loyal env)"
proof -
  have resp: "has_response env" using host by (simp add: body_host_def)
  have fin: "triple (fresh_body env t) (FinishBodyRead env) (settled env t) (\<lambda>_. loyal env)"
    by (rule triple_pre[OF triple_FinishBodyRead[OF resp] fresh_drained])
  have info: "triple (fresh_body env t) (GetEntityBodyInfo (raw_request env)) (\<lambda>_. fresh_body env t) (\<lambda>_. loyal env)"
    by (rule triple_pure, rule GetEntityBodyInfo_total) (use host in \<open>simp add: body_host_def\<close>)
  have alloc: "triple (fresh_body env t) (whenever c (heap_alloc env)) (\<lambda>_. fresh_body env t) (\<lambda>_. loyal env)"
    "triple (reading env t 0) (whenever c (heap_alloc env)) (\<lambda>_. reading env t 0) (\<lambda>_. loyal env)" for c
    by (auto simp: triple_def heap_alloc_def prog_defs intro: fresh_loyal reading_loyal)
  have declare_body: "triple (fresh_body env t) (set_rsc (\<lambda>r. r\<lparr>m_HasBody := True, m_DeclaredBodyLength := n\<rparr>))
      (\<lambda>_. fresh_body env t) (\<lambda>_. loyal env)" for n
    by (rule triple_set_rsc)
       (auto simp: fresh_body_def
          intro!: body_due_frame[where f = "\<lambda>r. r\<lparr>m_HasBody := True, m_DeclaredBodyLength := n\<rparr>"])
  have resize: "triple (fresh_body env t) (set_rsc (\<lambda>r. r\<lparr>m_ReadBuf :=
       vec_resize kBodyReadChunkSize (m_ReadBuf r)\<rparr>))
      (\<lambda>_. reading env t 0) (\<lambda>_. loyal env)"
    by (rule triple_set_rsc)
       (use max_inspect_bounds(1)[of env] in
        \<open>auto simp: fresh_body_def reading_def word_less_nat_alt
          intro!: body_due_frame[where f = "\<lambda>r. r\<lparr>m_ReadBuf :=
            vec_resize kBodyReadChunkSize (m_ReadBuf r)\<rparr>"]\<close>)
  show ?thesis
    unfolding BeginBodyRead_def
    by (intro triple_if fin triple_bnd[OF info] triple_andThen[OF declare_body]
          triple_andThen[OF alloc(1)[of True, unfolded whenever_def if_True]] triple_andThen[OF resize]
          triple_andThen[OF alloc(2)] triple_PumpBodyRead[OF host])
qed

section \<open>The completion handler is faithful\<close>

text \<open>IIS has written the bytes of the outstanding read into the buffer and posts its completion.\<close>

definition arrived :: "env \<Rightarrow> nat \<Rightarrow> nat \<Rightarrow> world \<Rightarrow> bool" where
  "arrived env t n w \<longleftrightarrow> ctx_inv w \<and> outstanding (w_evs w) = 1 \<and> faithful (cap_of env) (w_evs w) \<and>
     ProcessRequestBody \<notin> set (calls_of t (w_evs w)) \<and>
     (\<exists>r. w_rsc w = Some r \<and> m_pTx r = Some t \<and> m_BodyReadState r = BRS_READ_PENDING \<and>
        received (w_evs w) = m_Body r @ take n (m_ReadBuf r) \<and> n \<le> kBodyReadChunkSize \<and>
        length (m_ReadBuf r) = kBodyReadChunkSize \<and> length (m_Body r) < cap_of env)"

lemma claim_fetched:
  assumes A: "arrived env t n w" and r: "w_rsc w = Some r"
  shows "claim_read w = (Ok True, w\<lparr>w_rsc := Some (r\<lparr>m_BodyReadState := BRS_IDLE\<rparr>),
       w_evs := w_evs w @ [ReadClaimed]\<rparr>)"
    and "fetched env t 0 n (w\<lparr>w_rsc := Some (r\<lparr>m_BodyReadState := BRS_IDLE\<rparr>),
       w_evs := w_evs w @ [ReadClaimed]\<rparr>)"
proof -
  from A r show "claim_read w = (Ok True, w\<lparr>w_rsc := Some (r\<lparr>m_BodyReadState := BRS_IDLE\<rparr>),
       w_evs := w_evs w @ [ReadClaimed]\<rparr>)"
    by (auto simp: arrived_def claim_read_def prog_simps)
  have same: "calls_of u (w_evs w @ [ReadClaimed]) = calls_of u (w_evs w)"
    "tx_open u (w_evs w @ [ReadClaimed]) = tx_open u (w_evs w)"
    "tx_closed u (w_evs w @ [ReadClaimed]) = tx_closed u (w_evs w)"
    "phases_once u (w_evs w @ [ReadClaimed]) = phases_once u (w_evs w)" for u
    by (simp_all add: tx_open_def tx_closed_def phases_once_def live_def abandoned_def)
  have "ids_bounded (w_evs w @ [ReadClaimed])"
    using A by (auto simp: arrived_def ctx_inv_def ids_bounded_def less_Suc_eq)
  with A r have "ctx_inv (w\<lparr>w_rsc := Some (r\<lparr>m_BodyReadState := BRS_IDLE\<rparr>),
       w_evs := w_evs w @ [ReadClaimed]\<rparr>)"
    unfolding arrived_def ctx_inv_def by (auto simp: same simp del: calls_of_append)
  with A r show "fetched env t 0 n (w\<lparr>w_rsc := Some (r\<lparr>m_BodyReadState := BRS_IDLE\<rparr>),
       w_evs := w_evs w @ [ReadClaimed]\<rparr>)"
    by (auto simp: arrived_def fetched_def body_due_def holds_def idle_def quiet_reads_def outstanding_def)
qed

lemma report_total:
  "triple (loyal env) (ReportException site e) (\<lambda>_. loyal env) (\<lambda>_ _. False)"
proof -
  have total: "\<exists>v. ReportException site e w = (Ok (), v)" for w
    by (auto simp: ReportException_def WriteEventViewerLog_def prog_defs Let_def emit_def)
  show ?thesis
    using keeps_loyal_report[of env site e] total unfolding triple_def by (auto split: prod.splits outcome.splits) (metis outcome.distinct fst_conv)+
qed

text \<open>Every handler turns an exception into a status with which IIS ends the request.\<close>

lemma triple_caught:
  assumes "triple P m (settled env t) (\<lambda>_. loyal env)"
  shows "triple P (try_catch m (\<lambda>e. andThen (ReportException site e)
     (ret RQ_NOTIFICATION_FINISH_REQUEST))) (settled env t) (\<lambda>_ _. False)"
proof (rule triple_try)
  have "triple P m (settled env t) (\<lambda>_. loyal env)" by (rule assms)
  then show "triple P m (settled env t) (\<lambda>_. loyal env)" .
  show "triple (loyal env) (andThen (ReportException site e) (ret RQ_NOTIFICATION_FINISH_REQUEST))
     (settled env t) (\<lambda>_ _. False)" for e
    by (rule triple_andThen[OF report_total]) (rule triple_ret, simp add: settled_def)
qed

lemma triple_completion:
  assumes host: "body_host env"
  shows "triple (arrived env t (unat cb)) (OnAsyncCompletion env True (Some (cb, ch)))
     (settled env t) (\<lambda>_ _. False)"
proof -
  let ?m = "bnd (ConsumeBodyChunk env (unat cb) ch) (\<lambda>finished. case finished of
                       Some status \<Rightarrow> ret status
                     | None \<Rightarrow> PumpBodyRead env)"
  have next_step: "triple (\<lambda>w. case x of Some st \<Rightarrow> settled env t st w | None \<Rightarrow> reading env t (Suc 0) w)
      (case x of Some status \<Rightarrow> ret status | None \<Rightarrow> PumpBodyRead env) (settled env t) (\<lambda>_. loyal env)" for x
    by (cases x) (auto intro: triple_ret triple_PumpBodyRead[OF host])
  note body = triple_caught[OF triple_bnd[OF triple_ConsumeBodyChunk[OF host] next_step],
      where site = "''OnAsyncCompletion''"]
  have "case OnAsyncCompletion env True (Some (cb, ch)) w of (Ok x, v) \<Rightarrow> settled env t x v
      | (Throw e, v) \<Rightarrow> False | (Undef, v) \<Rightarrow> False" if A: "arrived env t (unat cb) w" for w
  proof -
    from A obtain r where r: "w_rsc w = Some r" "m_pTx r = Some t" by (auto simp: arrived_def)
    let ?v = "w\<lparr>w_rsc := Some (r\<lparr>m_BodyReadState := BRS_IDLE\<rparr>), w_evs := w_evs w @ [ReadClaimed]\<rparr>"
    have "OnAsyncCompletion env True (Some (cb, ch)) w =
        try_catch ?m (\<lambda>e. andThen (ReportException ''OnAsyncCompletion'' e)
           (ret RQ_NOTIFICATION_FINISH_REQUEST)) ?v"
      using r claim_fetched(1)[OF A r(1)]
      by (simp add: OnAsyncCompletion_def run_bnd_Ok run_gets)
    with body[of "unat cb" ch] claim_fetched(2)[OF A r(1)] show ?thesis
      by (simp add: triple_def)
  qed
  then show ?thesis unfolding triple_def by blast
qed

lemma foreign_completion:
  assumes "\<And>r. w_rsc w = Some r \<Longrightarrow> m_pTx r \<noteq> None \<Longrightarrow> m_BodyReadState r \<noteq> BRS_READ_PENDING"
  shows "OnAsyncCompletion env c info w = (Ok RQ_NOTIFICATION_CONTINUE, w)"
  using assms
  by (cases "w_rsc w")
     (auto simp: OnAsyncCompletion_def prog_simps claim_read_def split: bool.split option.split)

section \<open>Properties\<close>

lemma restore_alloc_failure:
  assumes "w_rsc w = Some r" and "has_request env" and "m_Body r \<noteq> []"
    and "\<And>evs n. \<not> AllocateRequestMemory env evs n"
  shows "\<exists>m. (m = [] \<or> (\<exists>s. m = [EventLogged s EVENTLOG_ERROR_TYPE])) \<and>
     restore_body env w = (Ok (Inr True), w\<lparr>w_evs := w_evs w @ m\<rparr>)"
proof (cases "g_hEventLog w")
  case True
  with assms show ?thesis
    by (intro exI[of _ "[EventLogged (''ModSecurityIIS: AllocateRequestMemory failed while '' @
                ''re-forwarding the request body; the request will be '' @
                ''failed unless the engine blocks it'') EVENTLOG_ERROR_TYPE]"])
       (simp add: restore_body_def reinsert_def Let_def prog_simps WriteEventViewerLog_def)
next
  case False
  with assms show ?thesis
    by (intro exI[of _ "[]"])
       (simp add: restore_body_def reinsert_def Let_def prog_simps WriteEventViewerLog_def)
qed

text \<open>C1: when memory and insertion succeed and the engine neither throws nor intervenes,
  \<open>FinishBodyRead\<close> puts the whole accumulated body back in one insertion of exactly that size,
  shows the engine its prefix up to the inspection cap, runs the body phase once, asks once for
  an intervention, and lets the request continue.\<close>

theorem finish_body_exact:
  assumes "w_rsc w = Some r" and "m_pTx r = Some t" and "live t (w_evs w)" and "smooth env"
    and "has_request env" and "m_Body r \<noteq> []" and "length (m_Body r) < 2 ^ 32"
    and "\<And>evs n. AllocateRequestMemory env evs n" and "\<And>evs. InsertEntityBody env evs = S_OK"
    and "\<And>cs. tx_intervention env cs = None"
  shows "FinishBodyRead env w = (Ok RQ_NOTIFICATION_CONTINUE, w\<lparr>w_evs := w_evs w @
     [MemAllocated (word_of_nat (length (m_Body r))), BodyInserted (m_Body r) S_OK,
      TxCall t (AppendRequestBody (take (unat (GetMaxInspectBodyBytes env)) (m_Body r))),
      TxCall t ProcessRequestBody, TxCall t Intervention]\<rparr>)"
proof -
  let ?b = "m_Body r"
  have nothrow: "\<And>cs c. tx_throws env cs c = None" and mem: "\<And>evs. \<not> bad_alloc env evs"
    using assms(4) by (auto simp: smooth_def)
  have size: "unat (word_of_nat (length ?b) :: DWORD) = length ?b"
    using assms(7) by (simp add: unat_of_nat)
  have cap: "0 < min (length ?b) (cap_of env)"
    using max_inspect_bounds(1)[of env] assms(6) by (simp add: word_less_nat_alt)
  have prefix_eq: "take (min (length ?b) n) ?b = take n ?b" for n by (simp add: min_def)
  let ?w1 = "w\<lparr>w_evs := w_evs w @ [MemAllocated (word_of_nat (length ?b)), BodyInserted ?b S_OK]\<rparr>"
  have restore: "restore_body env w = (Ok (Inr False), ?w1)"
    using assms(1,5,6,8,9) size by (simp add: restore_body_def reinsert_def Let_def prog_simps)
  have l1: "live t (w_evs ?w1)" using assms(3) by (simp add: live_def)
  let ?w2 = "w\<lparr>w_evs := w_evs ?w1 @ [TxCall t (AppendRequestBody (take (cap_of env) ?b)), TxCall t ProcessRequestBody]\<rparr>"
  have feed: "feed_body env ?w1 = (Ok (), ?w2)"
    using assms(1,2) l1 nothrow cap
    by (simp add: feed_body_def prefix_eq prog_simps live_append)
  have deliver: "deliver_body env w = (Ok (Inr False), ?w2)"
    using restore feed by (simp add: deliver_body_def prog_simps)
  have "ApplyIntervention env True ?w2 = (Ok False, ?w2\<lparr>w_evs := w_evs ?w2 @ [TxCall t Intervention]\<rparr>)"
    using run_ApplyIntervention[of ?w2 r t env True] assms(1,2,4,10) l1 by (simp add: live_append)
  with deliver show ?thesis
    by (simp add: FinishBodyRead_def body_verdict_def prog_simps)
qed

definition body_world :: "bytes \<Rightarrow> world" where
  "body_world b = start_world\<lparr>w_rsc := Some (new_request_ctx\<lparr>m_pTx := Some 0,
     m_pRules := Some quiet_rules, m_Body := b\<rparr>), w_evs := [TxNew 0, CtxNew]\<rparr>"

lemma body_world_facts [simp]:
  "w_rsc (body_world b) = Some (new_request_ctx\<lparr>m_pTx := Some 0, m_pRules := Some quiet_rules, m_Body := b\<rparr>)"
  "w_evs (body_world b) = [TxNew 0, CtxNew]" "live 0 [TxNew 0, CtxNew]"
  by (simp_all add: body_world_def live_def)

lemma smooth_quiet [simp]: "smooth quiet_env"
  by (simp add: smooth_def)

theorem finish_body_exact_witness:
  "\<exists>v. FinishBodyRead quiet_env (body_world ''a=1'') = (Ok RQ_NOTIFICATION_CONTINUE, v) \<and>
     BodyInserted ''a=1'' S_OK \<in> set (w_evs v)"
  using finish_body_exact[of "body_world ''a=1''" _ 0 quiet_env] by simp

text \<open>C24: when the request memory for the re-inserted body cannot be allocated and the engine
  allows the request, the request is finished with status 500 instead of reaching the
  application with a truncated body; the engine has still inspected what was read.\<close>

theorem restore_failure_is_500:
  assumes "w_rsc w = Some r" and "m_pTx r = Some t" and "live t (w_evs w)" and "smooth env"
    and "has_request env" and "m_Body r \<noteq> []"
    and "\<And>evs n. \<not> AllocateRequestMemory env evs n" and "\<And>cs. tx_intervention env cs = None"
  shows "\<exists>v es. FinishBodyRead env w = (Ok RQ_NOTIFICATION_FINISH_REQUEST, v) \<and> w_evs v = w_evs w @ es \<and>
     cv_status (client_sees (w_evs v)) = 500 \<and>
     calls_of t es = [AppendRequestBody (take (unat (GetMaxInspectBodyBytes env)) (m_Body r)),
        ProcessRequestBody, Intervention] \<and> (\<forall>b hr. BodyInserted b hr \<notin> set es)"
proof -
  let ?b = "m_Body r"
  have nothrow: "\<And>cs c. tx_throws env cs c = None" and resp: "has_response env"
    using assms(4) by (auto simp: smooth_def)
  have cap: "0 < min (length ?b) (cap_of env)"
    using max_inspect_bounds(1)[of env] assms(6) by (simp add: word_less_nat_alt)
  have prefix_eq: "take (min (length ?b) n) ?b = take n ?b" for n by (simp add: min_def)
  obtain m where m: "m = [] \<or> (\<exists>s. m = [EventLogged s EVENTLOG_ERROR_TYPE])"
    and restore: "restore_body env w = (Ok (Inr True), w\<lparr>w_evs := w_evs w @ m\<rparr>)"
    using assms(1,5,6,7) restore_alloc_failure[of w r env] by blast
  let ?w1 = "w\<lparr>w_evs := w_evs w @ m\<rparr>"
  have l1: "live t (w_evs w @ m)" using assms(3) m by (auto simp: live_def)
  let ?calls = "[TxCall t (AppendRequestBody (take (cap_of env) ?b)), TxCall t ProcessRequestBody]"
  let ?w2 = "w\<lparr>w_evs := (w_evs w @ m) @ ?calls\<rparr>"
  have feed: "feed_body env ?w1 = (Ok (), ?w2)"
    using assms(1,2) l1 nothrow cap
    by (simp add: feed_body_def prefix_eq prog_simps live_append)
  have deliver: "deliver_body env w = (Ok (Inr True), ?w2)"
    using restore feed by (simp add: deliver_body_def prog_simps)
  have l2: "live t (w_evs ?w2)" using l1 by (simp add: live_append)
  have verdict: "ApplyIntervention env True ?w2 = (Ok False, ?w2\<lparr>w_evs := w_evs ?w2 @ [TxCall t Intervention]\<rparr>)"
    using run_ApplyIntervention[of ?w2 r t env True] assms(1,2,4,8) l2 by simp
  let ?es = "m @ ?calls @ [TxCall t Intervention, RespSetStatus 500 ''Internal Server Error'']"
  have run: "FinishBodyRead env w = (Ok RQ_NOTIFICATION_FINISH_REQUEST, w\<lparr>w_evs := w_evs w @ ?es\<rparr>)"
    using deliver verdict resp by (simp add: FinishBodyRead_def body_verdict_def prog_simps)
  show ?thesis
    by (intro exI[of _ "w\<lparr>w_evs := w_evs w @ ?es\<rparr>"] exI[of _ ?es] conjI run)
       (use m in \<open>auto simp: client_sees_append\<close>)
qed

theorem restore_failure_is_500_witness:
  "\<exists>v. FinishBodyRead (quiet_env\<lparr>AllocateRequestMemory := \<lambda>_ _. False\<rparr>) (body_world ''a=1'') =
       (Ok RQ_NOTIFICATION_FINISH_REQUEST, v) \<and> cv_status (client_sees (w_evs v)) = 500"
  using restore_failure_is_500[of "body_world ''a=1''"
      "new_request_ctx\<lparr>m_pTx := Some 0, m_pRules := Some quiet_rules, m_Body := ''a=1''\<rparr>" 0
      "quiet_env\<lparr>AllocateRequestMemory := \<lambda>_ _. False\<rparr>"]
  by (fastforce simp: smooth_def)

text \<open>C36: when IIS refuses the re-inserted body, the request is finished at once: the engine's
  body phase never runs and no status is set, so that the client is left with whatever the
  response object says, where the allocation failure above answers 500.\<close>

theorem insert_failure_sets_no_status:
  assumes "w_rsc w = Some r" and "has_request env" and "m_Body r \<noteq> []" and "length (m_Body r) < 2 ^ 32"
    and "\<And>evs n. AllocateRequestMemory env evs n" and "\<And>evs. FAILED (InsertEntityBody env evs)"
  shows "\<exists>v es. FinishBodyRead env w = (Ok RQ_NOTIFICATION_FINISH_REQUEST, v) \<and> w_evs v = w_evs w @ es \<and>
     client_sees (w_evs v) = client_sees (w_evs w) \<and> calls_of t es = [] \<and> w_rsc v = w_rsc w"
proof -
  let ?b = "m_Body r"
  let ?hr = "InsertEntityBody env (w_evs w @ [MemAllocated (word_of_nat (length ?b))])"
  let ?es = "[MemAllocated (word_of_nat (length ?b)), BodyInserted ?b ?hr] @
     (if g_hEventLog w then [EventLogged (''ModSecurityIIS: InsertEntityBody failed while '' @
          ''re-forwarding the request body; failing the request'') EVENTLOG_ERROR_TYPE] else [])"
  have size: "unat (word_of_nat (length ?b) :: DWORD) = length ?b"
    using assms(4) by (simp add: unat_of_nat)
  have "FinishBodyRead env w = (Ok RQ_NOTIFICATION_FINISH_REQUEST, w\<lparr>w_evs := w_evs w @ ?es\<rparr>)"
    using assms(1,2,3,5,6) size
    by (cases "g_hEventLog w")
       (simp_all add: FinishBodyRead_def deliver_body_def restore_body_def reinsert_def Let_def
          WriteEventViewerLog_def prog_simps)
  then show ?thesis
    by (intro exI[of _ "w\<lparr>w_evs := w_evs w @ ?es\<rparr>"] exI[of _ ?es]) (simp add: client_sees_append)
qed

theorem insert_failure_sets_no_status_witness:
  "\<exists>v es. FinishBodyRead (quiet_env\<lparr>InsertEntityBody := \<lambda>_. E_UNEXPECTED\<rparr>) (body_world ''a=1'') =
       (Ok RQ_NOTIFICATION_FINISH_REQUEST, v) \<and> w_evs v = [TxNew 0, CtxNew] @ es \<and> calls_of 0 es = []"
  using insert_failure_sets_no_status[of "body_world ''a=1''"
      "new_request_ctx\<lparr>m_pTx := Some 0, m_pRules := Some quiet_rules, m_Body := ''a=1''\<rparr>"
      "quiet_env\<lparr>InsertEntityBody := \<lambda>_. E_UNEXPECTED\<rparr>" 0]
  by fastforce

text \<open>A chunk with bytes, after they were appended.\<close>

definition consume_rest :: "env \<Rightarrow> HRESULT \<Rightarrow> request_ctx \<Rightarrow> notification_status option wprog" where
  "consume_rest env hr r =
     (if HRESULT_CODE hr = ERROR_HANDLE_EOF then body_done env
      else if FAILED hr then body_done env
      else if m_DeclaredBodyLength r \<noteq> 0 \<and> length (m_Body r) \<ge> unat (m_DeclaredBodyLength r) then body_done env
      else if length (m_Body r) \<ge> cap_of env
      then bnd (gets s_capLogged) (\<lambda>seen.
           andThen (whenever (\<not> seen)
             (andThen (modify (\<lambda>w. w\<lparr>s_capLogged := True\<rparr>))
                (WriteEventViewerLog (Some cap_message) EVENTLOG_WARNING_TYPE)))
           (body_done env))
      else ret None)"

lemma consume_start:
  assumes "w_rsc w = Some r" and "0 < n" and "n \<le> length (m_ReadBuf r)" and "\<not> bad_alloc env (w_evs w)"
  shows "ConsumeBodyChunk env n hr w =
     consume_rest env hr (r\<lparr>m_Body := m_Body r @ take n (m_ReadBuf r)\<rparr>)
       (w\<lparr>w_rsc := Some (r\<lparr>m_Body := m_Body r @ take n (m_ReadBuf r)\<rparr>)\<rparr>)"
  using assms by (simp add: ConsumeBodyChunk_def consume_rest_def prog_simps Let_def unat_gt_0)

text \<open>C19: a chunk asks for another read exactly when it is not the end of the body: it brought
  bytes, without the end-of-file code and without a failure, the declared length (if any) is
  not reached, and the inspection cap is not reached. The size of the chunk itself does not
  matter: a short read never ends the body.\<close>

theorem next_read_iff:
  assumes "w_rsc w = Some r" and "n \<le> length (m_ReadBuf r)" and "\<not> bad_alloc env (w_evs w)"
  shows "(\<exists>v. ConsumeBodyChunk env n hr w = (Ok None, v)) \<longleftrightarrow>
     0 < n \<and> HRESULT_CODE hr \<noteq> ERROR_HANDLE_EOF \<and> \<not> FAILED hr \<and>
     (m_DeclaredBodyLength r = 0 \<or> length (m_Body r) + n < unat (m_DeclaredBodyLength r)) \<and>
     length (m_Body r) + n < unat (GetMaxInspectBodyBytes env)"
proof -
  let ?r = "r\<lparr>m_Body := m_Body r @ take n (m_ReadBuf r)\<rparr>"
  let ?w = "if n = 0 then w else w\<lparr>w_rsc := Some ?r\<rparr>"
  have ended: "body_done env u \<noteq> (Ok None, v)" for u v
    by (simp add: body_done_def andThen_def bnd_def ret_def split: prod.split outcome.split)
  have cap: "andThen m (body_done env) u \<noteq> (Ok None, v)" for m :: "unit wprog" and u v
    using ended by (simp add: andThen_def bnd_def split: prod.split outcome.split)
  have len: "length (m_Body r @ take n (m_ReadBuf r)) = length (m_Body r) + n"
    using assms(2) by simp
  show ?thesis
  proof (cases "n = 0")
    case True
    with assms(1) ended show ?thesis by (simp add: ConsumeBodyChunk_def prog_simps Let_def)
  next
    case False
    note start = consume_start[OF assms(1) _ assms(2,3), of hr]
    show ?thesis
      using False ended cap start
      by (auto simp: consume_rest_def Let_def len run_bnd_Ok[OF run_gets] ret_def unat_gt_0 not_le simp del: length_append)
  qed
qed

definition reader_ctx :: "nat \<Rightarrow> body_read_state \<Rightarrow> request_ctx" where
  "reader_ctx n st = new_request_ctx\<lparr>m_pTx := Some 0, m_pRules := Some quiet_rules,
     m_Body := replicate n NUL, m_ReadBuf := replicate kBodyReadChunkSize NUL, m_BodyReadState := st\<rparr>"

definition reader_world :: "nat \<Rightarrow> body_read_state \<Rightarrow> event list \<Rightarrow> world" where
  "reader_world n st evs = start_world\<lparr>w_rsc := Some (reader_ctx n st), w_evs := [TxNew 0, CtxNew] @ evs\<rparr>"

lemma reader_facts [simp]:
  "w_rsc (reader_world n st evs) = Some (reader_ctx n st)"
  "w_evs (reader_world n st evs) = TxNew 0 # CtxNew # evs"
  "m_pTx (reader_ctx n st) = Some 0" "m_Body (reader_ctx n st) = replicate n NUL"
  "m_ReadBuf (reader_ctx n st) = replicate kBodyReadChunkSize NUL"
  "m_BodyReadState (reader_ctx n st) = st" "m_DeclaredBodyLength (reader_ctx n st) = 0"
  "m_pRules (reader_ctx n st) = Some quiet_rules" "\<not> m_ResponseBodyEvaluated (reader_ctx n st)"
  by (simp_all add: reader_world_def reader_ctx_def new_request_ctx_def)

lemma cap_quiet [simp]: "cap_of quiet_env = 1048576"
  by (simp add: GetMaxInspectBodyBytes_def)

theorem next_read_iff_witness:
  "\<exists>v. ConsumeBodyChunk quiet_env 1 S_OK (reader_world 0 BRS_IDLE []) = (Ok None, v)"
  using next_read_iff[of "reader_world 0 BRS_IDLE []" "reader_ctx 0 BRS_IDLE" 1 quiet_env S_OK]
  by (simp add: kBodyReadChunkSize_def HRESULT_CODE_def ERROR_HANDLE_EOF_def S_OK_def FAILED_def)

lemma pump_loop_more:
  "fst (pump_loop env a n w) \<noteq> Ok None \<Longrightarrow> pump_loop env a (n + m) w = pump_loop env a n w"
proof (induction n arbitrary: w)
  case 0
  then show ?case by (simp add: ret_def)
next
  case (Suc n)
  have later: "bnd (ConsumeBodyChunk env k hr) (\<lambda>x. case x of Some st \<Rightarrow> ret (Some st)
        | None \<Rightarrow> pump_loop env a (n + m)) u
      = bnd (ConsumeBodyChunk env k hr) (\<lambda>x. case x of Some st \<Rightarrow> ret (Some st)
        | None \<Rightarrow> pump_loop env a n) u"
    if "fst (bnd (ConsumeBodyChunk env k hr) (\<lambda>x. case x of Some st \<Rightarrow> ret (Some st)
        | None \<Rightarrow> pump_loop env a n) u) \<noteq> Ok None" for k hr u
    using that Suc.IH
    by (auto simp: bnd_def split: prod.splits outcome.splits option.splits)
  have step: "andThen c (bnd (ConsumeBodyChunk env k hr) (\<lambda>x. case x of Some st \<Rightarrow> ret (Some st)
        | None \<Rightarrow> pump_loop env a (n + m))) u
      = andThen c (bnd (ConsumeBodyChunk env k hr) (\<lambda>x. case x of Some st \<Rightarrow> ret (Some st)
        | None \<Rightarrow> pump_loop env a n)) u"
    if "fst (andThen c (bnd (ConsumeBodyChunk env k hr) (\<lambda>x. case x of Some st \<Rightarrow> ret (Some st)
        | None \<Rightarrow> pump_loop env a n)) u) \<noteq> Ok None" for c :: "unit wprog" and k hr u
    using that later
    by (auto simp: andThen_def bnd_def[of c] split: prod.splits outcome.splits)
  from Suc.prems show ?case
    by (auto simp: bnd_def[of "read_once env a"] step split: prod.splits outcome.splits option.splits)
qed

text \<open>C8: the read loop ends. From a state in which a body is being read, whatever reads return
  (bytes, errors, end of file, or a pended read), the loop comes to a status within as many
  turns as the inspection cap has bytes, and more fuel would not change its result: the
  bound of the model is no bound on the behaviour.\<close>

theorem read_loop_ends:
  assumes "body_host env" and "reading env t k w" and "unat (GetMaxInspectBodyBytes env) \<le> fuel"
  shows "pump_loop env async fuel w = pump_loop env async (unat (GetMaxInspectBodyBytes env)) w \<and>
     fst (pump_loop env async fuel w) \<noteq> Ok None \<and> fst (pump_loop env async fuel w) \<noteq> Undef"
proof -
  let ?n = "cap_of env"
  have T: "triple (reading env t k) (pump_loop env async ?n)
     (\<lambda>x w. \<exists>st. x = Some st \<and> settled env t st w) (\<lambda>_. loyal env)"
    by (rule triple_pump_loop[OF assms(1)]) simp
  have some: "fst (pump_loop env async ?n w) \<noteq> Ok None"
    using triple_Ok[OF T assms(2)] by (cases "pump_loop env async ?n w") auto
  have "pump_loop env async (?n + (fuel - ?n)) w = pump_loop env async ?n w"
    by (rule pump_loop_more[OF some])
  with assms(3) some triple_not_Undef[OF T assms(2)] show ?thesis by simp
qed

text \<open>a completion that is not ours changes nothing: if the request has no context, or no
  transaction any more, or no read outstanding, the handler answers CONTINUE and leaves the
  whole state as it was, whatever bytes and status the completion carries.\<close>

theorem foreign_completion_ignored:
  assumes "\<And>r. w_rsc w = Some r \<Longrightarrow> m_pTx r \<noteq> None \<Longrightarrow> m_BodyReadState r \<noteq> BRS_READ_PENDING"
  shows "OnAsyncCompletion env c info w = (Ok RQ_NOTIFICATION_CONTINUE, w)"
  by (rule foreign_completion) (rule assms)

theorem foreign_completion_ignored_witness:
  "OnAsyncCompletion quiet_env True (Some (8192, S_OK)) (reader_world 5 BRS_DONE [])
     = (Ok RQ_NOTIFICATION_CONTINUE, reader_world 5 BRS_DONE [])"
  by (rule foreign_completion_ignored) simp

lemma body_host_quiet [simp]: "body_host quiet_env"
  by (simp add: body_host_def valid_known_def quiet_request_def no_header_def kBodyReadChunkSize_def)

lemma phases_none: "calls_of t evs = [] \<Longrightarrow> phases_once t evs"
  by (simp add: phases_once_def)

lemma reader_inv:
  assumes "calls_of 0 evs = []" and "\<forall>e \<in> set evs. \<forall>u. \<not> tx_event u e"
  shows "ctx_inv (reader_world n st evs)"
proof -
  have none: "calls_of t evs = []" for t
    using assms(2) by (induction evs) (auto split: event.splits)
  have ev: "TxNew t \<notin> set evs" "TxDelete t \<notin> set evs" "TxThrew t c \<notin> set evs" for t c
    using assms(2) by force+
  show ?thesis
    using assms none ev
    by (auto simp: ctx_inv_def ids_bounded_def phases_once_def tx_open_def tx_closed_def live_def abandoned_def)
qed

lemma reading_reader: "reading quiet_env 0 0 (reader_world 0 BRS_IDLE [])"
  using reader_inv[of "[]" 0 BRS_IDLE]
  by (simp add: reading_def body_due_def holds_def idle_def quiet_reads_def outstanding_def
      faithful_def received_def kBodyReadChunkSize_def)

theorem read_loop_ends_witness:
  "fst (pump_loop quiet_env True 2000000 (reader_world 0 BRS_IDLE [])) \<noteq> Ok None"
  by (rule conjunct1[OF conjunct2[OF read_loop_ends[of quiet_env 0 0]]]) (simp_all add: reading_reader)


lemma arrived_reader:
  "arrived quiet_env 0 0 (reader_world 0 BRS_READ_PENDING [ReadIssued True, ReadPended, ReadReturned [] S_OK])"
  using reader_inv[of "[ReadIssued True, ReadPended, ReadReturned [] S_OK]" 0 BRS_READ_PENDING]
  by (simp add: arrived_def outstanding_def faithful_def received_def kBodyReadChunkSize_def)

definition eof_handled :: "notification_status outcome \<times> world" where
  "eof_handled = OnAsyncCompletion quiet_env True (Some (0, S_OK))
     (reader_world 0 BRS_READ_PENDING [ReadIssued True, ReadPended, ReadReturned [] S_OK])"

lemma eof_handled_value: "fst eof_handled = Ok RQ_NOTIFICATION_CONTINUE"
  by (simp add: eof_handled_def OnAsyncCompletion_def claim_read_def ConsumeBodyChunk_def body_done_def
      FinishBodyRead_def deliver_body_def restore_body_def feed_body_def body_verdict_def
      ApplyIntervention_def prog_defs Let_def emit_def the_rsc_def set_rsc_def the_tx_def tx_call_def live_def)


text \<open>C31: the cap is clamped to what a DWORD holds, but the accumulated body may exceed the cap by
  almost a chunk. At the largest cap a body of 2^32 - 2 bytes still asks for more, the next
  full chunk makes it 2^32 + 65534 bytes, the DWORD casts then allocate 65534 bytes for it,
  and the copy runs past the allocation.\<close>

theorem dword_cast_overflow:
  assumes "GetMaxInspectBodyBytes env = 0xFFFFFFFF" and "has_request env"
    and "\<And>evs n. AllocateRequestMemory env evs n" and "\<And>evs. \<not> bad_alloc env evs"
    and "w_rsc w = Some r" and "m_DeclaredBodyLength r = 0"
    and "length (m_Body r) = 0xFFFFFFFE" and "length (m_ReadBuf r) = kBodyReadChunkSize"
  shows "\<exists>v. ConsumeBodyChunk env kBodyReadChunkSize S_OK w = (Undef, v) \<and>
     MemAllocated 65534 \<in> set (w_evs v)"
proof -
  let ?b = "m_Body r @ m_ReadBuf r"
  let ?r = "r\<lparr>m_Body := ?b\<rparr>"
  have len: "length ?b = 4294967296 + 65534"
    using assms(7,8) by (simp add: kBodyReadChunkSize_def)
  have cast: "(word_of_nat (length ?b) :: DWORD) = 65534"
    unfolding len by simp
  have ne: "?b \<noteq> []" using len by (metis list.size(3) add_is_0 zero_neq_numeral)
  have big: "\<not> length ?b \<le> unat (65534 :: DWORD)" unfolding len by simp
  have eof: "HRESULT_CODE S_OK \<noteq> ERROR_HANDLE_EOF" "\<not> FAILED S_OK" "kBodyReadChunkSize > 0"
    by (simp_all add: HRESULT_CODE_def S_OK_def ERROR_HANDLE_EOF_def FAILED_def kBodyReadChunkSize_def)
  have fin: "\<exists>v. FinishBodyRead env u = (Undef, v) \<and> MemAllocated 65534 \<in> set (w_evs v)"
    if "w_rsc u = Some (?r\<lparr>m_BodyReadState := BRS_DONE\<rparr>)" for u
    using that assms(2,3) ne big cast
    by (simp add: FinishBodyRead_def deliver_body_def restore_body_def reinsert_def Let_def prog_simps)
  have ended: "\<exists>v. body_done env u = (Undef, v) \<and> MemAllocated 65534 \<in> set (w_evs v)"
    if "w_rsc u = Some ?r" for u
    using fin[of "u\<lparr>w_rsc := Some (?r\<lparr>m_BodyReadState := BRS_DONE\<rparr>)\<rparr>"] that
    by (auto simp: body_done_def prog_simps)
  let ?log = "\<lambda>seen. andThen (whenever (\<not> seen)
       (andThen (modify (\<lambda>w. w\<lparr>s_capLogged := True\<rparr>))
          (WriteEventViewerLog (Some cap_message) EVENTLOG_WARNING_TYPE))) (body_done env)"
  have cap: "cap_of env \<le> length ?b" using assms(1) len by simp
  have chunk: "take kBodyReadChunkSize (m_ReadBuf r) = m_ReadBuf r" "\<not> kBodyReadChunkSize > length (m_ReadBuf r)"
    using assms(8) by simp_all
  have "ConsumeBodyChunk env kBodyReadChunkSize S_OK w = consume_rest env S_OK ?r (w\<lparr>w_rsc := Some ?r\<rparr>)"
    using consume_start[OF assms(5) eof(3), of env S_OK] assms(4) chunk by simp
  moreover have "consume_rest env S_OK ?r = bnd (gets s_capLogged) ?log"
    using eof(1,2) cap assms(6) by (simp add: consume_rest_def del: length_append)
  ultimately have "ConsumeBodyChunk env kBodyReadChunkSize S_OK w = bnd (gets s_capLogged) ?log (w\<lparr>w_rsc := Some ?r\<rparr>)"
    by simp
  then have "ConsumeBodyChunk env kBodyReadChunkSize S_OK w
      = ?log (s_capLogged w) (w\<lparr>w_rsc := Some ?r\<rparr>)"
    by (simp add: run_bnd_Ok[OF run_gets])
  moreover have "\<exists>u. ?log (s_capLogged w) (w\<lparr>w_rsc := Some ?r\<rparr>) = body_done env u \<and> w_rsc u = Some ?r"
  proof (cases "s_capLogged w")
    case True
    then show ?thesis by (intro exI[of _ "w\<lparr>w_rsc := Some ?r\<rparr>"]) (simp add: prog_simps)
  next
    case False
    then show ?thesis
      by (intro exI[of _ "w\<lparr>w_rsc := Some ?r, s_capLogged := True, w_evs := w_evs w @
            (if g_hEventLog w then [EventLogged cap_message EVENTLOG_WARNING_TYPE] else [])\<rparr>"])
         (cases "g_hEventLog w",
          simp_all add: andThen_def bnd_def whenever_def WriteEventViewerLog_def prog_simps)
  qed
  ultimately show ?thesis using ended by metis
qed

definition largest_cap_env :: env where
  "largest_cap_env = quiet_env\<lparr>GetEnvironmentVariableA :=
     \<lambda>_ _. (length (to_dec 4294967295), to_dec 4294967295)\<rparr>"

theorem dword_cast_overflow_witness:
  "\<exists>v. ConsumeBodyChunk largest_cap_env kBodyReadChunkSize S_OK (reader_world 0xFFFFFFFE BRS_IDLE []) = (Undef, v)"
proof -
  have "unat (GetMaxInspectBodyBytes largest_cap_env) = min 4294967295 0xFFFFFFFF"
    by (rule max_inspect_value) (simp_all add: largest_cap_env_def)
  then have "GetMaxInspectBodyBytes largest_cap_env = 0xFFFFFFFF"
    by (simp add: word_unat_eq_iff)
  then show ?thesis
    using dword_cast_overflow[of largest_cap_env "reader_world 0xFFFFFFFE BRS_IDLE []" "reader_ctx 0xFFFFFFFE BRS_IDLE"]
    by (auto simp: largest_cap_env_def)
qed

end
