(* ===== verification/Begin_Request.thy ===== *)
theory Begin_Request
  imports Body_Read
begin

text \<open>
  The entry handler \<open>OnBeginRequest\<close> of \<open>src/ModSecurityIIS.cpp\<close>: configuration, rules, the
  transaction and its stored context, the request phase of the engine, and the start of the
  body phase. The theorems say what the engine is told, that no request is let through
  uninspected without one of the listed reasons, and that nothing escapes the handler.
\<close>

section \<open>What the engine is told\<close>

text \<open>The table of the \<open>_TRANSHEADER\<close> macro, in its order.\<close>

definition request_headers :: "(http_header_id \<times> string) list" where
  "request_headers =
    [(''HttpHeaderCacheControl'', ''Cache-Control''), (''HttpHeaderConnection'', ''Connection''),
     (''HttpHeaderDate'', ''Date''), (''HttpHeaderKeepAlive'', ''Keep-Alive''),
     (''HttpHeaderPragma'', ''Pragma''), (''HttpHeaderTrailer'', ''Trailer''),
     (''HttpHeaderTransferEncoding'', ''Transfer-Encoding''), (''HttpHeaderUpgrade'', ''Upgrade''),
     (''HttpHeaderVia'', ''Via''), (''HttpHeaderWarning'', ''Warning''),
     (''HttpHeaderAllow'', ''Allow''), (''HttpHeaderContentLength'', ''Content-Length''),
     (''HttpHeaderContentType'', ''Content-Type''),
     (''HttpHeaderContentEncoding'', ''Content-Encoding''),
     (''HttpHeaderContentLanguage'', ''Content-Language''),
     (''HttpHeaderContentLocation'', ''Content-Location''),
     (''HttpHeaderContentMd5'', ''Content-Md5''), (''HttpHeaderContentRange'', ''Content-Range''),
     (''HttpHeaderExpires'', ''Expires''), (''HttpHeaderLastModified'', ''Last-Modified''),
     (''HttpHeaderAccept'', ''Accept''), (''HttpHeaderAcceptCharset'', ''Accept-Charset''),
     (''HttpHeaderAcceptEncoding'', ''Accept-Encoding''),
     (''HttpHeaderAcceptLanguage'', ''Accept-Language''),
     (''HttpHeaderAuthorization'', ''Authorization''), (''HttpHeaderCookie'', ''Cookie''),
     (''HttpHeaderExpect'', ''Expect''), (''HttpHeaderFrom'', ''From''),
     (''HttpHeaderHost'', ''Host''), (''HttpHeaderIfMatch'', ''If-Match''),
     (''HttpHeaderIfModifiedSince'', ''If-Modified-Since''),
     (''HttpHeaderIfNoneMatch'', ''If-None-Match''), (''HttpHeaderIfRange'', ''If-Range''),
     (''HttpHeaderIfUnmodifiedSince'', ''If-Unmodified-Since''),
     (''HttpHeaderMaxForwards'', ''Max-Forwards''),
     (''HttpHeaderProxyAuthorization'', ''Proxy-Authorization''),
     (''HttpHeaderReferer'', ''Referer''), (''HttpHeaderRange'', ''Range''),
     (''HttpHeaderTe'', ''TE''), (''HttpHeaderTranslate'', ''Translate''),
     (''HttpHeaderUserAgent'', ''User-Agent'')]"

text \<open>
  One header of a table, and one of the list of unknown headers. The request and the response
  handler share the shape and differ in the call \<open>add\<close>.
\<close>

definition known_header_step ::
  "env \<Rightarrow> nat \<Rightarrow> (string \<Rightarrow> string \<Rightarrow> tx_call) \<Rightarrow> (http_header_id \<Rightarrow> known_header)
     \<Rightarrow> http_header_id \<times> string \<Rightarrow> unit wprog" where
  "known_header_step env tx add headers entry =
     (case pRawValue (headers (fst entry)) of
        None \<Rightarrow> ret ()
      | Some mem \<Rightarrow>
          andThen (heap_alloc env)
            (bnd (AToUtf8 (Some mem) (uint (RawValueLength (headers (fst entry)))))
               (\<lambda>v. tx_call env tx (add (snd entry) (c_str v)))))"

definition unknown_header_step ::
  "env \<Rightarrow> nat \<Rightarrow> (string \<Rightarrow> string \<Rightarrow> tx_call) \<Rightarrow> unknown_header \<Rightarrow> unit wprog" where
  "unknown_header_step env tx add h =
     andThen (heap_alloc env)
       (bnd (AToUtf8 (uh_pName h) (uint (uh_NameLength h))) (\<lambda>name.
        bnd (AToUtf8 (uh_pRawValue h) (uint (uh_RawValueLength h))) (\<lambda>val.
          tx_call env tx (add (c_str name) (c_str val)))))"

definition feed_connection :: "env \<Rightarrow> nat \<Rightarrow> unit wprog" where
  "feed_connection env tx =
     (let clientIp = SockAddrToIp env (remote_addr env);
          clientPort = SockAddrToPort env (remote_addr env);
          (serverIp, serverPort) =
            (case local_addr env of
               None \<Rightarrow> ('''', 0)
             | Some a \<Rightarrow> (SockAddrToIp env (Some a), SockAddrToPort env (Some a)))
      in andThen (heap_alloc env)
           (tx_call env tx (ProcessConnection (c_str clientIp) clientPort (c_str serverIp) serverPort)))"

definition request_uri :: "env \<Rightarrow> http_request \<Rightarrow> ('s, string) prog" where
  "request_uri env req =
     (case pRawUrl req of
        Some mem \<Rightarrow> AToUtf8 (Some mem) (uint (RawUrlLength req))
      | None \<Rightarrow>
          bnd (WToUtf8 env (pAbsPath req) (uint (AbsPathLength req))) (\<lambda>path.
            if unat (QueryStringLength req) \<ge> 2
            then (case pQueryString req of
                    None \<Rightarrow> undef
                  | Some q \<Rightarrow>
                      bnd (WToUtf8 env (Some (drop 1 q)) (uint (QueryStringLength req) - 2)) (\<lambda>query.
                        ret (path @ ''?'' @ query)))
            else ret path))"

definition feed_uri :: "env \<Rightarrow> nat \<Rightarrow> http_request \<Rightarrow> unit wprog" where
  "feed_uri env tx req =
     andThen (heap_alloc env)
       (bnd (request_uri env req) (\<lambda>uri.
        bnd (VerbToString req) (\<lambda>method.
          let version = VersionToString (Version req)
          in andThen (set_rsc (\<lambda>r. r\<lparr>m_Protocol := version\<rparr>))
               (tx_call env tx (ProcessURI (c_str uri) (c_str method) (c_str version))))))"

text \<open>The request phase: connection, URI, known headers, unknown headers.\<close>

definition feed_request :: "env \<Rightarrow> nat \<Rightarrow> http_request \<Rightarrow> unit wprog" where
  "feed_request env tx req =
     andThen (feed_connection env tx)
       (andThen (feed_uri env tx req)
       (andThen (for_each (known_header_step env tx AddRequestHeader (req_KnownHeaders req)) request_headers)
       (andThen (for_each (unknown_header_step env tx AddRequestHeader) (req_UnknownHeaders req))
          (tx_call env tx ProcessRequestHeaders))))"

section \<open>The handler\<close>

text \<open>\<open>Inl\<close> is a \<open>return\<close> of the handler, \<open>Inr\<close> a \<open>break\<close> with its result code.\<close>

type_synonym begin_exit = "notification_status + HRESULT"

definition fail_closed_500 :: "env \<Rightarrow> HRESULT \<Rightarrow> begin_exit wprog" where
  "fail_closed_500 env hr =
     (if \<not> ConfigFailClosed env then ret (Inr hr)
      else andThen (whenever (has_response env) (emit (RespSetStatus 500 ''Internal Server Error'')))
             (ret (Inl RQ_NOTIFICATION_FINISH_REQUEST)))"

definition config_failed :: "env \<Rightarrow> begin_exit wprog" where
  "config_failed env =
     bnd (gets s_configFailLogged) (\<lambda>seen.
     andThen (modify (\<lambda>w. w\<lparr>s_configFailLogged := True\<rparr>))
     (andThen (whenever (\<not> seen)
        (WriteEventViewerLog (Some (''ModSecurityIIS: failed to read module configuration; '' @
            ''failing closed (request rejected).'')) EVENTLOG_ERROR_TYPE))
     (fail_closed_500 env S_OK)))"

definition rules_failed :: "env \<Rightarrow> HRESULT \<Rightarrow> string \<Rightarrow> string \<Rightarrow> begin_exit wprog" where
  "rules_failed env hr configFile rulesErr =
     bnd (gets s_rulesFailLogged) (\<lambda>seen.
     andThen (modify (\<lambda>w. w\<lparr>s_rulesFailLogged := True\<rparr>))
     (andThen (whenever (\<not> seen)
        (andThen (heap_alloc env)
          (WriteEventViewerLog (Some (c_str (''ModSecurityIIS: failed to load rules from '' @ [CHR 0x27] @
              configFile @ [CHR 0x27] @ '': '' @ rulesErr))) EVENTLOG_ERROR_TYPE)))
     (fail_closed_500 env hr)))"

text \<open>
  The transaction and its context. The container refuses a second context with
  ERROR_ALREADY_ASSIGNED; what it says of a first one is the environment's.
\<close>

definition set_module_context :: "env \<Rightarrow> request_ctx \<Rightarrow> HRESULT wprog" where
  "set_module_context env r =
     bnd (gets w_rsc) (\<lambda>slot.
     bnd (gets (\<lambda>w. SetModuleContext env (w_evs w))) (\<lambda>hr.
       if slot \<noteq> None then ret (HRESULT_FROM_WIN32 ERROR_ALREADY_ASSIGNED)
       else if FAILED hr then ret hr
       else andThen (modify (\<lambda>w. w\<lparr>w_rsc := Some r\<rparr>)) (ret hr)))"

text \<open>\<open>Inr\<close> is the transaction whose context IIS has taken, \<open>Inl\<close> the code of a \<open>break\<close>.\<close>

definition new_context :: "env \<Rightarrow> HRESULT \<Rightarrow> config \<Rightarrow> rules_set \<Rightarrow> (HRESULT + nat) wprog" where
  "new_context env hr pConfig rules =
     bnd (gets (\<lambda>w. length (w_evs w))) (\<lambda>tx.
     andThen (emit (TxNew tx))
     (bnd (gets (\<lambda>w. nothrow_null env (w_evs w))) (\<lambda>no_rsc.
      if no_rsc then andThen (tx_delete tx) (ret (Inl E_OUTOFMEMORY))
      else andThen (emit CtxNew)
       (let rsc = new_request_ctx\<lparr>m_pTx := Some tx, m_pRules := Some rules,
                    m_ResponseBodyBlock := m_bResponseBodyBlock pConfig\<rparr>
        in bnd (set_module_context env rsc) (\<lambda>shr.
           if FAILED shr
           then andThen (cleanup_ctx env rsc)
                  (ret (Inl (if shr = HRESULT_FROM_WIN32 ERROR_ALREADY_ASSIGNED then hr
                             else E_UNEXPECTED)))
           else ret (Inr tx))))))"

definition create_context :: "env \<Rightarrow> HRESULT \<Rightarrow> config \<Rightarrow> rules_set \<Rightarrow> (HRESULT + nat) wprog" where
  "create_context env hr pConfig rules =
     bnd (gets (\<lambda>w. nothrow_null env (w_evs w))) (\<lambda>no_tx.
      if no_tx then ret (Inl E_OUTOFMEMORY)
      else andThen (bnd (engine env) (\<lambda>_. heap_alloc env)) (new_context env hr pConfig rules))"

definition inspect_request :: "env \<Rightarrow> HRESULT \<Rightarrow> nat \<Rightarrow> begin_exit wprog" where
  "inspect_request env hr tx =
     (case raw_request env of
        None \<Rightarrow> ret (Inr hr)
      | Some req \<Rightarrow>
          andThen (feed_request env tx req)
            (bnd (ApplyIntervention env True) (\<lambda>blocked.
               if blocked then ret (Inl RQ_NOTIFICATION_FINISH_REQUEST)
               else bnd (BeginBodyRead env) (\<lambda>status. ret (Inl status)))))"

definition begin_configured :: "env \<Rightarrow> HRESULT \<Rightarrow> config \<Rightarrow> begin_exit wprog" where
  "begin_configured env hr pConfig =
     (if \<not> m_bIsEnabled pConfig then ret (Inr hr)
      else case m_pszPath pConfig of
             None \<Rightarrow> ret (Inr hr)
           | Some wpath \<Rightarrow>
               if wpath = [] then undef
               else if hd wpath = 0 then ret (Inr hr)
               else andThen (heap_alloc env)
                (bnd (WToUtf8 env (Some wpath) (int (wcslen wpath) * 2)) (\<lambda>configFile.
                 bnd (getRules env configFile) (\<lambda>(rules, rulesErr).
                   case rules of
                     None \<Rightarrow> rules_failed env hr configFile rulesErr
                   | Some rs \<Rightarrow>
                       bnd (create_context env hr pConfig rs) (\<lambda>created. case created of
                         Inl code \<Rightarrow> ret (Inr code)
                       | Inr tx \<Rightarrow> inspect_request env hr tx)))))"

definition begin_body :: "env \<Rightarrow> bool \<Rightarrow> begin_exit wprog" where
  "begin_body env has_context =
     (if \<not> has_context then ret (Inr E_UNEXPECTED)
      else if \<not> has_request env then ret (Inr E_UNEXPECTED)
      else bnd (GetConfig env) (\<lambda>(hr, pConfig).
        if FAILED hr then config_failed env
        else case pConfig of
               None \<Rightarrow> undef
             | Some cfg \<Rightarrow> begin_configured env hr cfg))"

definition OnBeginRequest :: "env \<Rightarrow> bool \<Rightarrow> notification_status wprog" where
  "OnBeginRequest env has_context =
     bnd (try_catch (begin_body env has_context)
            (\<lambda>e. andThen (ReportException ''OnBeginRequest'' e)
                   (ret (Inl RQ_NOTIFICATION_FINISH_REQUEST))))
       (\<lambda>exit. case exit of
          Inl status \<Rightarrow> ret status
        | Inr hr \<Rightarrow> if FAILED hr then ret RQ_NOTIFICATION_FINISH_REQUEST
                    else ret RQ_NOTIFICATION_CONTINUE)"

section \<open>Between requests\<close>

text \<open>
  No handler of the request is running: nothing is being read, the trace is faithful, and \<open>R\<close>
  is what IIS keeps for the request.
\<close>

definition calm :: "env \<Rightarrow> request_ctx option \<Rightarrow> world \<Rightarrow> bool" where
  "calm env R w \<longleftrightarrow> idle w \<and> faithful (cap_of env) (w_evs w) \<and> w_rsc w = R"

lemma idle_cong: "w_rsc v = w_rsc w \<Longrightarrow> w_evs v = w_evs w \<Longrightarrow> idle v = idle w"
  by (simp add: idle_def ctx_inv_def quiet_reads_def)

lemma calm_cong: "w_rsc v = w_rsc w \<Longrightarrow> w_evs v = w_evs w \<Longrightarrow> calm env R v = calm env R w"
  using idle_cong[of v w] by (simp add: calm_def)

lemma calm_emit:
  "calm env R w \<Longrightarrow> neutral e \<Longrightarrow> body_silent e \<Longrightarrow> calm env R (w\<lparr>w_evs := w_evs w @ [e]\<rparr>)"
  using silent_recv by (auto simp: calm_def idle_neutral)

lemma keeps_calm_emit [triple_intros]:
  "neutral e \<Longrightarrow> body_silent e \<Longrightarrow> keeps (calm env R) (emit e)"
  by (simp add: triple_def run_emit calm_emit)

lemma keeps_calm_log [triple_intros]: "keeps (calm env R) (WriteEventViewerLog m c)"
  unfolding WriteEventViewerLog_def by (intro triple_intros) auto

lemma keeps_calm_report [triple_intros]: "keeps (calm env R) (ReportException site e)"
  unfolding ReportException_def Let_def by (rule keeps_calm_log)

lemma keeps_calm_modify:
  assumes "\<And>w. w_rsc (f w) = w_rsc w \<and> w_evs (f w) = w_evs w"
  shows "keeps (calm env R) (modify f)"
proof (rule triple_modify)
  fix w assume "calm env R w"
  then show "calm env R (f w)" using calm_cong[of "f w" w env R] assms[of w] by simp
qed

lemma keeps_calm_engine [triple_intros]: "keeps (calm env R) (engine env')"
  unfolding engine_def by (intro triple_intros keeps_calm_modify) auto

text \<open>The events of the configuration reader and of the rules cache are neutral and silent.\<close>

lemma calm_config_evs:
  "calm env R w \<Longrightarrow> config_evs es \<Longrightarrow> calm env R (w\<lparr>w_evs := w_evs w @ es\<rparr>)"
proof (induction es arbitrary: w)
  case (Cons e es)
  from Cons.prems(2) have "e = ConfigNew \<or> e = ConfigDelete \<or> (\<exists>x. e = ComAcquire x \<or> e = ComRelease x)"
    and es: "config_evs es" unfolding config_evs_def by simp_all
  then have e: "neutral e" "body_silent e" by (elim disjE exE; simp)+
  from Cons.IH[OF calm_emit[OF Cons.prems(1) e] es] show ?case by simp
qed simp

lemma keeps_calm_getRules: "keeps (calm env R) (getRules env' file)"
  unfolding getRules_def
  by (intro triple_intros keeps_calm_modify) auto

text \<open>What the configuration system guarantees for a path.\<close>

definition config_host :: "env \<Rightarrow> bool" where
  "config_host env \<longleftrightarrow> com_contract (com env) \<and>
     (meta_SetModuleContext (com env) = HRESULT_FROM_WIN32 ERROR_ALREADY_ASSIGNED \<longrightarrow>
        (\<exists>c. concurrent_config (com env) = Some c \<and> m_pszPath c \<noteq> Some []))"

definition config_valid :: "world \<Rightarrow> bool" where
  "config_valid w \<longleftrightarrow> (\<forall>c. w_config w = Some c \<longrightarrow> m_pszPath c \<noteq> Some [])"

lemma GetConfig_calm:
  assumes host: "config_host env" and calm: "calm env R w" and valid: "config_valid w"
  shows "\<exists>hr c v. GetConfig env w = (Ok (hr, c), v) \<and> calm env R v \<and>
     (\<not> FAILED hr \<longrightarrow> (\<exists>cfg. c = Some cfg \<and> m_pszPath cfg \<noteq> Some []) \<and> config_valid v)"
proof -
  from host have con: "com_contract (com env)" by (simp add: config_host_def)
  obtain hr c es where g: "fst (GetConfig env w) = Ok (hr, c)"
    "config_evs es" "snd (GetConfig env w) = w\<lparr>w_evs := w_evs w @ es, w_config := w_config (snd (GetConfig env w))\<rparr>"
    "\<not> FAILED hr \<longrightarrow> w_config (snd (GetConfig env w)) = c"
    "\<not> FAILED hr \<longrightarrow> w_config w = None \<longrightarrow> c = Some (schema_config (com env)) \<or>
       meta_SetModuleContext (com env) = HRESULT_FROM_WIN32 ERROR_ALREADY_ASSIGNED \<and> c = concurrent_config (com env)"
    "w_config w \<noteq> None \<longrightarrow> FAILED hr \<or> c = w_config w"
    using GetConfig_run[OF con, of w] by (elim exE conjE) (rule that)
  have "calm env R (w\<lparr>w_evs := w_evs w @ es\<rparr>)" by (rule calm_config_evs[OF calm g(2)])
  then have v: "calm env R (snd (GetConfig env w))"
    by (subst g(3), subst calm_cong[where w = "w\<lparr>w_evs := w_evs w @ es\<rparr>"]) simp_all
  have path: "\<exists>cfg. c = Some cfg \<and> m_pszPath cfg \<noteq> Some []" if ok: "\<not> FAILED hr"
  proof (cases "w_config w")
    case None
    with g(5) ok host show ?thesis by (auto simp: config_host_def schema_config_def new_config_def)
  next
    case (Some cfg)
    with g(6) ok valid show ?thesis by (auto simp: config_valid_def)
  qed
  with g(1,4) v show ?thesis
    by (intro exI[of _ hr] exI[of _ c] exI[of _ "snd (GetConfig env w)"])
       (auto simp: config_valid_def prod_eq_iff)
qed

section \<open>The request phase keeps the body phase due\<close>

definition valid_unknown :: "unknown_header \<Rightarrow> bool" where
  "valid_unknown h \<longleftrightarrow>
     (\<forall>mem. uh_pName h = Some mem \<longrightarrow> unat (uh_NameLength h) \<le> length mem) \<and>
     (\<forall>mem. uh_pRawValue h = Some mem \<longrightarrow> unat (uh_RawValueLength h) \<le> length mem)"

text \<open>Every counted string of the request has at least as much memory as its length says.\<close>

definition valid_request :: "http_request \<Rightarrow> bool" where
  "valid_request req \<longleftrightarrow> (\<forall>h. valid_known (req_KnownHeaders req h)) \<and>
     (\<forall>h \<in> set (req_UnknownHeaders req). valid_unknown h) \<and>
     (\<forall>mem. pUnknownVerb req = Some mem \<longrightarrow> unat (UnknownVerbLength req) \<le> length mem) \<and>
     (\<forall>mem. pRawUrl req = Some mem \<longrightarrow> unat (RawUrlLength req) \<le> length mem) \<and>
     (\<forall>ws. pAbsPath req = Some ws \<longrightarrow> unat (AbsPathLength req) \<le> 2 * length ws) \<and>
     (\<forall>ws. pQueryString req = Some ws \<longrightarrow> unat (QueryStringLength req) \<le> 2 * length ws) \<and>
     (pQueryString req = None \<longrightarrow> unat (QueryStringLength req) < 2)"

text \<open>A call of the request phase.\<close>

definition header_call :: "tx_call \<Rightarrow> bool" where
  "header_call c \<longleftrightarrow> plain_call c \<and> (\<forall>b. c \<noteq> AppendRequestBody b)"

lemma header_calls [simp]:
  "header_call (ProcessConnection a b c d)" "header_call (ProcessURI u m v)"
  "header_call (AddRequestHeader n v)" "header_call ProcessRequestHeaders"
  "header_call (AddResponseHeader n v)" "header_call (ProcessResponseHeaders s pr)"
  "header_call (AppendResponseBody bs)" "header_call Intervention" "header_call (UpdateStatusCode s)"
  by (simp_all add: header_call_def)

lemma header_call_silent: "header_call c \<Longrightarrow> body_silent (TxCall t c)"
  by (cases c) (auto simp: header_call_def)

lemma keeps_fresh_call:
  assumes c: "header_call c"
  shows "keeps (fresh_body env t) (tx_call env t c)"
proof (rule triple_tx_call)
  fix w es assume F: "fresh_body env t w" and es: "es = [TxCall t c] \<or> es = [TxCall t c, TxThrew t c]"
  then have due: "body_due t w" by (simp add: fresh_body_def)
  have plain: "plain_call c" and nb: "\<And>b. c \<noteq> AppendRequestBody b" using c by (auto simp: header_call_def)
  from holds_after_call[OF body_due_holds[OF due] es plain]
  have "holds t (w\<lparr>w_evs := w_evs w @ es\<rparr>)" .
  moreover have "ProcessRequestBody \<notin> set (calls_of t (w_evs w @ es))"
    using due es plain by (auto simp: body_due_def plain_call_def)
  moreover have "received (w_evs w @ es) = received (w_evs w)" using es by (auto simp: received_def)
  moreover have "faithful (cap_of env) (w_evs w @ es)"
    using F es silent_recv[OF header_call_silent[OF c]]
    by (auto simp: fresh_body_def faithful_def faithful_from_append)
  ultimately show "fresh_body env t (w\<lparr>w_evs := w_evs w @ es\<rparr>)"
    using F by (simp add: fresh_body_def body_due_def)
qed (simp add: fresh_body_def body_due_def)

lemma keeps_fresh_protocol: "keeps (fresh_body env t) (set_rsc (\<lambda>r. r\<lparr>m_Protocol := p\<rparr>))"
  by (rule triple_set_rsc)
     (auto simp: fresh_body_def ctx_frame_def
        intro!: body_due_frame[where f = "\<lambda>r. r\<lparr>m_Protocol := p\<rparr>"])

lemma keeps_known_header:
  "(\<And>h. valid_known (headers h)) \<Longrightarrow> (\<And>n v. keeps I (tx_call env t (add n v))) \<Longrightarrow>
   keeps I (known_header_step env t add headers entry)"
  unfolding known_header_step_def
  by (intro triple_intros keeps_AToUtf8) (auto simp: valid_known_def)

lemma keeps_unknown_header:
  "valid_unknown h \<Longrightarrow> (\<And>n v. keeps I (tx_call env t (add n v))) \<Longrightarrow>
   keeps I (unknown_header_step env t add h)"
  unfolding unknown_header_step_def
  by (intro triple_intros keeps_AToUtf8) (auto simp: valid_unknown_def)

lemma query_rest: "unat n \<le> 2 * k \<Longrightarrow> nat ((uint n - 2) div 2) \<le> k - Suc 0" for n :: USHORT
proof -
  assume n: "unat n \<le> 2 * k"
  have "(int (unat n) - 2) div 2 \<le> int k - 1" using n by linarith
  then show ?thesis unfolding uint_nat by linarith
qed

lemma keeps_request_uri: "valid_request req \<Longrightarrow> keeps I (request_uri env req)"
  unfolding request_uri_def
  by (intro triple_intros keeps_AToUtf8 keeps_WToUtf8 triple_undef)
     (auto simp: valid_request_def nat_div_distrib query_rest)

lemma keeps_fresh_request:
  "valid_request req \<Longrightarrow> keeps (fresh_body env t) (feed_request env t req)"
  unfolding feed_request_def feed_connection_def feed_uri_def
  by (intro triple_intros keeps_fresh_call keeps_fresh_protocol keeps_known_header
        keeps_unknown_header keeps_request_uri keeps_VerbToString)
     (auto simp: valid_request_def)

section \<open>A new transaction is owned or gone\<close>

lemma live_new: "idle w \<Longrightarrow> live (length (w_evs w)) (w_evs w @ [TxNew (length (w_evs w))])"
proof -
  assume "idle w"
  then have "ids_bounded (w_evs w)" by (simp add: idle_def ctx_inv_def)
  then have "TxDelete (length (w_evs w)) \<notin> set (w_evs w)" by (force simp: ids_bounded_def)
  then show ?thesis by (simp add: live_def)
qed

lemma live_more: "live t evs \<Longrightarrow> TxDelete t \<notin> set es \<Longrightarrow> live t (evs @ es)"
  by (simp add: live_def)

lemma calm_transient:
  assumes c: "calm env R w" and t: "t = length (w_evs w)"
    and es: "\<forall>e \<in> set es. (neutral e \<or> tx_event t e) \<and> (body_silent e \<or> e = CtxNew)"
    and self: "tx_closed t es" and once: "phases_once t es"
  shows "calm env R (w\<lparr>w_evs := w_evs w @ es\<rparr>)"
proof -
  have "faithful cap (evs @ xs) = faithful cap evs"
    if "\<forall>e \<in> set xs. body_silent e \<or> e = CtxNew" for cap evs xs
    using that
  proof (induction xs arbitrary: evs)
    case (Cons x xs)
    from Cons.prems have "body_ok cap (received evs) x" using silent_recv[of x] by auto
    with Cons.IH[of "evs @ [x]"] Cons.prems show ?case by simp
  qed simp
  moreover have "idle (w\<lparr>w_evs := w_evs w @ es\<rparr>)"
    by (rule idle_transient[OF _ t _ self once]) (use c es in \<open>auto simp: calm_def\<close>)
  ultimately show ?thesis using c es by (simp add: calm_def)
qed

lemma finish_trace_events:
  assumes "finish_trace t es"
  shows "\<forall>e \<in> set es. (neutral e \<or> tx_event t e) \<and> body_silent e"
    and "calls_of t es = [ProcessLogging]" and "calls_of t xs = [] \<Longrightarrow> tx_closed t (xs @ es)"
  using assms
  by (auto simp: finish_trace_def log_failure_def tx_closed_def abandoned_def)

text \<open>IIS reports an occupied slot with its own code only.\<close>

definition container_host :: "env \<Rightarrow> bool" where
  "container_host env \<longleftrightarrow>
     (\<forall>evs. SetModuleContext env evs \<noteq> HRESULT_FROM_WIN32 ERROR_ALREADY_ASSIGNED)"

lemma new_context_refused:
  assumes c: "calm env R w" and n: "\<not> nothrow_null env (w_evs w @ [TxNew (length (w_evs w))])"
    and refused: "R \<noteq> None \<and> shr = HRESULT_FROM_WIN32 ERROR_ALREADY_ASSIGNED \<or>
       R = None \<and> shr = SetModuleContext env (w_evs w @ [TxNew (length (w_evs w)), CtxNew]) \<and> FAILED shr"
  shows "\<exists>v. new_context env hr cfg rules w =
      (Ok (Inl (if shr = HRESULT_FROM_WIN32 ERROR_ALREADY_ASSIGNED then hr else E_UNEXPECTED)), v) \<and>
      calm env R v"
proof -
  let ?t = "length (w_evs w)"
  let ?r = "new_request_ctx\<lparr>m_pTx := Some ?t, m_pRules := Some rules, m_ResponseBodyBlock := m_bResponseBodyBlock cfg\<rparr>"
  let ?u = "w\<lparr>w_evs := w_evs w @ [TxNew ?t, CtxNew]\<rparr>"
  have f: "FAILED shr" using refused by auto
  have set_ctx: "set_module_context env ?r ?u = (Ok shr, ?u)"
    using refused c by (auto simp: set_module_context_def prog_simps calm_def)
  have l: "live ?t (w_evs ?u)"
    using live_more[OF live_new, of w "[CtxNew]"] c by (simp add: calm_def)
  obtain es where run: "finish_ctx env ?r ?u = (Ok (?r\<lparr>m_pTx := None, m_pRules := None\<rparr>), ?u\<lparr>w_evs := w_evs ?u @ es\<rparr>)"
    and es: "finish_trace ?t es"
    by (rule finish_ctxE[of ?r ?t ?u env]) (use l in simp_all)
  let ?es = "[TxNew ?t, CtxNew] @ es @ [CtxDelete]"
  let ?v = "w\<lparr>w_evs := w_evs w @ ?es\<rparr>"
  have "cleanup_ctx env ?r ?u = (Ok (), ?v)" using run_cleanup_ctx[OF run] by simp
  then have "new_context env hr cfg rules w =
      (Ok (Inl (if shr = HRESULT_FROM_WIN32 ERROR_ALREADY_ASSIGNED then hr else E_UNEXPECTED)), ?v)"
    using n set_ctx f by (simp add: new_context_def prog_simps Let_def)
  moreover have "calm env R ?v"
    by (rule calm_transient[OF c refl])
       (use finish_trace_events(1,2)[OF es] finish_trace_events(3)[OF es, of "[]"] in
        \<open>auto simp: tx_closed_def abandoned_def phases_once_def\<close>)
  ultimately show ?thesis by blast
qed

lemma new_context_taken:
  assumes c: "calm env None w" and n: "\<not> nothrow_null env (w_evs w @ [TxNew (length (w_evs w))])"
    and ok: "\<not> FAILED (SetModuleContext env (w_evs w @ [TxNew (length (w_evs w)), CtxNew]))"
  shows "\<exists>v. new_context env hr cfg rules w = (Ok (Inr (length (w_evs w))), v) \<and>
      fresh_body env (length (w_evs w)) v"
proof -
  let ?t = "length (w_evs w)"
  let ?r = "new_request_ctx\<lparr>m_pTx := Some ?t, m_pRules := Some rules, m_ResponseBodyBlock := m_bResponseBodyBlock cfg\<rparr>"
  let ?v = "w\<lparr>w_evs := w_evs w @ [TxNew ?t, CtxNew], w_rsc := Some ?r\<rparr>"
  have "new_context env hr cfg rules w = (Ok (Inr ?t), ?v)"
    using c n ok by (simp add: new_context_def set_module_context_def prog_simps Let_def calm_def)
  moreover have "body_due ?t ?v"
    by (rule body_due_attach) (use c in \<open>simp_all add: calm_def new_request_ctx_def\<close>)
  moreover have "faithful (cap_of env) (w_evs ?v)" "received (w_evs ?v) = []"
    using c by (simp_all add: calm_def faithful_def faithful_from_append received_def)
  ultimately show ?thesis
    by (intro exI[of _ ?v]) (simp add: fresh_body_def new_request_ctx_def)
qed

section \<open>The handler keeps the invariant\<close>

text \<open>Some context, or none; no handler is running.\<close>

definition at_rest :: "env \<Rightarrow> world \<Rightarrow> bool" where
  "at_rest env w \<longleftrightarrow> calm env (w_rsc w) w"

text \<open>
  The state after a request handler: a read is outstanding, or the body phase has ruled and
  the body is restored, or the request ends.
\<close>

definition begun :: "env \<Rightarrow> notification_status \<Rightarrow> world \<Rightarrow> bool" where
  "begun env st w \<longleftrightarrow> (case st of
     RQ_NOTIFICATION_PENDING \<Rightarrow> \<exists>t. pended env t w
   | RQ_NOTIFICATION_CONTINUE \<Rightarrow> \<exists>t. fed env t False w
   | RQ_NOTIFICATION_FINISH_REQUEST \<Rightarrow> at_rest env w)"

definition begin_host :: "env \<Rightarrow> bool" where
  "begin_host env \<longleftrightarrow> body_host env \<and> config_host env \<and> container_host env \<and>
     (\<forall>req. raw_request env = Some req \<longrightarrow> valid_request req)"

text \<open>Why a configured request may be let through without inspection.\<close>

definition passes :: "env \<Rightarrow> config \<Rightarrow> bool" where
  "passes env cfg \<longleftrightarrow> \<not> ConfigFailClosed env \<or> raw_request env = None \<or> \<not> m_bIsEnabled cfg \<or>
     (case m_pszPath cfg of None \<Rightarrow> True | Some p \<Rightarrow> hd p = 0)"

definition exited :: "env \<Rightarrow> bool \<Rightarrow> begin_exit \<Rightarrow> world \<Rightarrow> bool" where
  "exited env reason x w \<longleftrightarrow> (case x of Inl st \<Rightarrow> begun env st w
     | Inr hr \<Rightarrow> at_rest env w \<and> (FAILED hr \<or> reason))"

lemma calm_at_rest: "calm env R w \<Longrightarrow> at_rest env w"
  by (auto simp: at_rest_def calm_def)

lemma loyal_at_rest: "loyal env w \<Longrightarrow> at_rest env w"
  by (auto simp: at_rest_def calm_def loyal_def attached_def)

lemma settled_begun: "settled env t st w \<Longrightarrow> begun env st w"
  by (cases st) (auto simp: settled_def begun_def intro: loyal_at_rest)

lemma keeps_rest: "(\<And>R. keeps (calm env R) m) \<Longrightarrow> keeps (at_rest env) m"
  unfolding triple_def by (fastforce simp: at_rest_def calm_def split: prod.splits outcome.splits)

lemma triple_rest: "keeps (calm env R) m \<Longrightarrow> triple (calm env R) m (\<lambda>_. calm env R) (\<lambda>_. at_rest env)"
  by (erule triple_conseq) (auto intro: calm_at_rest)

lemma triple_new_context:
  assumes "container_host env"
  shows "triple (calm env R) (new_context env hr cfg rules)
     (\<lambda>x w. case x of Inl code \<Rightarrow> at_rest env w \<and> (FAILED code \<or> R \<noteq> None)
       | Inr t \<Rightarrow> fresh_body env t w) (\<lambda>_. at_rest env)"
proof -
  have "case new_context env hr cfg rules w of
      (Ok x, v) \<Rightarrow> (case x of Inl code \<Rightarrow> at_rest env v \<and> (FAILED code \<or> R \<noteq> None) | Inr t \<Rightarrow> fresh_body env t v)
    | (Throw e, v) \<Rightarrow> at_rest env v | (Undef, v) \<Rightarrow> False" if c: "calm env R w" for w
  proof -
    let ?t = "length (w_evs w)"
    let ?set = "SetModuleContext env (w_evs w @ [TxNew ?t, CtxNew])"
    consider "nothrow_null env (w_evs w @ [TxNew ?t])"
      | "\<not> nothrow_null env (w_evs w @ [TxNew ?t])" "R \<noteq> None"
      | "\<not> nothrow_null env (w_evs w @ [TxNew ?t])" "R = None" "FAILED ?set"
      | "\<not> nothrow_null env (w_evs w @ [TxNew ?t])" "R = None" "\<not> FAILED ?set"
      by blast
    then show ?thesis
    proof cases
      case 1
      have l: "live ?t (w_evs w @ [TxNew ?t])" by (rule live_new) (use c in \<open>simp add: calm_def\<close>)
      have "new_context env hr cfg rules w = (Ok (Inl E_OUTOFMEMORY), w\<lparr>w_evs := w_evs w @ [TxNew ?t, TxDelete ?t]\<rparr>)"
        using 1 l by (simp add: new_context_def prog_simps)
      moreover have "calm env R (w\<lparr>w_evs := w_evs w @ [TxNew ?t, TxDelete ?t]\<rparr>)"
        by (rule calm_transient[OF c refl]) (auto simp: tx_closed_def phases_once_def)
      ultimately show ?thesis by (simp add: calm_at_rest)
    next
      case 2
      from new_context_refused[OF c 2(1), of "HRESULT_FROM_WIN32 ERROR_ALREADY_ASSIGNED" hr cfg rules] 2(2)
      show ?thesis using calm_at_rest by auto
    next
      case 3
      from new_context_refused[OF c 3(1), of ?set hr cfg rules] 3(2,3) assms
      show ?thesis using calm_at_rest by (auto simp: container_host_def)
    next
      case 4
      from new_context_taken[of env w hr cfg rules] c 4 show ?thesis by auto
    qed
  qed
  then show ?thesis unfolding triple_def by blast
qed

lemma triple_create_context:
  assumes "container_host env"
  shows "triple (calm env R) (create_context env hr cfg rules)
     (\<lambda>x w. case x of Inl code \<Rightarrow> at_rest env w \<and> (FAILED code \<or> R \<noteq> None)
       | Inr t \<Rightarrow> fresh_body env t w) (\<lambda>_. at_rest env)"
  unfolding create_context_def
  by (rule triple_bnd[OF triple_rest[OF keeps_gets]],
      rule triple_if, rule triple_ret, simp add: calm_at_rest,
      rule triple_andThen[OF triple_rest triple_new_context[OF assms]])
     (intro triple_intros)

lemma triple_inspect_request:
  assumes host: "begin_host env"
  shows "triple (fresh_body env t) (inspect_request env hr t)
     (exited env (passes env cfg)) (\<lambda>_. at_rest env)"
proof -
  have body: "body_host env" and resp: "has_response env"
    using host by (auto simp: begin_host_def body_host_def)
  have start: "triple (fresh_body env t) (bnd (BeginBodyRead env) (\<lambda>status. ret (Inl status)))
      (exited env (passes env cfg)) (\<lambda>_. loyal env)"
    by (rule triple_bnd[OF triple_BeginBodyRead[OF body]], rule triple_ret)
       (simp add: exited_def settled_begun)
  have verdict: "triple (fresh_body env t) (ApplyIntervention env True)
     (\<lambda>b w. if b then loyal env w else fresh_body env t w) (\<lambda>_. loyal env)"
  proof -
    have I: "triple (fresh_body env t) (ApplyIntervention env True)
       (\<lambda>b w. if b then released w else fresh_body env t w) (\<lambda>_. attached)"
      by (rule triple_ApplyIntervention[OF resp])
         (auto simp: fresh_body_def body_due_def intro!: keeps_fresh_call)
    show ?thesis
      by (rule triple_conseq[OF triple_emits[OF I emits_Intervention_silent,
            where F = "faithful (cap_of env)"]])
         (auto simp: loyal_def fresh_body_def silent_recv split: if_splits intro: released_attached)
  qed
  have phase: "triple (fresh_body env t) (andThen (feed_request env t req)
      (bnd (ApplyIntervention env True) (\<lambda>blocked.
         if blocked then ret (Inl RQ_NOTIFICATION_FINISH_REQUEST)
         else bnd (BeginBodyRead env) (\<lambda>status. ret (Inl status)))))
      (exited env (passes env cfg)) (\<lambda>_. loyal env)" if "valid_request req" for req
  proof (rule triple_andThen)
    show "triple (fresh_body env t) (feed_request env t req) (\<lambda>_. fresh_body env t) (\<lambda>_. loyal env)"
      by (rule triple_conseq[OF keeps_fresh_request[OF that]]) (auto intro: fresh_loyal)
    show "triple (fresh_body env t) (bnd (ApplyIntervention env True) (\<lambda>blocked.
         if blocked then ret (Inl RQ_NOTIFICATION_FINISH_REQUEST)
         else bnd (BeginBodyRead env) (\<lambda>status. ret (Inl status))))
      (exited env (passes env cfg)) (\<lambda>_. loyal env)"
      by (rule triple_bnd[OF verdict], rule triple_if)
         (auto intro!: triple_ret triple_pre[OF start] simp: exited_def begun_def loyal_at_rest)
  qed
  show ?thesis
    unfolding inspect_request_def
    by (intro triple_case_option triple_ret triple_conseq[OF phase])
       (use host in \<open>auto simp: exited_def passes_def begin_host_def intro: loyal_at_rest fresh_loyal\<close>)
qed

lemma triple_fail_closed:
  "has_response env \<Longrightarrow> triple (calm env R) (fail_closed_500 env hr)
     (exited env (passes env cfg \<or> r)) (\<lambda>_. at_rest env)"
  unfolding fail_closed_500_def
  by (rule triple_if, rule triple_ret, simp add: exited_def passes_def calm_at_rest,
      rule triple_andThen[where R = "calm env R"], rule triple_rest)
     (auto intro!: triple_intros simp: exited_def begun_def calm_at_rest)

lemma triple_config_failed:
  "has_response env \<Longrightarrow> triple (calm env R) (config_failed env)
     (exited env (\<not> ConfigFailClosed env)) (\<lambda>_. at_rest env)"
  unfolding config_failed_def fail_closed_500_def
  by (rule triple_bnd[OF triple_rest[OF keeps_gets]],
      rule triple_andThen[OF triple_rest[OF keeps_calm_modify]], simp,
      rule triple_andThen[OF triple_rest[OF keeps_whenever[OF keeps_calm_log]]],
      rule triple_if, rule triple_ret, simp add: exited_def calm_at_rest,
      rule triple_andThen[where R = "calm env R"], rule triple_rest)
     (auto intro!: triple_intros simp: exited_def begun_def calm_at_rest)

lemma triple_rules_failed:
  assumes "has_response env"
  shows "triple (calm env R) (rules_failed env hr cf err)
     (exited env (passes env cfg \<or> r)) (\<lambda>_. at_rest env)"
proof -
  have log: "keeps (calm env R) (whenever c (andThen (heap_alloc env) (WriteEventViewerLog m k)))" for c m k
    by (intro triple_intros)
  show ?thesis
    unfolding rules_failed_def
    by (rule triple_bnd[OF triple_rest[OF keeps_gets]],
        rule triple_andThen[OF triple_rest[OF keeps_calm_modify]], simp,
        rule triple_andThen[OF triple_rest[OF log] triple_fail_closed[OF assms]])
qed

lemma triple_begin_configured:
  assumes host: "begin_host env" and path: "m_pszPath cfg \<noteq> Some []"
  shows "triple (calm env R) (begin_configured env hr cfg)
     (exited env (passes env cfg \<or> R \<noteq> None)) (\<lambda>_. at_rest env)"
proof -
  have resp: "has_response env" and slot: "container_host env"
    using host by (auto simp: begin_host_def body_host_def)
  have created: "triple (\<lambda>w. case x of Inl code \<Rightarrow> at_rest env w \<and> (FAILED code \<or> R \<noteq> None)
       | Inr t \<Rightarrow> fresh_body env t w)
      (case x of Inl code \<Rightarrow> ret (Inr code) | Inr tx \<Rightarrow> inspect_request env hr tx)
      (exited env (passes env cfg \<or> R \<noteq> None)) (\<lambda>_. at_rest env)" for x
    by (cases x)
       (auto intro!: triple_ret triple_conseq[OF triple_inspect_request[OF host, of _ _ cfg]]
          simp: exited_def split: sum.splits)
  note ready = triple_bnd[OF triple_create_context[OF slot] created]
  have rules: "triple (calm env R) (case x of None \<Rightarrow> rules_failed env hr cf err
      | Some rs \<Rightarrow> bnd (create_context env hr cfg rs) (\<lambda>created. case created of
            Inl code \<Rightarrow> ret (Inr code) | Inr tx \<Rightarrow> inspect_request env hr tx))
     (exited env (passes env cfg \<or> R \<noteq> None)) (\<lambda>_. at_rest env)" for x cf err
    by (cases x) (simp_all add: triple_rules_failed[OF resp] ready del: not_None_eq)
  have convert: "keeps (calm env R) (WToUtf8 env (Some p) (int (wcslen p) * 2))" for p
    by (rule keeps_WToUtf8) (simp add: wcslen_def length_takeWhile_le)
  show ?thesis
    unfolding begin_configured_def
    by (intro triple_if triple_case_option triple_undef triple_case_prod
          triple_ret triple_andThen[OF triple_rest[OF keeps_heap_alloc]]
          triple_bnd[OF triple_rest[OF convert]] triple_bnd[OF triple_rest[OF keeps_calm_getRules]] rules)
       (use path in \<open>auto simp: exited_def passes_def calm_at_rest\<close>)
qed

text \<open>The reasons for which a request may go on uninspected.\<close>

definition let_through :: "env \<Rightarrow> world \<Rightarrow> bool" where
  "let_through env w \<longleftrightarrow> \<not> ConfigFailClosed env \<or> w_rsc w \<noteq> None \<or>
     (\<exists>hr cfg v. GetConfig env w = (Ok (hr, Some cfg), v) \<and> passes env cfg)"

lemma begin_body_ends:
  assumes host: "begin_host env" and rest: "at_rest env w" and valid: "config_valid w"
  shows "triple (\<lambda>s. s = w) (begin_body env has_context) (exited env (let_through env w)) (\<lambda>_. at_rest env)"
proof -
  have calm: "calm env (w_rsc w) w" using rest by (simp add: at_rest_def)
  have resp: "has_response env" and req: "config_host env"
    using host by (auto simp: begin_host_def body_host_def)
  obtain hr c v where g: "GetConfig env w = (Ok (hr, c), v)" "calm env (w_rsc w) v"
    "\<not> FAILED hr \<longrightarrow> (\<exists>cfg. c = Some cfg \<and> m_pszPath cfg \<noteq> Some []) \<and> config_valid v"
    using GetConfig_calm[OF req calm valid] by (elim exE conjE) (rule that)
  have refused: "triple (\<lambda>s. s = w) (ret (Inr E_UNEXPECTED)) (exited env (let_through env w)) (\<lambda>_. at_rest env)"
    by (rule triple_ret) (use rest in \<open>simp add: exited_def\<close>)
  have got: "triple (\<lambda>s. s = v) (if FAILED hr then config_failed env else case c of None \<Rightarrow> undef
       | Some cfg \<Rightarrow> begin_configured env hr cfg) (exited env (let_through env w)) (\<lambda>_. at_rest env)"
  proof (rule triple_if)
    show "triple (\<lambda>s. s = v) (config_failed env) (exited env (let_through env w)) (\<lambda>_. at_rest env)"
      by (rule triple_conseq[OF triple_config_failed[OF resp]])
         (use g(2) in \<open>auto simp: exited_def let_through_def split: sum.splits\<close>)
    assume "\<not> FAILED hr"
    with g(3) obtain cfg where c: "c = Some cfg" "m_pszPath cfg \<noteq> Some []" by blast
    have "triple (\<lambda>s. s = v) (begin_configured env hr cfg) (exited env (let_through env w)) (\<lambda>_. at_rest env)"
      by (rule triple_conseq[OF triple_begin_configured[OF host c(2)]])
         (use g(1,2) c(1) in \<open>auto simp: exited_def let_through_def split: sum.splits\<close>)
    with c(1) show "triple (\<lambda>s. s = v) (case c of None \<Rightarrow> undef | Some cfg \<Rightarrow> begin_configured env hr cfg)
        (exited env (let_through env w)) (\<lambda>_. at_rest env)" by simp
  qed
  show ?thesis
    unfolding begin_body_def
    by (intro triple_if refused triple_bnd[where R = "\<lambda>x s. x = (hr, c) \<and> s = v"])
       (use g(1) got in \<open>auto simp: triple_def\<close>)
qed

text \<open>How the handler ends.\<close>

definition answered :: "env \<Rightarrow> bool \<Rightarrow> notification_status \<Rightarrow> world \<Rightarrow> bool" where
  "answered env reason st w \<longleftrightarrow> (case st of
     RQ_NOTIFICATION_CONTINUE \<Rightarrow> (\<exists>t. fed env t False w) \<or> at_rest env w \<and> reason
   | RQ_NOTIFICATION_PENDING \<Rightarrow> \<exists>t. pended env t w
   | RQ_NOTIFICATION_FINISH_REQUEST \<Rightarrow> at_rest env w)"

lemma report_rests: "triple (at_rest env) (ReportException site e) (\<lambda>_. at_rest env) E"
proof -
  have "\<exists>v. ReportException site e w = (Ok (), v)" for w
    by (auto simp: ReportException_def WriteEventViewerLog_def prog_defs Let_def emit_def)
  moreover have "keeps (at_rest env) (ReportException site e)"
    by (rule keeps_rest) (rule keeps_calm_report)
  ultimately show ?thesis unfolding triple_def by (fastforce split: prod.splits outcome.splits)
qed

lemma OnBeginRequest_ends:
  assumes "begin_host env" and "at_rest env w" and "config_valid w"
  shows "triple (\<lambda>s. s = w) (OnBeginRequest env has_context) (answered env (let_through env w)) (\<lambda>_ _. False)"
  unfolding OnBeginRequest_def
proof (rule triple_bnd)
  show "triple (\<lambda>s. s = w) (try_catch (begin_body env has_context)
            (\<lambda>e. andThen (ReportException ''OnBeginRequest'' e)
                   (ret (Inl RQ_NOTIFICATION_FINISH_REQUEST)))) (exited env (let_through env w)) (\<lambda>_ _. False)"
    by (rule triple_try[OF begin_body_ends[OF assms]], rule triple_andThen[OF report_rests], rule triple_ret)
       (simp add: exited_def begun_def)
  show "triple (exited env (let_through env w) x) (case x of Inl status \<Rightarrow> ret status
        | Inr hr \<Rightarrow> if FAILED hr then ret RQ_NOTIFICATION_FINISH_REQUEST
                    else ret RQ_NOTIFICATION_CONTINUE)
       (answered env (let_through env w)) (\<lambda>_ _. False)" for x
    by (intro triple_intros)
       (auto simp: exited_def answered_def begun_def split: notification_status.splits)
qed

section \<open>The calls of the request phase\<close>

text \<open>The text of a counted string as the engine, which takes C strings, reads it.\<close>

definition wire_text :: "bytes option \<Rightarrow> USHORT \<Rightarrow> string" where
  "wire_text a n = (case a of None \<Rightarrow> '''' | Some mem \<Rightarrow> c_str (take (unat n) mem))"

lemma c_str_butlast: "last v = NUL \<Longrightarrow> c_str (butlast v) = c_str v"
  by (cases v rule: rev_cases) (auto simp: c_str_def takeWhile_append)

lemma run_AToUtf8_wire:
  fixes n :: USHORT
  assumes "\<And>mem. a = Some mem \<Longrightarrow> unat n \<le> length mem"
  shows "\<exists>v. AToUtf8 a (uint n) s = (Ok v, s) \<and> c_str v = wire_text a n"
proof (cases a)
  case (Some mem)
  with assms AToUtf8_value[of "uint n" mem s] show ?thesis
    by (simp add: wire_text_def Let_def c_str_butlast)
qed (simp add: wire_text_def c_str_def)

definition known_calls :: "(string \<Rightarrow> string \<Rightarrow> tx_call) \<Rightarrow> (http_header_id \<Rightarrow> known_header)
    \<Rightarrow> http_header_id \<times> string \<Rightarrow> tx_call list" where
  "known_calls add headers entry = (let h = headers (fst entry) in
     if pRawValue h = None then [] else [add (snd entry) (wire_text (pRawValue h) (RawValueLength h))])"

definition unknown_calls :: "(string \<Rightarrow> string \<Rightarrow> tx_call) \<Rightarrow> unknown_header \<Rightarrow> tx_call list" where
  "unknown_calls add h = [add (wire_text (uh_pName h) (uh_NameLength h))
     (wire_text (uh_pRawValue h) (uh_RawValueLength h))]"

text \<open>A program that, on a live transaction, only makes the calls \<open>cs\<close>.\<close>

definition feeds :: "nat \<Rightarrow> tx_call list \<Rightarrow> unit wprog \<Rightarrow> bool" where
  "feeds t cs m \<longleftrightarrow> (\<forall>w. live t (w_evs w) \<longrightarrow>
     m w = (Ok (), w\<lparr>w_evs := w_evs w @ map (TxCall t) cs\<rparr>))"

lemma feeds_call: "smooth env \<Longrightarrow> feeds t [c] (tx_call env t c)"
  by (simp add: feeds_def smooth_def prog_simps)

lemma live_calls [simp]: "live t (evs @ map (TxCall u) cs) = live t evs"
  by (auto simp: live_def)

lemma feeds_andThen: "feeds t cs m \<Longrightarrow> feeds t ds n \<Longrightarrow> feeds t (cs @ ds) (andThen m n)"
  by (simp add: feeds_def run_andThen_Ok)

lemma feeds_for_each:
  assumes "\<And>x. x \<in> set xs \<Longrightarrow> feeds t (cs x) (f x)"
  shows "feeds t (concat (map cs xs)) (for_each f xs)"
  using assms
proof (induction xs)
  case Nil
  show ?case by (simp add: feeds_def prog_simps)
next
  case (Cons x xs)
  show ?case using feeds_andThen[of t "cs x" "f x" "concat (map cs xs)" "for_each f xs"] Cons by simp
qed

lemma feeds_known:
  assumes "smooth env" and "\<And>h. valid_known (headers h)"
  shows "feeds t (known_calls add headers e) (known_header_step env t add headers e)"
  unfolding feeds_def
proof (intro allI impI)
  fix w :: world assume l: "live t (w_evs w)"
  let ?h = "headers (fst e)"
  show "known_header_step env t add headers e w =
      (Ok (), w\<lparr>w_evs := w_evs w @ map (TxCall t) (known_calls add headers e)\<rparr>)"
  proof (cases "pRawValue ?h")
    case None
    then show ?thesis by (simp add: known_header_step_def known_calls_def prog_simps Let_def)
  next
    case (Some mem)
    have "\<exists>v. AToUtf8 (Some mem) (uint (RawValueLength ?h)) w = (Ok v, w) \<and>
        c_str v = wire_text (Some mem) (RawValueLength ?h)"
      by (rule run_AToUtf8_wire) (use assms(2)[of "fst e"] Some in \<open>auto simp: valid_known_def\<close>)
    then obtain v where "AToUtf8 (Some mem) (uint (RawValueLength ?h)) w = (Ok v, w)"
        "c_str v = wire_text (Some mem) (RawValueLength ?h)" by blast
    with Some assms(1) l show ?thesis
      by (simp add: known_header_step_def known_calls_def prog_simps Let_def smooth_def)
  qed
qed

lemma feeds_unknown:
  assumes "smooth env" and "valid_unknown h"
  shows "feeds t (unknown_calls add h) (unknown_header_step env t add h)"
  unfolding feeds_def
proof (intro allI impI)
  fix w :: world assume l: "live t (w_evs w)"
  obtain n where n: "AToUtf8 (uh_pName h) (uint (uh_NameLength h)) w = (Ok n, w)"
      "c_str n = wire_text (uh_pName h) (uh_NameLength h)"
    using run_AToUtf8_wire[of "uh_pName h" "uh_NameLength h" w] assms(2) by (auto simp: valid_unknown_def)
  obtain v where v: "AToUtf8 (uh_pRawValue h) (uint (uh_RawValueLength h)) w = (Ok v, w)"
      "c_str v = wire_text (uh_pRawValue h) (uh_RawValueLength h)"
    using run_AToUtf8_wire[of "uh_pRawValue h" "uh_RawValueLength h" w] assms(2) by (auto simp: valid_unknown_def)
  from n v assms(1) l show "unknown_header_step env t add h w =
      (Ok (), w\<lparr>w_evs := w_evs w @ map (TxCall t) (unknown_calls add h)\<rparr>)"
    by (simp add: unknown_header_step_def unknown_calls_def prog_simps smooth_def)
qed

section \<open>Properties\<close>

text \<open>The entry handler is total and contained. From any state between requests it returns a
  status: nothing is thrown across the module boundary and nothing undefined happens. PENDING
  means that a read is outstanding for the transaction of this request; FINISH leaves a state
  in which no read is outstanding.\<close>

theorem begin_request_contained:
  assumes "begin_host env" and "at_rest env w" and "config_valid w"
  shows "\<exists>st v. OnBeginRequest env has_context w = (Ok st, v) \<and>
     (st = RQ_NOTIFICATION_PENDING \<longrightarrow> (\<exists>t. pended env t v)) \<and>
     (st \<noteq> RQ_NOTIFICATION_PENDING \<longrightarrow> at_rest env v)"
proof -
  have rest: "fed env t False v \<Longrightarrow> at_rest env v" for t v
    by (rule loyal_at_rest) (rule fed_loyal)
  from OnBeginRequest_ends[OF assms, of has_context] rest show ?thesis
    unfolding triple_def answered_def
    by (cases "OnBeginRequest env has_context w")
       (force split: outcome.splits notification_status.splits)
qed

lemma begin_host_quiet [simp]: "begin_host quiet_env"
  by (auto simp: begin_host_def config_host_def container_host_def com_contract_def quiet_com_def
        valid_request_def valid_known_def quiet_request_def no_header_def S_OK_def
        HRESULT_FROM_WIN32_def ERROR_ALREADY_ASSIGNED_def FAILED_def)

lemma start_at_rest [simp]: "at_rest env start_world" "config_valid start_world"
  by (auto simp: at_rest_def calm_def idle_def ctx_inv_def ids_bounded_def phases_once_def
        quiet_reads_def outstanding_def faithful_def config_valid_def)

theorem begin_request_contained_witness:
  "\<exists>st v. OnBeginRequest quiet_env True start_world = (Ok st, v) \<and>
     (st = RQ_NOTIFICATION_PENDING \<longrightarrow> (\<exists>t. pended quiet_env t v)) \<and>
     (st \<noteq> RQ_NOTIFICATION_PENDING \<longrightarrow> at_rest quiet_env v)"
  by (rule begin_request_contained) simp_all


lemma run_feed_request:
  assumes "smooth env" and "valid_request req" and "w_rsc w = Some r" and "live t (w_evs w)"
    and "pRawUrl req = Some url" and "VerbToString req w = (Ok verb, w)"
  shows "feed_request env t req w = (Ok (), w\<lparr>w_rsc := Some (r\<lparr>m_Protocol := VersionToString (Version req)\<rparr>),
     w_evs := w_evs w @ map (TxCall t)
       (ProcessConnection (c_str (SockAddrToIp env (remote_addr env))) (SockAddrToPort env (remote_addr env))
          (case local_addr env of None \<Rightarrow> '''' | Some a \<Rightarrow> c_str (SockAddrToIp env (Some a)))
          (case local_addr env of None \<Rightarrow> 0 | Some a \<Rightarrow> SockAddrToPort env (Some a))
        # ProcessURI (wire_text (Some url) (RawUrlLength req)) (c_str verb) (c_str (VersionToString (Version req)))
        # concat (map (known_calls AddRequestHeader (req_KnownHeaders req)) request_headers)
        @ concat (map (unknown_calls AddRequestHeader) (req_UnknownHeaders req))
        @ [ProcessRequestHeaders])\<rparr>)"
proof -
  have headers: "feeds t (concat (map (known_calls AddRequestHeader (req_KnownHeaders req)) request_headers)
        @ concat (map (unknown_calls AddRequestHeader) (req_UnknownHeaders req)) @ [ProcessRequestHeaders])
      (andThen (for_each (known_header_step env t AddRequestHeader (req_KnownHeaders req)) request_headers)
       (andThen (for_each (unknown_header_step env t AddRequestHeader) (req_UnknownHeaders req))
          (tx_call env t ProcessRequestHeaders)))"
    by (intro feeds_andThen feeds_for_each feeds_known feeds_unknown feeds_call assms(1))
       (use assms(2) in \<open>auto simp: valid_request_def\<close>)
  let ?u = "w\<lparr>w_evs := w_evs w @ [TxCall t (ProcessConnection
       (c_str (SockAddrToIp env (remote_addr env))) (SockAddrToPort env (remote_addr env))
       (case local_addr env of None \<Rightarrow> '''' | Some a \<Rightarrow> c_str (SockAddrToIp env (Some a)))
       (case local_addr env of None \<Rightarrow> 0 | Some a \<Rightarrow> SockAddrToPort env (Some a)))]\<rparr>"
  have l: "live t (w_evs ?u)" using live_calls[of t "w_evs w" t "[c]" for c] assms(4) by simp
  have connection: "feed_connection env t w = (Ok (), ?u)"
    using assms(1,4) by (cases "local_addr env") (simp_all add: feed_connection_def Let_def prog_simps smooth_def c_str_def)
  obtain uri where uri: "AToUtf8 (Some url) (uint (RawUrlLength req)) ?u = (Ok uri, ?u)"
      "c_str uri = wire_text (Some url) (RawUrlLength req)"
    using run_AToUtf8_wire[of "Some url" "RawUrlLength req" ?u] assms(2,5) by (auto simp: valid_request_def)
  have verb: "VerbToString req ?u = (Ok verb, ?u)"
    using assms(6) by (auto simp: VerbToString_def AToUtf8_def prog_defs Let_def split: http_verb.splits option.splits if_splits)
  let ?v = "?u\<lparr>w_rsc := Some (r\<lparr>m_Protocol := VersionToString (Version req)\<rparr>), w_evs := w_evs ?u @
      [TxCall t (ProcessURI (wire_text (Some url) (RawUrlLength req)) (c_str verb) (c_str (VersionToString (Version req))))]\<rparr>"
  have "feed_uri env t req ?u = (Ok (), ?v)"
    using assms(1,3,5) l uri verb
    by (simp add: feed_uri_def request_uri_def prog_simps Let_def smooth_def)
  moreover have "live t (w_evs ?v)" using live_calls[of t "w_evs ?u" t "[c]" for c] l by simp
  ultimately show ?thesis
    using connection headers unfolding feed_request_def
    by (simp add: run_andThen_Ok feeds_def world_rsc_evs)
qed

text \<open>C6: The request phase tells the engine, in this order and nothing else: the connection, the
  URI as IIS received it with method and version, the known headers that are present in the
  order of the table, the unknown headers in the order of the request, and the end of the
  headers. The table names each of the 41 request headers of http.sys once.\<close>

theorem request_fed_exactly:
  assumes "smooth env" and "valid_request req" and "w_rsc w = Some r" and "live t (w_evs w)"
    and "pRawUrl req = Some url" and "VerbToString req w = (Ok verb, w)"
  shows "feed_request env t req w = (Ok (), w\<lparr>w_rsc := Some (r\<lparr>m_Protocol := VersionToString (Version req)\<rparr>),
     w_evs := w_evs w @ map (TxCall t)
       (ProcessConnection (c_str (SockAddrToIp env (remote_addr env))) (SockAddrToPort env (remote_addr env))
          (case local_addr env of None \<Rightarrow> '''' | Some a \<Rightarrow> c_str (SockAddrToIp env (Some a)))
          (case local_addr env of None \<Rightarrow> 0 | Some a \<Rightarrow> SockAddrToPort env (Some a))
        # ProcessURI (wire_text (Some url) (RawUrlLength req)) (c_str verb) (c_str (VersionToString (Version req)))
        # concat (map (known_calls AddRequestHeader (req_KnownHeaders req)) request_headers)
        @ concat (map (unknown_calls AddRequestHeader) (req_UnknownHeaders req))
        @ [ProcessRequestHeaders])\<rparr>)
     \<and> distinct (map fst request_headers) \<and> length request_headers = 41"
  using run_feed_request[OF assms] by (simp add: request_headers_def)

lemma no_header_calls [simp]: "known_calls add (\<lambda>_. no_header) e = []"
  by (simp add: known_calls_def no_header_def)

theorem request_fed_exactly_witness:
  "w_evs (snd (feed_request quiet_env 0 quiet_request (reader_world 0 BRS_IDLE []))) =
     [TxNew 0, CtxNew, TxCall 0 (ProcessConnection '''' 0 '''' 0),
      TxCall 0 (ProcessURI ''/'' ''GET'' ''1.1''), TxCall 0 ProcessRequestHeaders]"
proof -
  have valid: "valid_request quiet_request" using begin_host_quiet by (auto simp: begin_host_def)
  have url: "pRawUrl quiet_request = Some ''/''" by (simp add: quiet_request_def)
  have verb: "VerbToString quiet_request (reader_world 0 BRS_IDLE []) = (Ok ''GET'', reader_world 0 BRS_IDLE [])"
    by (simp add: VerbToString_def quiet_request_def prog_simps)
  have l: "live 0 (w_evs (reader_world 0 BRS_IDLE []))" by (simp add: live_def)
  show ?thesis
    unfolding conjunct1[OF request_fed_exactly[OF smooth_quiet valid reader_facts(1) l url verb]]
    by (simp add: quiet_request_def wire_text_def c_str_def VersionToString_def HTTP_EQUAL_VERSION_def
        SockAddrToIp_def SockAddrToPort_def concat_replicate_trivial map_replicate_const)
qed

text \<open>The single line a process writes about a failure of this kind.\<close>

definition first_report :: "bool \<Rightarrow> world \<Rightarrow> string \<Rightarrow> event list" where
  "first_report seen w m = (if seen \<or> \<not> g_hEventLog w then [] else [EventLogged m EVENTLOG_ERROR_TYPE])"

lemma run_log:
  "WriteEventViewerLog (Some m) c w =
     (Ok (), w\<lparr>w_evs := w_evs w @ (if g_hEventLog w then [EventLogged m c] else [])\<rparr>)"
  by (simp add: WriteEventViewerLog_def prog_simps)

lemma run_fail_closed:
  "has_response env \<Longrightarrow> fail_closed_500 env hr w =
     (if ConfigFailClosed env
      then (Ok (Inl RQ_NOTIFICATION_FINISH_REQUEST), w\<lparr>w_evs := w_evs w @ [RespSetStatus 500 ''Internal Server Error'']\<rparr>)
      else (Ok (Inr hr), w))"
  by (simp add: fail_closed_500_def prog_simps)

text \<open>C25: When the configuration cannot be read, the request is rejected with 500 and nothing of the
  engine is created; only if failing open was asked for does it go on. The event log gets one
  line per process.\<close>

theorem config_failure_fails_closed:
  assumes "has_request env" and "has_response env"
    and "GetConfig env w = (Ok (hr, c), v)" and "FAILED hr"
  shows "OnBeginRequest env True w =
    (Ok (if ConfigFailClosed env then RQ_NOTIFICATION_FINISH_REQUEST else RQ_NOTIFICATION_CONTINUE),
     v\<lparr>s_configFailLogged := True,
       w_evs := w_evs v
         @ first_report (s_configFailLogged v) v
             (''ModSecurityIIS: failed to read module configuration; failing closed (request rejected).'')
         @ (if ConfigFailClosed env then [RespSetStatus 500 ''Internal Server Error''] else [])\<rparr>)"
proof -
  have "begin_body env True w = config_failed env v"
    using assms by (simp add: begin_body_def prog_simps)
  moreover have "config_failed env v =
      fail_closed_500 env S_OK (v\<lparr>s_configFailLogged := True, w_evs := w_evs v @ first_report (s_configFailLogged v) v
        (''ModSecurityIIS: failed to read module configuration; failing closed (request rejected).'')\<rparr>)"
    by (simp add: config_failed_def prog_simps run_log first_report_def)
  ultimately show ?thesis
    using assms(2) by (simp add: OnBeginRequest_def prog_simps run_fail_closed)
qed

theorem config_failure_fails_closed_witness:
  "OnBeginRequest (quiet_env\<lparr>com := quiet_com\<lparr>has_metadata_container := False\<rparr>\<rparr>) True start_world =
     (Ok RQ_NOTIFICATION_FINISH_REQUEST,
      start_world\<lparr>s_configFailLogged := True,
        w_evs := [EventLogged ''ModSecurityIIS: failed to read module configuration; failing closed (request rejected).'' EVENTLOG_ERROR_TYPE,
                  RespSetStatus 500 ''Internal Server Error'']\<rparr>)"
proof -
  let ?env = "quiet_env\<lparr>com := quiet_com\<lparr>has_metadata_container := False\<rparr>\<rparr>"
  have "GetConfig ?env start_world = (Ok (E_UNEXPECTED, None), start_world)"
    by (simp add: GetConfig_def quiet_com_def prog_simps)
  moreover have "ConfigFailClosed ?env" by (simp add: ConfigFailClosed_def)
  ultimately show ?thesis
    using config_failure_fails_closed[of ?env start_world E_UNEXPECTED None start_world]
    by (simp add: first_report_def)
qed

text \<open>What the handler reads before it creates anything.\<close>

lemma begin_body_configured:
  "has_request env \<Longrightarrow> GetConfig env w = (Ok (hr, Some cfg), v) \<Longrightarrow> \<not> FAILED hr \<Longrightarrow>
   begin_body env True w = begin_configured env hr cfg v"
  by (simp add: begin_body_def prog_simps)

lemma begin_configured_rules:
  assumes "smooth env" and "m_bIsEnabled cfg" and "m_pszPath cfg = Some p" and "p \<noteq> []" and "hd p \<noteq> 0"
    and "WToUtf8 env (Some p) (int (wcslen p) * 2) v = (Ok cf, v)"
    and "getRules env cf v = (Ok (rules, err), u)"
  shows "begin_configured env hr cfg v = (case rules of None \<Rightarrow> rules_failed env hr cf err
     | Some rs \<Rightarrow> bnd (create_context env hr cfg rs) (\<lambda>created. case created of
         Inl code \<Rightarrow> ret (Inr code) | Inr tx \<Rightarrow> inspect_request env hr tx)) u"
  using assms by (simp add: begin_configured_def prog_simps smooth_def)

text \<open>C26: When the rules of an enabled site cannot be loaded, the request is rejected in the same
  way: 500 and no transaction, unless failing open was asked for, with one line per process
  that names the file and the parser's error.\<close>

theorem rules_failure_fails_closed:
  assumes "smooth env" and "has_request env"
    and "GetConfig env w = (Ok (hr, Some cfg), v)" and "\<not> FAILED hr"
    and "m_bIsEnabled cfg" and "m_pszPath cfg = Some p" and "p \<noteq> []" and "hd p \<noteq> 0"
    and "WToUtf8 env (Some p) (int (wcslen p) * 2) v = (Ok cf, v)"
    and "getRules env cf v = (Ok (None, err), u)"
  shows "OnBeginRequest env True w =
    (Ok (if ConfigFailClosed env then RQ_NOTIFICATION_FINISH_REQUEST else RQ_NOTIFICATION_CONTINUE),
     u\<lparr>s_rulesFailLogged := True,
       w_evs := w_evs u
         @ first_report (s_rulesFailLogged u) u
             (c_str (''ModSecurityIIS: failed to load rules from '' @ [CHR 0x27] @ cf @ [CHR 0x27] @ '': '' @ err))
         @ (if ConfigFailClosed env then [RespSetStatus 500 ''Internal Server Error''] else [])\<rparr>)"
proof -
  have resp: "has_response env" using assms(1) by (simp add: smooth_def)
  have "begin_body env True w = rules_failed env hr cf err u"
    using begin_body_configured[OF assms(2-4)] begin_configured_rules[OF assms(1,5-10)] by simp
  moreover have "rules_failed env hr cf err u =
      fail_closed_500 env hr (u\<lparr>s_rulesFailLogged := True, w_evs := w_evs u @ first_report (s_rulesFailLogged u) u
        (c_str (''ModSecurityIIS: failed to load rules from '' @ [CHR 0x27] @ cf @ [CHR 0x27] @ '': '' @ err))\<rparr>)"
    using assms(1) by (simp add: rules_failed_def prog_simps run_log first_report_def smooth_def)
  ultimately show ?thesis
    using assms(4) resp by (simp add: OnBeginRequest_def prog_simps run_fail_closed)
qed

definition site :: config where
  "site = new_config\<lparr>m_bIsEnabled := True, m_pszPath := Some [99, 0]\<rparr>"

definition site_world :: world where
  "site_world = start_world\<lparr>w_config := Some site\<rparr>"

lemma site_facts [simp]:
  "m_bIsEnabled site" "m_pszPath site = Some [99, 0]" "w_config site_world = Some site"
  "w_evs site_world = []" "w_rsc site_world = None" "g_rulesCache site_world = Map.empty"
  "g_hEventLog site_world" "\<not> s_rulesFailLogged site_world"
  by (simp_all add: site_def site_world_def)

lemma site_config: "com env = quiet_com \<Longrightarrow> GetConfig env site_world = (Ok (S_OK, Some site), site_world)"
  by (simp add: GetConfig_stored quiet_com_def)

lemma char_of_99: "char_of (99::nat) = CHR ''c''"
  by code_simp

lemma site_file:
  "WideCharToMultiByte env = WideCharToMultiByte quiet_env \<Longrightarrow>
   WToUtf8 env (Some [99, 0]) (int (wcslen [99, 0]) * 2) v = (Ok ''c'', v)"
  using char_of_99 by (simp add: WToUtf8_def wcslen_def prog_simps Let_def)

theorem rules_failure_fails_closed_witness:
  "OnBeginRequest (quiet_env\<lparr>loadFromUri := (\<lambda>_ _. Inr (-1, quiet_rules, ''bad''))\<rparr>) True site_world =
     (Ok RQ_NOTIFICATION_FINISH_REQUEST,
      site_world\<lparr>s_rulesFailLogged := True,
        w_evs := [RulesLoaded ''c'' (-1),
                  EventLogged (''ModSecurityIIS: failed to load rules from '' @ [CHR 0x27] @ ''c'' @ [CHR 0x27] @ '': bad'') EVENTLOG_ERROR_TYPE,
                  RespSetStatus 500 ''Internal Server Error'']\<rparr>)"
proof -
  let ?env = "quiet_env\<lparr>loadFromUri := (\<lambda>_ _. Inr (-1, quiet_rules, ''bad''))\<rparr>"
  let ?u = "site_world\<lparr>w_evs := [RulesLoaded ''c'' (-1)]\<rparr>"
  have rules: "getRules ?env ''c'' site_world = (Ok (None, ''bad''), ?u)"
    by (simp add: getRules_def getRules_fast_def getRules_commit_def cache_find_def GetRulesFileTime_def
        prog_simps Let_def site_world_def start_world_def)
  have smooth: "smooth ?env" and closed: "ConfigFailClosed ?env"
    by (simp_all add: smooth_def ConfigFailClosed_def)
  have cfg: "GetConfig ?env site_world = (Ok (S_OK, Some site), site_world)" by (rule site_config) simp
  have cf: "WToUtf8 ?env (Some [99, 0]) (int (wcslen [99, 0]) * 2) site_world = (Ok ''c'', site_world)"
    by (rule site_file) simp
  show ?thesis
    using rules_failure_fails_closed[OF smooth _ cfg _ _ _ _ _ cf rules] closed
    by (simp add: first_report_def c_str_def)
qed

text \<open>A site that is not enabled, or that names no rules file, is left alone: the handler reads
  the configuration and nothing else happens.\<close>

theorem disabled_site_untouched:
  assumes "has_request env" and "GetConfig env w = (Ok (hr, Some cfg), v)" and "\<not> FAILED hr"
    and "\<not> m_bIsEnabled cfg \<or> m_pszPath cfg = None \<or> (\<exists>p. m_pszPath cfg = Some p \<and> p \<noteq> [] \<and> hd p = 0)"
  shows "OnBeginRequest env True w = (Ok RQ_NOTIFICATION_CONTINUE, v)"
proof -
  have "begin_configured env hr cfg v = (Ok (Inr hr), v)"
    using assms(4) by (auto simp: begin_configured_def prog_simps split: option.split)
  with begin_body_configured[OF assms(1-3)] assms(3) show ?thesis
    by (simp add: OnBeginRequest_def prog_simps)
qed

theorem disabled_site_untouched_witness:
  "OnBeginRequest quiet_env True (start_world\<lparr>w_config := Some new_config\<rparr>)
     = (Ok RQ_NOTIFICATION_CONTINUE, start_world\<lparr>w_config := Some new_config\<rparr>)"
  by (rule disabled_site_untouched[where hr = S_OK and cfg = new_config])
     (simp_all add: GetConfig_stored quiet_com_def new_config_def)


end
