(* ===== verification/Send_Response.thy ===== *)
theory Send_Response
  imports Begin_Request
begin

text \<open>
  The response handler \<open>OnSendResponse\<close> of \<open>src/ModSecurityIIS.cpp\<close>, with the streaming of file
  chunks, the two modes of the response-body phase and the policy of its catch blocks, and
  \<open>OnPostEndRequest\<close>. It runs once per flush of the handler. The theorems bound what one
  notification shows the engine, say when the response may still be replaced, and that the
  phases of a request run at most once over all its notifications.
\<close>

section \<open>File chunks\<close>

text \<open>
  The position belongs to the file object; a duplicated handle refers to the object of the
  handle it copies. \<open>ReadFile\<close> fills at most the buffer.
\<close>

definition response_buf :: nat where
  "response_buf = 65536"

definition wanted :: "ULONGLONG \<Rightarrow> ULONGLONG" where
  "wanted len = (if len > of_nat response_buf then of_nat response_buf else len)"

definition read_file :: "env \<Rightarrow> nat \<Rightarrow> nat \<Rightarrow> bytes option wprog" where
  "read_file env h want =
     bnd (gets (\<lambda>w. ReadFile env h (file_pos w (file_object env h)) want)) (\<lambda>answer.
       case answer of
         None \<Rightarrow> ret None
       | Some data \<Rightarrow>
           let got = take want data
           in andThen (modify (\<lambda>w. w\<lparr>file_pos := (file_pos w)
                 (file_object env h := file_pos w (file_object env h) + int (length got))\<rparr>))
                (ret (Some got)))"

lemma read_file_bound: "read_file env h n w = (Ok (Some got), v) \<Longrightarrow> length got \<le> n"
  by (auto simp: read_file_def prog_defs Let_def split: option.splits)

lemma wanted_le: "unat (wanted len) \<le> unat len"
  by (simp add: wanted_def response_buf_def word_less_nat_alt word_le_nat_alt)

lemma unat_minus_length:
  fixes len :: "'w::len word"
  assumes "length got \<le> unat len"
  shows "unat (len - of_nat (length got)) = unat len - length got"
proof -
  have "unat len < 2 ^ LENGTH('w)" by simp
  with assms have "length got < 2 ^ LENGTH('w)" by (rule le_less_trans)
  then have "unat (of_nat (length got) :: 'w word) = length got" by (simp add: unat_of_nat)
  with assms show ?thesis by (simp add: unat_sub_if')
qed

lemma read_shrinks:
  assumes "read_file env h (unat (wanted len)) w = (Ok (Some got), v)" and "got \<noteq> []"
  shows "unat (len - of_nat (length got)) < unat len"
    and "unat (len - of_nat (length got)) = unat len - length got" and "length got \<le> unat len"
proof -
  show le: "length got \<le> unat len" using read_file_bound[OF assms(1)] wanted_le[of len] by simp
  then show "unat (len - of_nat (length got)) = unat len - length got" by (rule unat_minus_length)
  with le assms(2) show "unat (len - of_nat (length got)) < unat len"
    by (cases got) auto
qed

function stream_file :: "env \<Rightarrow> nat \<Rightarrow> nat \<Rightarrow> ULONGLONG \<Rightarrow> ULONGLONG \<Rightarrow> ULONGLONG wprog" where
  "stream_file env tx h len appended w =
     (if len = 0 then (Ok appended, w)
      else case read_file env h (unat (wanted len)) w of
             (Ok (Some got), v) \<Rightarrow>
               if got = [] then (Ok appended, v)
               else (case tx_call env tx (AppendResponseBody got) v of
                       (Ok u, v') \<Rightarrow>
                         stream_file env tx h (len - of_nat (length got)) (appended + of_nat (length got)) v'
                     | (Throw e, v') \<Rightarrow> (Throw e, v')
                     | (Undef, v') \<Rightarrow> (Undef, v'))
           | (Ok None, v) \<Rightarrow> (Ok appended, v)
           | (Throw e, v) \<Rightarrow> (Throw e, v)
           | (Undef, v) \<Rightarrow> (Undef, v))"
  by pat_completeness auto

termination stream_file
  by (relation "measure (\<lambda>(env, tx, h, len, appended, w). unat len)")
     (auto simp: read_shrinks(1) dest!: sym[of _ "read_file _ _ _ _"])

declare stream_file.simps [simp del]


definition AppendResponseFileChunk ::
  "env \<Rightarrow> nat \<Rightarrow> nat \<Rightarrow> ULONGLONG \<Rightarrow> ULONGLONG \<Rightarrow> ULONGLONG wprog" where
  "AppendResponseFileChunk env tx hFile start len =
     bnd (gets (\<lambda>w. DuplicateHandle env (w_evs w) hFile)) (\<lambda>dup. case dup of
       None \<Rightarrow> ret 0
     | Some hDup \<Rightarrow>
         andThen (emit (HandleDuplicated hDup))
           (bnd (if SetFilePointerEx env hDup (sint start)
                 then andThen (modify (\<lambda>w. w\<lparr>file_pos := (file_pos w)(file_object env hDup := sint start)\<rparr>))
                   (let len' = (if len = HTTP_BYTE_RANGE_TO_EOF
                                then (case GetFileSizeEx env hDup of
                                        None \<Rightarrow> 0
                                      | Some fs \<Rightarrow> if fs > sint start then word_of_int (fs - sint start) else 0)
                                else len)
                    in stream_file env tx hDup len' 0)
                 else ret 0)
              (\<lambda>appended. andThen (emit (HandleClosed hDup)) (ret appended))))"

section \<open>One notification\<close>

text \<open>The table of the response's \<open>_TRANSHEADER\<close> macro, in its order.\<close>

definition response_headers :: "(http_header_id \<times> string) list" where
  "response_headers =
    [(''HttpHeaderCacheControl'', ''Cache-Control''), (''HttpHeaderConnection'', ''Connection''),
     (''HttpHeaderDate'', ''Date''), (''HttpHeaderKeepAlive'', ''Keep-Alive''),
     (''HttpHeaderPragma'', ''Pragma''), (''HttpHeaderTrailer'', ''Trailer''),
     (''HttpHeaderTransferEncoding'', ''Transfer-Encoding''), (''HttpHeaderUpgrade'', ''Upgrade''),
     (''HttpHeaderVia'', ''Via''), (''HttpHeaderWarning'', ''Warning''),
     (''HttpHeaderAllow'', ''Allow''), (''HttpHeaderContentLength'', ''Content-Length''),
     (''HttpHeaderContentType'', ''Content-Type''),
     (''HttpHeaderContentEncoding'', ''Content-Encoding''),
     (''HttpHeaderContentLanguage'', ''Content-Language''),
     (''HttpHeaderContentLocation'', ''Content-Location''),
     (''HttpHeaderContentMd5'', ''Content-Md5''), (''HttpHeaderContentRange'', ''Content-Range''),
     (''HttpHeaderExpires'', ''Expires''), (''HttpHeaderLastModified'', ''Last-Modified''),
     (''HttpHeaderAcceptRanges'', ''Accept-Ranges''), (''HttpHeaderAge'', ''Age''),
     (''HttpHeaderEtag'', ''Etag''), (''HttpHeaderLocation'', ''Location''),
     (''HttpHeaderProxyAuthenticate'', ''Proxy-Authenticate''),
     (''HttpHeaderRetryAfter'', ''Retry-After''), (''HttpHeaderServer'', ''Server''),
     (''HttpHeaderSetCookie'', ''Set-Cookie''), (''HttpHeaderVary'', ''Vary''),
     (''HttpHeaderWwwAuthenticate'', ''Www-Authenticate'')]"

definition response_protocol :: "request_ctx \<Rightarrow> string" where
  "response_protocol rsc =
     (if m_Protocol rsc = [] then ''HTTP/1.1'' else ''HTTP/'' @ m_Protocol rsc)"

text \<open>The header phase; the result says that the response was replaced.\<close>

definition send_headers :: "env \<Rightarrow> nat \<Rightarrow> send_notification \<Rightarrow> http_response \<Rightarrow> bool wprog" where
  "send_headers env tx n raw =
     bnd the_rsc (\<lambda>rsc.
       if m_ResponseHeadersFed rsc then ret False
       else andThen (for_each (known_header_step env tx AddResponseHeader (resp_KnownHeaders raw)) response_headers)
         (andThen (for_each (unknown_header_step env tx AddResponseHeader) (resp_UnknownHeaders raw))
         (andThen (heap_alloc env)
         (andThen (tx_call env tx (ProcessResponseHeaders (uint (sn_status n)) (response_protocol rsc)))
         (bnd (responseBodyBlockingEnabled env) (\<lambda>canBlock.
          bnd (ApplyIntervention env canBlock) (\<lambda>blocked.
            if blocked then ret True
            else andThen (set_rsc (\<lambda>r. r\<lparr>m_ResponseHeadersFed := True\<rparr>)) (ret False))))))))"

definition inspect_chunk ::
  "env \<Rightarrow> nat \<Rightarrow> ULONGLONG \<Rightarrow> data_chunk \<Rightarrow> ULONGLONG \<Rightarrow> ULONGLONG wprog" where
  "inspect_chunk env tx maxInspect chunk respInspected =
     (case chunk of
        FromMemory mem BufferLength \<Rightarrow>
          let len = ucast BufferLength
          in if respInspected < maxInspect \<and> len > 0
             then let n = (if respInspected + len > maxInspect then maxInspect - respInspected else len)
                  in if length mem < unat n then undef
                     else andThen (tx_call env tx (AppendResponseBody (take (unat n) mem)))
                            (ret (respInspected + n))
             else ret respInspected
      | FromFileHandle hFile start len \<Rightarrow>
          let len' = (if len = HTTP_BYTE_RANGE_TO_EOF then maxInspect - respInspected
                      else if respInspected + len > maxInspect then maxInspect - respInspected
                      else len)
          in if len' > 0
             then bnd (AppendResponseFileChunk env tx hFile start len') (\<lambda>n. ret (respInspected + n))
             else ret respInspected
      | OtherChunk _ \<Rightarrow> ret respInspected)"

primrec inspect_chunks ::
  "env \<Rightarrow> nat \<Rightarrow> ULONGLONG \<Rightarrow> data_chunk list \<Rightarrow> ULONGLONG \<Rightarrow> ULONGLONG wprog" where
  "inspect_chunks env tx maxInspect [] respInspected = ret respInspected"
| "inspect_chunks env tx maxInspect (c # cs) respInspected =
     bnd (inspect_chunk env tx maxInspect c respInspected) (inspect_chunks env tx maxInspect cs)"

definition more_data :: "send_notification \<Rightarrow> bool" where
  "more_data n \<longleftrightarrow> (sn_flags n AND HTTP_SEND_RESPONSE_FLAG_MORE_DATA) \<noteq> 0"

text \<open>Blocking mode; the result says that the response was replaced.\<close>

definition content_length_text :: "ULONGLONG \<Rightarrow> string" where
  "content_length_text n = take 19 (to_dec (unat n))"

definition send_blocking :: "env \<Rightarrow> send_notification \<Rightarrow> ULONGLONG \<Rightarrow> ULONGLONG \<Rightarrow> bool wprog" where
  "send_blocking env n maxInspect respInspected =
     bnd (responseBodyBlockingEnabled env) (\<lambda>blocking.
     bnd the_rsc (\<lambda>rsc.
       if \<not> (blocking \<and> \<not> m_ResponseBodyEvaluated rsc) then ret False
       else if more_data n
       then andThen (set_rsc (\<lambda>r. r\<lparr>m_ResponseBodyBlock := False\<rparr>)) (ret False)
       else andThen (whenever (respInspected > 0 \<and> sn_headersBeingSent n \<and>
                       respInspected < maxInspect \<and> sn_contentLength n = None)
              (resp_call env (RespSetHeader ''Content-Length'' (content_length_text respInspected))))
            (andThen (set_rsc (\<lambda>r. r\<lparr>m_ResponseBodyEvaluated := True\<rparr>))
            (bnd the_tx (\<lambda>tx.
             andThen (tx_call env tx ProcessResponseBody)
               (ApplyIntervention env True))))))"

definition send_inspecting :: "env \<Rightarrow> send_notification \<Rightarrow> unit wprog" where
  "send_inspecting env n =
     bnd (responseBodyBlockingEnabled env) (\<lambda>blocking.
     bnd the_rsc (\<lambda>rsc.
       whenever (\<not> blocking \<and> \<not> m_ResponseBodyEvaluated rsc \<and> \<not> more_data n)
         (andThen (set_rsc (\<lambda>r. r\<lparr>m_ResponseBodyEvaluated := True\<rparr>))
         (bnd the_tx (\<lambda>tx.
          andThen (tx_call env tx ProcessResponseBody)
            (bnd (ApplyIntervention env False) (\<lambda>_. ret ())))))))"

definition send_body :: "env \<Rightarrow> nat \<Rightarrow> send_notification \<Rightarrow> http_response \<Rightarrow> notification_status wprog" where
  "send_body env tx n raw =
     (let maxInspect = GetMaxInspectBodyBytes env
      in bnd (inspect_chunks env tx maxInspect (pEntityChunks raw) 0) (\<lambda>respInspected.
         bnd (send_blocking env n maxInspect respInspected) (\<lambda>blocked.
           if blocked then ret RQ_NOTIFICATION_FINISH_REQUEST
           else andThen (send_inspecting env n) (ret RQ_NOTIFICATION_CONTINUE))))"

definition send_response :: "env \<Rightarrow> send_notification \<Rightarrow> notification_status wprog" where
  "send_response env n =
     bnd (gets w_rsc) (\<lambda>slot. case slot of
       None \<Rightarrow> ret RQ_NOTIFICATION_CONTINUE
     | Some rsc \<Rightarrow> (case m_pTx rsc of
         None \<Rightarrow> ret RQ_NOTIFICATION_CONTINUE
       | Some tx \<Rightarrow>
           if \<not> has_response env then ret RQ_NOTIFICATION_CONTINUE
           else case sn_raw n of
             None \<Rightarrow> ret RQ_NOTIFICATION_CONTINUE
           | Some raw \<Rightarrow>
               bnd (send_headers env tx n raw) (\<lambda>blocked.
                 if blocked then ret RQ_NOTIFICATION_FINISH_REQUEST
                 else send_body env tx n raw)))"

definition SendResponseExceptionPolicy :: "env \<Rightarrow> notification_status wprog" where
  "SendResponseExceptionPolicy env =
     bnd (gets w_rsc) (\<lambda>slot.
       if (case slot of None \<Rightarrow> False
           | Some rsc \<Rightarrow> m_pTx rsc \<noteq> None \<and> \<not> m_ResponseHeadersFed rsc \<and> \<not> m_ResponseBodyEvaluated rsc)
       then andThen (whenever (has_response env) (emit (RespSetStatus 500 ''Internal Server Error'')))
              (ret RQ_NOTIFICATION_FINISH_REQUEST)
       else ret RQ_NOTIFICATION_CONTINUE)"

definition OnSendResponse :: "env \<Rightarrow> send_notification \<Rightarrow> notification_status wprog" where
  "OnSendResponse env n =
     try_catch (send_response env n)
       (\<lambda>e. andThen (ReportException ''OnSendResponse'' e) (SendResponseExceptionPolicy env))"

definition OnPostEndRequest :: "env \<Rightarrow> notification_status wprog" where
  "OnPostEndRequest env = ret RQ_NOTIFICATION_CONTINUE"

section \<open>What the handler keeps\<close>

lemma stream_file_if:
  "stream_file env tx h len appended =
     (if len = 0 then ret appended
      else bnd (read_file env h (unat (wanted len))) (\<lambda>answer. case answer of
             None \<Rightarrow> ret appended
           | Some got \<Rightarrow>
               if got = [] then ret appended
               else andThen (tx_call env tx (AppendResponseBody got))
                 (stream_file env tx h (len - of_nat (length got)) (appended + of_nat (length got)))))"
  by (rule ext, subst stream_file.simps)
     (auto simp: prog_defs split: prod.split outcome.split option.split)

lemma holds_file_pos: "keeps (holds t) (modify (\<lambda>w. w\<lparr>file_pos := f w\<rparr>))"
proof (rule triple_modify)
  fix w assume "holds t w"
  then show "holds t (w\<lparr>file_pos := f w\<rparr>)"
    using idle_cong[of "w\<lparr>file_pos := f w\<rparr>" w] by (simp add: holds_def)
qed

lemma keeps_read_file: "keeps (holds t) (read_file env h n)"
  unfolding read_file_def by (intro triple_intros holds_file_pos)

lemma read_file_Some:
  "triple P (read_file env h n) (\<lambda>a w. (\<forall>got. a = Some got \<longrightarrow> length got \<le> n)) (\<lambda>_ _. True)"
  by (auto simp: triple_def read_file_def prog_defs Let_def split: option.splits)

lemma triple_conj:
  assumes "triple P m Q E" and "triple P m Q' E'"
  shows "triple P m (\<lambda>x w. Q x w \<and> Q' x w) (\<lambda>e w. E e w \<and> E' e w)"
  using assms unfolding triple_def by (auto split: prod.splits outcome.splits)

lemma keeps_stream_file: "keeps (holds t) (stream_file env t h len a)"
proof (induction "unat len" arbitrary: len a rule: less_induct)
  case less
  have next_turn: "keeps (holds t) (stream_file env t h (len - of_nat (length got)) (a + of_nat (length got)))"
    if "got \<noteq> []" "length got \<le> unat (wanted len)" for got
  proof (rule less)
    from that wanted_le[of len] unat_minus_length[of got len]
    show "unat (len - of_nat (length got)) < unat len" by (cases got) auto
  qed
  have turn: "triple (\<lambda>w. holds t w \<and> (\<forall>got. x = Some got \<longrightarrow> length got \<le> unat (wanted len)))
      (case x of None \<Rightarrow> ret a
           | Some got \<Rightarrow> if got = [] then ret a
               else andThen (tx_call env t (AppendResponseBody got))
                 (stream_file env t h (len - of_nat (length got)) (a + of_nat (length got))))
      (\<lambda>_. holds t) (\<lambda>_. holds t)" for x
  proof (cases "\<exists>got. x = Some got \<and> got \<noteq> [] \<and> length got \<le> unat (wanted len)")
    case True
    then obtain got where got: "x = Some got" "got \<noteq> []" "length got \<le> unat (wanted len)" by blast
    show ?thesis
      unfolding got(1) option.case if_not_P[OF got(2)]
      by (rule triple_pre[OF triple_andThen[OF keeps_tx_call next_turn[OF got(2,3)]]]) auto
  next
    case False
    then show ?thesis by (cases x) (auto simp: triple_def ret_def)
  qed
  show ?case
    by (subst stream_file_if, rule triple_if, rule triple_ret, assumption,
        rule triple_bnd[OF triple_conseq[OF triple_conj[OF keeps_read_file read_file_Some]] turn]) auto
qed

lemma emits_read_file [emits_intros]: "emits A (read_file env h n)"
  unfolding read_file_def by (intro emits_intros emits_modify) simp

lemma emits_stream_file [emits_intros]:
  assumes "\<And>t bs. A (TxCall t (AppendResponseBody bs))" "\<And>t bs. A (TxThrew t (AppendResponseBody bs))"
  shows "emits A (stream_file env tx h len a)"
proof -
  have "\<exists>es. w_evs (snd (stream_file env tx h len a w)) = w_evs w @ es \<and> (\<forall>e \<in> set es. A e)" for w
  proof (induction env tx h len a w rule: stream_file.induct)
    case (1 env tx h len a w)
    obtain r v where read: "read_file env h (unat (wanted len)) w = (r, v)" by fastforce
    have v: "w_evs v = w_evs w"
      using read by (auto simp: read_file_def prog_defs Let_def split: option.splits)
    show ?case
    proof (cases "\<exists>got. len \<noteq> 0 \<and> r = Ok (Some got) \<and> got \<noteq> []")
      case True
      then obtain got where got: "len \<noteq> 0" "r = Ok (Some got)" "got \<noteq> []" by blast
      obtain x u where call: "tx_call env tx (AppendResponseBody got) v = (x, u)" by fastforce
      obtain es where es: "w_evs u = w_evs v @ es" "\<forall>e \<in> set es. A e"
        by (rule emitsE[OF emits_tx_call call, of A]) (use assms in auto)
      show ?thesis
      proof (cases x)
        case (Ok y)
        obtain es' where "w_evs (snd (stream_file env tx h (len - of_nat (length got)) (a + of_nat (length got)) u))
            = w_evs u @ es'" "\<forall>e \<in> set es'. A e"
          using 1[OF got(1) read[symmetric, unfolded got(2)] refl refl got(3) call[symmetric, unfolded Ok] refl] by blast
        with got read call Ok es v show ?thesis
          by (intro exI[of _ "es @ es'"]) (auto simp: stream_file.simps[of env tx h len a w])
      qed (use got read call es v in \<open>auto simp: stream_file.simps[of env tx h len a w]\<close>)
    next
      case False
      with read v show ?thesis
        by (intro exI[of _ "[]"])
           (auto simp: stream_file.simps[of env tx h len a w] split: outcome.splits option.splits)
    qed
  qed
  then show ?thesis by (rule emitsI)
qed

lemma keeps_file_chunk: "keeps (holds t) (AppendResponseFileChunk env t hFile start len)"
  unfolding AppendResponseFileChunk_def
  by (intro triple_intros keeps_stream_file holds_file_pos) auto

text \<open>A memory chunk points to as many bytes as its length says.\<close>

fun valid_chunk :: "data_chunk \<Rightarrow> bool" where
  "valid_chunk (FromMemory mem n) = (unat n \<le> length mem)"
| "valid_chunk _ = True"

definition valid_response :: "http_response \<Rightarrow> bool" where
  "valid_response raw \<longleftrightarrow> (\<forall>h. valid_known (resp_KnownHeaders raw h)) \<and>
     (\<forall>h \<in> set (resp_UnknownHeaders raw). valid_unknown h) \<and> (\<forall>c \<in> set (pEntityChunks raw). valid_chunk c)"

lemma ucast_length: "unat (ucast n :: ULONGLONG) = unat n" for n :: DWORD
proof -
  have "unat n < 2 ^ 32" using unsigned_less[of n, where 'a = nat] by simp
  then show ?thesis by (simp add: unsigned_ucast_eq take_bit_nat_eq_self)
qed

lemma unat_sum: "unat r + unat n < 2 ^ 64 \<Longrightarrow> unat (r + n) = unat r + unat n" for r n :: ULONGLONG
  by (simp add: unat_plus_if')

lemma part_of_chunk:
  fixes m r len :: ULONGLONG
  assumes "r \<le> m" and "r + len > m" and "unat r + unat len < 2 ^ 64"
  shows "unat (m - r) = unat m - unat r" and "unat (m - r) < unat len"
proof -
  show "unat (m - r) = unat m - unat r"
    using assms(1) by (simp add: unat_sub_if' word_le_nat_alt)
  with assms(1,2) unat_sum[OF assms(3)] show "unat (m - r) < unat len"
    unfolding word_less_nat_alt word_le_nat_alt by linarith
qed

lemma memory_part:
  fixes m r len :: ULONGLONG
  assumes "r < m" and "unat r + unat len < 2 ^ 64"
  shows "unat (if r + len > m then m - r else len) = min (unat len) (unat m - unat r)"
  using assms part_of_chunk[of r m len] unat_sum[of r len]
  by (auto simp: word_less_nat_alt word_le_nat_alt)

lemma small_chunk: "unat r + unat (ucast n :: ULONGLONG) < 2 ^ 64" if "unat r \<le> 2 ^ 63" for r :: ULONGLONG and n :: DWORD
  using that unsigned_less[of n, where 'a = nat] by (simp add: ucast_length)

lemma keeps_inspect_chunk:
  assumes "valid_chunk c" and "unat m \<le> 2 ^ 63"
  shows "keeps (holds t) (inspect_chunk env t m c r)"
proof -
  have mem: "\<not> length mem < unat (if r + ucast n > m then m - r else ucast n)"
    if "r < m" "unat n \<le> length mem" for mem and n :: DWORD
  proof -
    have r: "unat r \<le> 2 ^ 63" using that(1) assms(2) by (simp add: word_less_nat_alt)
    show ?thesis using memory_part[OF that(1) small_chunk[OF r, of n]] that(2) by (simp add: ucast_length)
  qed
  show ?thesis
    using assms(1)
    unfolding inspect_chunk_def Let_def
    by (cases c) (auto intro!: triple_intros keeps_file_chunk simp: mem)
qed

lemma keeps_inspect_chunks:
  assumes "\<forall>c \<in> set cs. valid_chunk c" and "unat m \<le> 2 ^ 63"
  shows "keeps (holds t) (inspect_chunks env t m cs r)"
  using assms(1) by (induction cs arbitrary: r) (auto intro!: triple_intros keeps_inspect_chunk assms(2))

lemma keeps_gate: "keeps (holds t) (responseBodyBlockingEnabled env)"
  unfolding responseBodyBlockingEnabled_def by (rule keeps_gets)

lemma triple_send_headers:
  assumes "has_response env" and "valid_response raw"
  shows "triple (holds t) (send_headers env t n raw)
     (\<lambda>b w. if b then released w else holds t w) (\<lambda>_. attached)"
proof -
  have fed: "triple (\<lambda>w. if b then released w else holds t w)
      (if b then ret True else andThen (set_rsc (\<lambda>r. r\<lparr>m_ResponseHeadersFed := True\<rparr>)) (ret False))
      (\<lambda>b w. if b then released w else holds t w) (\<lambda>_. attached)" for b
    by (cases b) (auto intro!: triple_ret triple_andThen[OF triple_catch[OF keeps_set_rsc_holds]] simp: ctx_frame_def)
  show ?thesis
    unfolding send_headers_def
    by (rule triple_bnd[OF triple_catch[OF keeps_the_rsc]], rule triple_if, rule triple_ret, simp,
        intro triple_andThen[OF triple_catch] triple_bnd[OF triple_catch[OF keeps_gate]]
          triple_bnd[OF Intervention_holds[OF assms(1)]] fed
          keeps_for_each keeps_known_header keeps_unknown_header keeps_tx_call keeps_heap_alloc)
       (use assms(2) in \<open>auto simp: valid_response_def\<close>)
qed

text \<open>The body phase of the response; afterwards it will not run again.\<close>

lemma triple_rule_body:
  assumes resp: "has_response env"
  shows "triple (\<lambda>w. holds t w \<and> \<not> m_ResponseBodyEvaluated (rsc_of w))
     (andThen (set_rsc (\<lambda>r. r\<lparr>m_ResponseBodyEvaluated := True\<rparr>))
        (bnd the_tx (\<lambda>tx. andThen (tx_call env tx ProcessResponseBody) (ApplyIntervention env canBlock))))
     (\<lambda>b w. if b then released w else holds t w) (\<lambda>_. attached)"
proof -
  let ?due = "\<lambda>w. holds t w \<and> ProcessResponseBody \<notin> set (calls_of t (w_evs w)) \<and> m_ResponseBodyEvaluated (rsc_of w)"
  have set: "triple (\<lambda>w. holds t w \<and> \<not> m_ResponseBodyEvaluated (rsc_of w))
      (set_rsc (\<lambda>r. r\<lparr>m_ResponseBodyEvaluated := True\<rparr>)) (\<lambda>_. ?due) (\<lambda>_. attached)"
  proof -
    have run: "case set_rsc (\<lambda>r. r\<lparr>m_ResponseBodyEvaluated := True\<rparr>) w of (Ok x, v) \<Rightarrow> ?due v
        | (Throw e, v) \<Rightarrow> attached v | (Undef, v) \<Rightarrow> False"
      if h: "holds t w" "\<not> m_ResponseBodyEvaluated (rsc_of w)" for w
    proof -
      from h(1) obtain r where r: "w_rsc w = Some r" "m_pTx r = Some t" and i: "idle w" by (rule holdsE)
      from i r h(2) have no: "ProcessResponseBody \<notin> set (calls_of t (w_evs w))"
        by (auto simp: idle_def ctx_inv_def rsc_of_def)
      have "idle (w\<lparr>w_rsc := Some (r\<lparr>m_ResponseBodyEvaluated := True\<rparr>)\<rparr>)"
        by (rule idle_ctx_frame[OF i r(1)]) (simp add: ctx_frame_def)
      with r no show ?thesis by (simp add: prog_simps holds_def rsc_of_def)
    qed
    show ?thesis unfolding triple_def by (intro allI impI, elim conjE) (rule run)
  qed
  have call: "triple ?due (tx_call env t ProcessResponseBody) (\<lambda>_. holds t) (\<lambda>_. attached)"
    by (rule triple_conseq[OF triple_response_body]) (auto intro: holds_attached)
  have "triple ?due (bnd the_tx (\<lambda>tx. andThen (tx_call env tx ProcessResponseBody) (ApplyIntervention env canBlock)))
      (\<lambda>b w. if b then released w else holds t w) (\<lambda>_. attached)"
    by (rule triple_the_tx[where t = t], erule conjunct1, rule triple_andThen[OF call Intervention_holds[OF resp]])
  with set show ?thesis by (rule triple_andThen)
qed

lemma gate_bnd:
  assumes "\<And>b. triple (holds t) (f b) Q (\<lambda>_. attached)"
  shows "triple (holds t) (bnd (responseBodyBlockingEnabled env) f) Q (\<lambda>_. attached)"
  by (rule triple_bnd[OF triple_catch[OF keeps_gate] assms])

lemma triple_send_blocking:
  assumes resp: "has_response env"
  shows "triple (holds t) (send_blocking env n m r)
     (\<lambda>b w. if b then released w else holds t w) (\<lambda>_. attached)"
proof -
  let ?Q = "\<lambda>b w. if b then released w else holds t w"
  have header: "triple (\<lambda>w. holds t w \<and> \<not> m_ResponseBodyEvaluated (rsc_of w))
      (whenever c (resp_call env (RespSetHeader h v)))
      (\<lambda>_ w. holds t w \<and> \<not> m_ResponseBodyEvaluated (rsc_of w)) (\<lambda>_. attached)" for c h v
    by (auto simp: triple_def run_whenever run_resp_call resp holds_def idle_neutral rsc_of_def)
  have "triple (holds t) (bnd the_rsc (\<lambda>rsc.
       if \<not> (blocking \<and> \<not> m_ResponseBodyEvaluated rsc) then ret False
       else if more_data n
       then andThen (set_rsc (\<lambda>r. r\<lparr>m_ResponseBodyBlock := False\<rparr>)) (ret False)
       else andThen (whenever (r > 0 \<and> sn_headersBeingSent n \<and> r < m \<and> sn_contentLength n = None)
              (resp_call env (RespSetHeader ''Content-Length'' (content_length_text r))))
            (andThen (set_rsc (\<lambda>r. r\<lparr>m_ResponseBodyEvaluated := True\<rparr>))
            (bnd the_tx (\<lambda>tx. andThen (tx_call env tx ProcessResponseBody) (ApplyIntervention env True))))))
      ?Q (\<lambda>_. attached)" for blocking
  proof (rule triple_the_rsc_tx[where t = t], assumption)
    fix rsc
    show "triple (\<lambda>w. holds t w \<and> w_rsc w = Some rsc) (
       if \<not> (blocking \<and> \<not> m_ResponseBodyEvaluated rsc) then ret False
       else if more_data n
       then andThen (set_rsc (\<lambda>r. r\<lparr>m_ResponseBodyBlock := False\<rparr>)) (ret False)
       else andThen (whenever (r > 0 \<and> sn_headersBeingSent n \<and> r < m \<and> sn_contentLength n = None)
              (resp_call env (RespSetHeader ''Content-Length'' (content_length_text r))))
            (andThen (set_rsc (\<lambda>r. r\<lparr>m_ResponseBodyEvaluated := True\<rparr>))
            (bnd the_tx (\<lambda>tx. andThen (tx_call env tx ProcessResponseBody) (ApplyIntervention env True)))))
      ?Q (\<lambda>_. attached)"
      by (intro triple_if triple_ret
            triple_pre[OF triple_andThen[OF header triple_rule_body[OF resp]]]
            triple_pre[OF triple_andThen[OF triple_catch[OF keeps_set_rsc_holds] triple_ret]])
         (auto simp: ctx_frame_def rsc_of_def)
  qed
  then show ?thesis unfolding send_blocking_def by (rule gate_bnd)
qed

lemma triple_send_inspecting:
  assumes resp: "has_response env"
  shows "triple (holds t) (send_inspecting env n) (\<lambda>_. attached) (\<lambda>_. attached)"
proof -
  have rule_body: "triple (\<lambda>w. holds t w \<and> \<not> m_ResponseBodyEvaluated (rsc_of w))
      (andThen (set_rsc (\<lambda>r. r\<lparr>m_ResponseBodyEvaluated := True\<rparr>))
         (bnd the_tx (\<lambda>tx. andThen (tx_call env tx ProcessResponseBody)
            (bnd (ApplyIntervention env False) (\<lambda>_. ret ()))))) (\<lambda>_. attached) (\<lambda>_. attached)"
  proof -
    have "triple (\<lambda>w. holds t w \<and> \<not> m_ResponseBodyEvaluated (rsc_of w))
      (bnd (andThen (set_rsc (\<lambda>r. r\<lparr>m_ResponseBodyEvaluated := True\<rparr>))
         (bnd the_tx (\<lambda>tx. andThen (tx_call env tx ProcessResponseBody) (ApplyIntervention env False))))
         (\<lambda>_. ret ())) (\<lambda>_. attached) (\<lambda>_. attached)"
      by (rule triple_bnd[OF triple_rule_body[OF resp]], rule triple_ret)
         (auto split: if_splits intro: holds_attached released_attached)
    then show ?thesis by (simp add: andThen_def bnd_assoc)
  qed
  have "triple (holds t) (bnd the_rsc (\<lambda>rsc.
       whenever (\<not> blocking \<and> \<not> m_ResponseBodyEvaluated rsc \<and> \<not> more_data n)
         (andThen (set_rsc (\<lambda>r. r\<lparr>m_ResponseBodyEvaluated := True\<rparr>))
         (bnd the_tx (\<lambda>tx. andThen (tx_call env tx ProcessResponseBody)
            (bnd (ApplyIntervention env False) (\<lambda>_. ret ()))))))) (\<lambda>_. attached) (\<lambda>_. attached)" for blocking
    by (rule triple_the_rsc_tx[where t = t], assumption, rule triple_whenever)
       (auto simp: rsc_of_def intro: triple_pre[OF rule_body] holds_attached)
  then show ?thesis unfolding send_inspecting_def by (rule gate_bnd)
qed

lemma cap_small: "unat (GetMaxInspectBodyBytes env) \<le> 2 ^ 63"
  using max_inspect_bounds(2)[of env] by (simp add: word_le_nat_alt)

lemma triple_send_body:
  assumes "has_response env" and "valid_response raw"
  shows "triple (holds t) (send_body env t n raw)
     (\<lambda>st w. attached w \<and> st \<noteq> RQ_NOTIFICATION_PENDING) (\<lambda>_. attached)"
proof -
  let ?m = "GetMaxInspectBodyBytes env"
  have chunks: "keeps (holds t) (inspect_chunks env t ?m (pEntityChunks raw) 0)"
    by (rule keeps_inspect_chunks) (use assms(2) cap_small in \<open>auto simp: valid_response_def\<close>)
  have finish: "triple (\<lambda>w. if b then released w else holds t w)
      (if b then ret RQ_NOTIFICATION_FINISH_REQUEST
       else andThen (send_inspecting env n) (ret RQ_NOTIFICATION_CONTINUE))
      (\<lambda>st w. attached w \<and> st \<noteq> RQ_NOTIFICATION_PENDING) (\<lambda>_. attached)" for b
    by (cases b)
       (auto intro!: triple_ret triple_andThen[OF triple_send_inspecting[OF assms(1)]] intro: released_attached)
  show ?thesis
    unfolding send_body_def Let_def
    by (rule triple_bnd[OF triple_catch[OF chunks]], rule triple_bnd[OF triple_send_blocking[OF assms(1)] finish])
qed

lemma triple_send_response:
  assumes "\<And>raw. sn_raw n = Some raw \<Longrightarrow> valid_response raw"
  shows "triple (\<lambda>w. idle w) (send_response env n)
     (\<lambda>st w. idle w \<and> st \<noteq> RQ_NOTIFICATION_PENDING) (\<lambda>_. idle)"
  unfolding send_response_def
proof (rule triple_gets_bnd)
  fix slot
  let ?pass = "triple (\<lambda>w. idle w \<and> w_rsc w = slot) (ret RQ_NOTIFICATION_CONTINUE)
      (\<lambda>st w. idle w \<and> st \<noteq> RQ_NOTIFICATION_PENDING) (\<lambda>_. idle)"
  have pass: ?pass by (rule triple_ret) simp
  have inspect: "triple (holds t) (bnd (send_headers env t n raw) (\<lambda>blocked.
         if blocked then ret RQ_NOTIFICATION_FINISH_REQUEST else send_body env t n raw))
      (\<lambda>st w. attached w \<and> st \<noteq> RQ_NOTIFICATION_PENDING) (\<lambda>_. attached)"
    if "has_response env" "sn_raw n = Some raw" for t raw
  proof -
    have "triple (\<lambda>w. if b then released w else holds t w)
        (if b then ret RQ_NOTIFICATION_FINISH_REQUEST else send_body env t n raw)
        (\<lambda>st w. attached w \<and> st \<noteq> RQ_NOTIFICATION_PENDING) (\<lambda>_. attached)" for b
      using triple_send_body[OF that(1) assms[OF that(2)]]
      by (cases b) (auto intro!: triple_ret intro: released_attached)
    from triple_bnd[OF triple_send_headers[OF that(1) assms[OF that(2)]] this] show ?thesis .
  qed
  show "triple (\<lambda>w. idle w \<and> w_rsc w = slot) (case slot of
       None \<Rightarrow> ret RQ_NOTIFICATION_CONTINUE
     | Some rsc \<Rightarrow> (case m_pTx rsc of
         None \<Rightarrow> ret RQ_NOTIFICATION_CONTINUE
       | Some tx \<Rightarrow>
           if \<not> has_response env then ret RQ_NOTIFICATION_CONTINUE
           else case sn_raw n of
             None \<Rightarrow> ret RQ_NOTIFICATION_CONTINUE
           | Some raw \<Rightarrow>
               bnd (send_headers env tx n raw) (\<lambda>blocked.
                 if blocked then ret RQ_NOTIFICATION_FINISH_REQUEST
                 else send_body env tx n raw)))
     (\<lambda>st w. idle w \<and> st \<noteq> RQ_NOTIFICATION_PENDING) (\<lambda>_. idle)"
    by (intro triple_case_option triple_if pass triple_conseq[OF inspect])
       (auto simp: holds_def attached_def)
qed

lemma report_idle: "triple idle (ReportException s e) (\<lambda>_. idle) E"
proof -
  have "\<exists>v. ReportException s e w = (Ok (), v)" for w
    by (auto simp: ReportException_def WriteEventViewerLog_def prog_defs Let_def emit_def)
  moreover have "keeps idle (ReportException s e)" by (intro triple_intros) simp
  ultimately show ?thesis unfolding triple_def by (fastforce split: prod.splits outcome.splits)
qed

lemma triple_policy:
  "triple idle (SendResponseExceptionPolicy env) (\<lambda>st w. idle w \<and> st \<noteq> RQ_NOTIFICATION_PENDING) E"
proof -
  have "triple idle (andThen (whenever (has_response env) (emit (RespSetStatus 500 ''Internal Server Error'')))
      (ret RQ_NOTIFICATION_FINISH_REQUEST)) (\<lambda>st w. idle w \<and> st \<noteq> RQ_NOTIFICATION_PENDING) E"
    by (cases "has_response env") (simp_all add: triple_def run_andThen_Ok run_whenever run_emit run_ret idle_neutral)
  then show ?thesis
    unfolding SendResponseExceptionPolicy_def
    by (intro triple_gets_bnd triple_if triple_ret) (erule triple_pre, simp_all)
qed

lemma triple_OnSendResponse:
  assumes "\<And>raw. sn_raw n = Some raw \<Longrightarrow> valid_response raw"
  shows "triple idle (OnSendResponse env n)
     (\<lambda>st w. idle w \<and> st \<noteq> RQ_NOTIFICATION_PENDING) (\<lambda>_ _. False)"
  unfolding OnSendResponse_def
  by (rule triple_try[OF triple_send_response[OF assms]], assumption,
      rule triple_andThen[OF report_idle triple_policy])

section \<open>What the handler adds to the trace\<close>

lemma emits_gate [emits_intros]: "emits A (responseBodyBlockingEnabled env)"
  unfolding responseBodyBlockingEnabled_def by (rule emits_pure)

lemma emits_convert [emits_intros]: "emits A (AToUtf8 a n)"
  unfolding AToUtf8_def by (intro emits_intros)

lemma emits_known [emits_intros]:
  "(\<And>n v. A (TxCall t (add n v)) \<and> A (TxThrew t (add n v))) \<Longrightarrow> emits A (known_header_step env t add hs e)"
  unfolding known_header_step_def by (intro emits_intros) auto

lemma emits_unknown [emits_intros]:
  "(\<And>n v. A (TxCall t (add n v)) \<and> A (TxThrew t (add n v))) \<Longrightarrow> emits A (unknown_header_step env t add h)"
  unfolding unknown_header_step_def by (intro emits_intros) auto

lemma emits_file_chunk [emits_intros]:
  assumes "\<And>t bs. A (TxCall t (AppendResponseBody bs)) \<and> A (TxThrew t (AppendResponseBody bs))"
    and "\<And>h. A (HandleDuplicated h) \<and> A (HandleClosed h)"
  shows "emits A (AppendResponseFileChunk env t f start len)"
  unfolding AppendResponseFileChunk_def by (intro emits_intros emits_modify) (use assms in auto)

lemma emits_chunk [emits_intros]:
  assumes "\<And>t bs. A (TxCall t (AppendResponseBody bs)) \<and> A (TxThrew t (AppendResponseBody bs))"
    and "\<And>h. A (HandleDuplicated h) \<and> A (HandleClosed h)"
  shows "emits A (inspect_chunk env t m c r)"
  unfolding inspect_chunk_def Let_def by (cases c) (auto intro!: emits_intros simp: assms)

lemma emits_chunks [emits_intros]:
  assumes "\<And>t bs. A (TxCall t (AppendResponseBody bs)) \<and> A (TxThrew t (AppendResponseBody bs))"
    and "\<And>h. A (HandleDuplicated h) \<and> A (HandleClosed h)"
  shows "emits A (inspect_chunks env t m cs r)"
  by (induction cs arbitrary: r) (auto intro!: emits_intros simp: assms)

lemma emits_send_silent: "emits body_silent (OnSendResponse env n)"
  unfolding OnSendResponse_def send_response_def send_headers_def send_body_def send_blocking_def
    send_inspecting_def SendResponseExceptionPolicy_def Let_def
  by (intro emits_intros) auto

section \<open>How much of a response the engine is shown\<close>

fun shown_call :: "tx_call \<Rightarrow> bytes" where
  "shown_call (AppendResponseBody bs) = bs"
| "shown_call _ = []"

definition shown :: "nat \<Rightarrow> event list \<Rightarrow> bytes" where
  "shown t evs = concat (map shown_call (calls_of t evs))"

lemma shown_append [simp]: "shown t (xs @ ys) = shown t xs @ shown t ys"
  by (simp add: shown_def)

lemma shown_simps [simp]:
  "shown t [] = []" "shown t (TxCall u c # es) = (if u = t then shown_call c @ shown t es else shown t es)"
  "shown t (TxThrew u c # es) = shown t es" "shown t (HandleDuplicated h # es) = shown t es"
  "shown t (HandleClosed h # es) = shown t es"
  by (simp_all add: shown_def)

text \<open>Events that show the engine no response body.\<close>

fun unshown :: "event \<Rightarrow> bool" where
  "unshown (TxCall t (AppendResponseBody bs)) = False"
| "unshown _ = True"

lemma shown_unshown: "\<forall>e \<in> set es. unshown e \<Longrightarrow> shown t (evs @ es) = shown t evs"
proof (induction es)
  case (Cons e es)
  from Cons.prems have "unshown e" by simp
  then have "shown t [e] = []"
    by (cases e) (auto simp: shown_def split: tx_call.split elim: unshown.elims)
  with Cons show ?case by (simp add: shown_def split: event.split if_splits)
qed simp

lemma emits_unshown: "emits unshown m \<Longrightarrow> m w = (r, v) \<Longrightarrow> shown t (w_evs v) = shown t (w_evs w)"
  by (metis emitsE shown_unshown)

lemma append_shown:
  assumes "tx_call env t (AppendResponseBody bs) w = (x, u)"
  shows "\<exists>j \<le> length bs. length (shown t (w_evs u)) = length (shown t (w_evs w)) + j \<and> (x = Ok () \<longrightarrow> j = length bs)"
proof (cases "live t (w_evs w)")
  case True
  with assms show ?thesis
    by (cases "tx_throws env (calls_of t (w_evs w)) (AppendResponseBody bs)")
       (auto simp: run_tx_call run_tx_call_throw)
next
  case False
  with assms show ?thesis by (auto simp: tx_call_def prog_simps)
qed

lemma stream_shown:
  "stream_file env t h len a w = (res, v) \<Longrightarrow>
   \<exists>j \<le> unat len. length (shown t (w_evs v)) = length (shown t (w_evs w)) + j \<and>
      (\<forall>a'. res = Ok a' \<longrightarrow> a' = a + of_nat j)"
proof (induction env t h len a w rule: stream_file.induct)
  case (1 env t h len a w)
  obtain r u where read: "read_file env h (unat (wanted len)) w = (r, u)" by fastforce
  have u: "w_evs u = w_evs w"
    using read by (auto simp: read_file_def prog_defs Let_def split: option.splits)
  show ?case
  proof (cases "\<exists>got. len \<noteq> 0 \<and> r = Ok (Some got) \<and> got \<noteq> []")
    case True
    then obtain got where got: "len \<noteq> 0" "r = Ok (Some got)" "got \<noteq> []" by blast
    note le = read_shrinks(2,3)[OF read[unfolded got(2)] got(3)]
    obtain x u' where call: "tx_call env t (AppendResponseBody got) u = (x, u')" by fastforce
    obtain j where j: "j \<le> length got" "length (shown t (w_evs u')) = length (shown t (w_evs u)) + j"
        "x = Ok () \<longrightarrow> j = length got"
      using append_shown[OF call] by blast
    show ?thesis
    proof (cases x)
      case (Ok y)
      have rest: "stream_file env t h (len - of_nat (length got)) (a + of_nat (length got)) u' = (res, v)"
        using 1(2) got read call Ok by (simp add: stream_file.simps[of env t h len a w])
      obtain i where i: "i \<le> unat (len - of_nat (length got))"
          "length (shown t (w_evs v)) = length (shown t (w_evs u')) + i"
          "\<forall>a'. res = Ok a' \<longrightarrow> a' = a + of_nat (length got) + of_nat i"
        using 1(1)[OF got(1) read[symmetric, unfolded got(2)] refl refl got(3) call[symmetric, unfolded Ok] refl rest] by blast
      with j Ok u le show ?thesis by (intro exI[of _ "length got + i"]) auto
    next
      case (Throw e)
      with 1(2) got read call have "v = u'" "res = Throw e" by (auto simp: stream_file.simps[of env t h len a w])
      with j le u show ?thesis by (intro exI[of _ j]) auto
    next
      case Undef
      with 1(2) got read call have "v = u'" "res = Undef" by (auto simp: stream_file.simps[of env t h len a w])
      with j le u show ?thesis by (intro exI[of _ j]) auto
    qed
  next
    case False
    with read u 1(2) show ?thesis
      by (intro exI[of _ 0]) (auto simp: stream_file.simps[of env t h len a w] split: outcome.splits option.splits if_splits)
  qed
qed

lemma file_chunk_shown:
  assumes "AppendResponseFileChunk env t f start len w = (res, v)" and "len \<noteq> HTTP_BYTE_RANGE_TO_EOF"
  shows "\<exists>j \<le> unat len. length (shown t (w_evs v)) = length (shown t (w_evs w)) + j \<and>
      (\<forall>a. res = Ok a \<longrightarrow> a = of_nat j)"
proof -
  consider "DuplicateHandle env (w_evs w) f = None"
    | h where "DuplicateHandle env (w_evs w) f = Some h" "\<not> SetFilePointerEx env h (sint start)"
    | h where "DuplicateHandle env (w_evs w) f = Some h" "SetFilePointerEx env h (sint start)"
    by (cases "DuplicateHandle env (w_evs w) f") auto
  then show ?thesis
  proof cases
    case 3
    let ?u = "w\<lparr>w_evs := w_evs w @ [HandleDuplicated h],
        file_pos := (file_pos w)(file_object env h := sint start)\<rparr>"
    obtain r x where stream: "stream_file env t h len 0 ?u = (r, x)" by fastforce
    from stream_shown[OF stream] obtain j where j: "j \<le> unat len"
      "length (shown t (w_evs x)) = length (shown t (w_evs w)) + j" "\<forall>a. r = Ok a \<longrightarrow> a = of_nat j"
      by auto
    have "(res, v) = (case r of Ok a \<Rightarrow> (Ok a, x\<lparr>w_evs := w_evs x @ [HandleClosed h]\<rparr>) | Throw e \<Rightarrow> (Throw e, x) | Undef \<Rightarrow> (Undef, x))"
      using assms 3 stream
      by (cases r) (auto simp: AppendResponseFileChunk_def prog_defs emit_def Let_def)
    with j show ?thesis by (cases r) auto
  qed (use assms in \<open>auto simp: AppendResponseFileChunk_def prog_simps\<close>)
qed

text \<open>A file range whose end is addressable next to the cap.\<close>

definition unwrapped :: "nat \<Rightarrow> data_chunk \<Rightarrow> bool" where
  "unwrapped cap c \<longleftrightarrow> (case c of
     FromFileHandle h start len \<Rightarrow> len = HTTP_BYTE_RANGE_TO_EOF \<or> cap + unat len < 2 ^ 64
   | _ \<Rightarrow> True)"

lemma chunk_shown:
  assumes run: "inspect_chunk env t m c r w = (res, v)" and r: "r \<le> m" and m: "unat m \<le> 2 ^ 63"
    and c: "unwrapped (unat m) c"
  shows "\<exists>j \<le> unat m - unat r. length (shown t (w_evs v)) = length (shown t (w_evs w)) + j \<and>
      (\<forall>r'. res = Ok r' \<longrightarrow> unat r' = unat r + j \<and> r' \<le> m)"
proof -
  have le: "unat r \<le> unat m" using r by (simp add: word_le_nat_alt)
  have m64: "unat m < 2 ^ 64" using unsigned_less[of m, where 'a = nat] by simp
  have grow: "unat (r + k) = unat r + unat k \<and> r + k \<le> m" if "unat k \<le> unat m - unat r" for k
    using that le m64 by (simp add: unat_sum word_le_nat_alt)
  have small: "unat (of_nat j :: ULONGLONG) = j" if "j \<le> unat m" for j
    using that m64 by (simp add: unat_of_nat)
  show ?thesis
  proof (cases c)
    case (FromMemory mem n)
    define k where "k = (if r + ucast n > m then m - r else ucast n)"
    show ?thesis
    proof (cases "r < m \<and> ucast n > (0::ULONGLONG) \<and> \<not> length mem < unat k")
      case True
      have k: "unat k = min (unat n) (unat m - unat r)"
        using memory_part[of r m "ucast n"] small_chunk[of r n] True le m by (auto simp: ucast_length k_def)
      obtain x u where call: "tx_call env t (AppendResponseBody (take (unat k) mem)) w = (x, u)" by fastforce
      from append_shown[OF call] obtain j where j: "j \<le> unat k"
          "length (shown t (w_evs u)) = length (shown t (w_evs w)) + j" "x = Ok () \<longrightarrow> j = unat k"
        using True by (auto simp: min_absorb2)
      have "(res, v) = (case x of Ok y \<Rightarrow> (Ok (r + k), u) | Throw e \<Rightarrow> (Throw e, u) | Undef \<Rightarrow> (Undef, u))"
        using run True FromMemory call by (cases x) (auto simp: inspect_chunk_def Let_def prog_simps k_def)
      with j k grow[of k] show ?thesis by (cases x) (auto intro!: exI[of _ j])
    next
      case False
      with run FromMemory r show ?thesis
        by (auto simp: inspect_chunk_def Let_def prog_simps k_def split: if_splits)
    qed
  next
    case (FromFileHandle f start len)
    let ?k = "if len = HTTP_BYTE_RANGE_TO_EOF then m - r else if r + len > m then m - r else len"
    have k: "unat ?k \<le> unat m - unat r"
    proof -
      have "unat (m - r) = unat m - unat r" using r by (simp add: unat_sub_if' word_le_nat_alt)
      moreover have "unat len \<le> unat m - unat r" if "len \<noteq> HTTP_BYTE_RANGE_TO_EOF" "\<not> r + len > m"
      proof -
        have "unat r + unat len < 2 ^ 64" using c that(1) le FromFileHandle by (simp add: unwrapped_def)
        from unat_sum[OF this] that(2) show ?thesis by (simp add: word_less_nat_alt)
      qed
      ultimately show ?thesis by simp
    qed
    show ?thesis
    proof (cases "?k > 0")
      case True
      have ne: "?k \<noteq> HTTP_BYTE_RANGE_TO_EOF"
      proof
        assume "?k = HTTP_BYTE_RANGE_TO_EOF"
        with k have "unat (HTTP_BYTE_RANGE_TO_EOF) \<le> 2 ^ 63" using m by simp
        then show False by (simp add: HTTP_BYTE_RANGE_TO_EOF_def unsigned_minus_1_eq_mask mask_eq_exp_minus_1)
      qed
      obtain x u where fc: "AppendResponseFileChunk env t f start ?k w = (x, u)" by fastforce
      obtain j where j: "j \<le> unat ?k" "length (shown t (w_evs u)) = length (shown t (w_evs w)) + j"
          "\<forall>a. x = Ok a \<longrightarrow> a = of_nat j"
        using file_chunk_shown[OF fc ne] by (elim exE conjE) (rule that)
      have "(res, v) = (case x of Ok y \<Rightarrow> (Ok (r + y), u) | Throw e \<Rightarrow> (Throw e, u) | Undef \<Rightarrow> (Undef, u))"
        using run True FromFileHandle fc by (cases x) (auto simp: inspect_chunk_def Let_def prog_simps)
      with j k grow[of "of_nat j"] small[of j] show ?thesis by (cases x) (auto intro!: exI[of _ j])
    next
      case False
      with run FromFileHandle r show ?thesis
        by (auto simp: inspect_chunk_def Let_def prog_simps split: if_splits)
    qed
  qed (use run r in \<open>auto simp: inspect_chunk_def prog_simps\<close>)
qed

lemma chunks_shown:
  assumes "\<forall>c \<in> set cs. unwrapped (unat m) c" and m: "unat m \<le> 2 ^ 63"
  shows "inspect_chunks env t m cs r w = (res, v) \<Longrightarrow> r \<le> m \<Longrightarrow>
    length (shown t (w_evs v)) \<le> length (shown t (w_evs w)) + (unat m - unat r)"
  using assms(1)
proof (induction cs arbitrary: r w)
  case (Cons c cs)
  obtain x u where one: "inspect_chunk env t m c r w = (x, u)" by fastforce
  obtain j where j: "j \<le> unat m - unat r" "length (shown t (w_evs u)) = length (shown t (w_evs w)) + j"
      "\<forall>r'. x = Ok r' \<longrightarrow> unat r' = unat r + j \<and> r' \<le> m"
    using chunk_shown[OF one Cons.prems(2) m] Cons.prems(3) by auto
  show ?case
  proof (cases x)
    case (Ok r')
    with Cons.prems one have "inspect_chunks env t m cs r' u = (res, v)" by (simp add: run_bnd_Ok)
    from Cons.IH[OF this] j Ok Cons.prems(3) show ?thesis by auto
  qed (use Cons.prems one j in \<open>auto simp: run_bnd_Throw run_bnd_Undef\<close>)
qed (simp add: prog_simps)

text \<open>\<open>shows_at_most t k m\<close>: however \<open>m\<close> ends, it shows the engine at most \<open>k\<close> bytes.\<close>

definition shows_at_most :: "nat \<Rightarrow> nat \<Rightarrow> 'a wprog \<Rightarrow> bool" where
  "shows_at_most t k m \<longleftrightarrow> (\<forall>w r v. m w = (r, v) \<longrightarrow>
     length (shown t (w_evs v)) \<le> length (shown t (w_evs w)) + k)"

lemma shows_nothing: "emits unshown m \<Longrightarrow> shows_at_most t 0 m"
  unfolding shows_at_most_def by (auto simp: emits_unshown)

lemma shows_bnd:
  assumes "shows_at_most t j m" and "\<And>x. shows_at_most t k (f x)"
  shows "shows_at_most t (j + k) (bnd m f)"
  unfolding shows_at_most_def
proof (intro allI impI)
  fix w r v assume run: "bnd m f w = (r, v)"
  obtain x u where m: "m w = (x, u)" by fastforce
  with assms(1) have u: "length (shown t (w_evs u)) \<le> length (shown t (w_evs w)) + j"
    unfolding shows_at_most_def by blast
  show "length (shown t (w_evs v)) \<le> length (shown t (w_evs w)) + (j + k)"
  proof (cases x)
    case (Ok y)
    with run m have "f y u = (r, v)" by (simp add: run_bnd_Ok)
    with assms(2)[of y] have "length (shown t (w_evs v)) \<le> length (shown t (w_evs u)) + k"
      unfolding shows_at_most_def by blast
    with u show ?thesis by simp
  qed (use run m u in \<open>auto simp: run_bnd_Throw run_bnd_Undef\<close>)
qed

lemma shows_try:
  assumes "shows_at_most t k m" and "\<And>e. emits unshown (h e)"
  shows "shows_at_most t k (try_catch m h)"
  unfolding shows_at_most_def
proof (intro allI impI)
  fix w r v assume run: "try_catch m h w = (r, v)"
  obtain x u where m: "m w = (x, u)" by fastforce
  with assms(1) have u: "length (shown t (w_evs u)) \<le> length (shown t (w_evs w)) + k"
    unfolding shows_at_most_def by blast
  show "length (shown t (w_evs v)) \<le> length (shown t (w_evs w)) + k"
  proof (cases x)
    case (Throw e)
    with run m have "h e u = (r, v)" by (simp add: run_try_Throw)
    from emits_unshown[OF assms(2) this] u show ?thesis by simp
  qed (use run m u in \<open>auto simp: run_try_Ok run_try_Undef\<close>)
qed

lemma emits_Intervention_unshown: "emits unshown (ApplyIntervention env canBlock)"
  unfolding ApplyIntervention_def block_request_def respond_def
  by (intro emits_intros emits_FinishRequest) auto

lemma send_phases_unshown:
  "emits unshown (send_headers env t n raw)" "emits unshown (send_blocking env n m r)"
  "emits unshown (send_inspecting env n)"
  unfolding send_headers_def send_blocking_def send_inspecting_def
  by (intro emits_intros emits_Intervention_unshown; auto)+

lemma send_body_shows:
  assumes "\<forall>c \<in> set (pEntityChunks raw). unwrapped (cap_of env) c"
  shows "shows_at_most t (cap_of env) (send_body env t n raw)"
proof -
  have "shows_at_most t (cap_of env) (inspect_chunks env t (GetMaxInspectBodyBytes env) (pEntityChunks raw) 0)"
    unfolding shows_at_most_def using chunks_shown[OF assms cap_small, of env t 0] by simp
  moreover have "shows_at_most t 0 (bnd (send_blocking env n (GetMaxInspectBodyBytes env) r) (\<lambda>blocked.
           if blocked then ret RQ_NOTIFICATION_FINISH_REQUEST
           else andThen (send_inspecting env n) (ret RQ_NOTIFICATION_CONTINUE)))" for r
    by (intro shows_nothing emits_intros send_phases_unshown)
  ultimately have "shows_at_most t (cap_of env + 0) (send_body env t n raw)"
    unfolding send_body_def Let_def by (rule shows_bnd)
  then show ?thesis by simp
qed

lemma shows_if: "(c \<Longrightarrow> shows_at_most t k m) \<Longrightarrow> (\<not> c \<Longrightarrow> shows_at_most t k n) \<Longrightarrow> shows_at_most t k (if c then m else n)"
  by simp

lemma shows_more: "shows_at_most t j m \<Longrightarrow> j \<le> k \<Longrightarrow> shows_at_most t k m"
  unfolding shows_at_most_def by (meson add_left_mono le_trans)

lemma shows_ret: "shows_at_most t k (ret x)"
  by (simp add: shows_at_most_def ret_def)

section \<open>The body as the engine sees it\<close>

text \<open>
  A handle whose file holds \<open>F\<close>: inside the file a read returns some nonempty part of what was
  asked for, however short; at the end it returns nothing or fails.
\<close>

definition serves :: "env \<Rightarrow> nat \<Rightarrow> bytes \<Rightarrow> bool" where
  "serves env h F \<longleftrightarrow> (\<forall>p want. want > 0 \<longrightarrow>
     (if p < length F
      then \<exists>k. 0 < k \<and> k \<le> want \<and> ReadFile env h (int p) want = Some (take k (drop p F))
      else ReadFile env h (int p) want = None \<or> ReadFile env h (int p) want = Some []))"

lemma run_read_file:
  assumes "serves env h F" and "file_pos w (file_object env h) = int p" and "want > 0"
  shows "p < length F \<Longrightarrow> \<exists>k. 0 < k \<and> k \<le> want \<and>
      read_file env h want w = (Ok (Some (take k (drop p F))),
        w\<lparr>file_pos := (file_pos w)(file_object env h := int (p + length (take k (drop p F))))\<rparr>)"
    and "p \<ge> length F \<Longrightarrow> \<exists>x. (x = None \<or> x = Some []) \<and> read_file env h want w = (Ok x, w)"
proof -
  have same: "w\<lparr>file_pos := (file_pos w)(file_object env h := int p)\<rparr> = w"
    using assms(2) by (simp add: fun_upd_idem_iff)
  show "p < length F \<Longrightarrow> \<exists>k. 0 < k \<and> k \<le> want \<and>
      read_file env h want w = (Ok (Some (take k (drop p F))),
        w\<lparr>file_pos := (file_pos w)(file_object env h := int (p + length (take k (drop p F))))\<rparr>)"
  proof -
    assume "p < length F"
    then obtain k where k: "0 < k" "k \<le> want" "ReadFile env h (int p) want = Some (take k (drop p F))"
      using assms(1)[unfolded serves_def, rule_format, OF assms(3), of p] by auto
    then show ?thesis
      by (intro exI[of _ k]) (simp add: read_file_def prog_simps assms(2) Let_def min_absorb1)
  qed
  assume "p \<ge> length F"
  then have "ReadFile env h (int p) want = None \<or> ReadFile env h (int p) want = Some []"
    using assms(1)[unfolded serves_def, rule_format, OF assms(3), of p] by simp
  then show "\<exists>x. (x = None \<or> x = Some []) \<and> read_file env h want w = (Ok x, w)"
    using same by (auto simp: read_file_def prog_simps assms(2) Let_def)
qed

lemma stream_exact:
  assumes "smooth env" and "serves env h F"
  shows "live t (w_evs w) \<Longrightarrow> file_pos w (file_object env h) = int p \<Longrightarrow>
    \<exists>bufs. stream_file env t h len a w =
        (Ok (a + of_nat (length (take (unat len) (drop p F)))),
         w\<lparr>file_pos := (file_pos w)(file_object env h := int (p + length (take (unat len) (drop p F)))),
           w_evs := w_evs w @ map (TxCall t \<circ> AppendResponseBody) bufs\<rparr>) \<and>
      concat bufs = take (unat len) (drop p F)"
proof (induction "unat len" arbitrary: len a w p rule: less_induct)
  case less
  have same: "w\<lparr>file_pos := (file_pos w)(file_object env h := int p)\<rparr> = w"
    using less.prems(2) by (simp add: fun_upd_idem_iff)
  show ?case
  proof (cases "len = 0 \<or> p \<ge> length F")
    case True
    have stream: "stream_file env t h len a w = (Ok a, w)"
    proof (cases "len = 0")
      case False
      then have "0 < unat (wanted len)" by (simp add: wanted_def response_buf_def unat_gt_0)
      from run_read_file(2)[OF assms(2) less.prems(2) this] True False show ?thesis
        by (auto simp: stream_file.simps[of env t h len a w])
    qed (simp add: stream_file.simps)
    have none: "min (length F - p) (unat len) = 0" using True by auto
    show ?thesis using True by (intro exI[of _ "[]"]) (auto simp: stream none same)
  next
    case False
    then have len: "len \<noteq> 0" and p: "p < length F" by auto
    then have "0 < unat (wanted len)" by (simp add: wanted_def response_buf_def unat_gt_0)
    from run_read_file(1)[OF assms(2) less.prems(2) this p] obtain k where k: "0 < k" "k \<le> unat (wanted len)"
      and read: "read_file env h (unat (wanted len)) w = (Ok (Some (take k (drop p F))),
        w\<lparr>file_pos := (file_pos w)(file_object env h := int (p + length (take k (drop p F))))\<rparr>)" by blast
    let ?got = "take k (drop p F)"
    let ?u = "w\<lparr>file_pos := (file_pos w)(file_object env h := int (p + length ?got)),
        w_evs := w_evs w @ [TxCall t (AppendResponseBody ?got)]\<rparr>"
    have got: "?got \<noteq> []" using k p by simp
    note shrink = read_shrinks[OF read got]
    have l: "live t (w_evs ?u)" using live_calls[of t "w_evs w" t "[c]" for c] less.prems(1) by simp
    from less.hyps[OF shrink(1) l, of "p + length ?got" "a + of_nat (length ?got)"]
    obtain bufs where rest: "stream_file env t h (len - of_nat (length ?got)) (a + of_nat (length ?got)) ?u =
        (Ok (a + of_nat (length ?got) + of_nat (length (take (unat len - length ?got) (drop (p + length ?got) F)))),
         ?u\<lparr>file_pos := (file_pos ?u)(file_object env h := int (p + length ?got + length (take (unat len - length ?got) (drop (p + length ?got) F)))),
           w_evs := w_evs ?u @ map (TxCall t \<circ> AppendResponseBody) bufs\<rparr>)"
        "concat bufs = take (unat len - length ?got) (drop (p + length ?got) F)"
      unfolding shrink(2) by (auto simp: less.prems)
    have split: "take (unat len) (drop p F) = ?got @ take (unat len - length ?got) (drop (p + length ?got) F)"
    proof -
      have "take (unat len) (drop p F) = take (length ?got + (unat len - length ?got)) (drop p F)"
        using shrink(3) by simp
      also have "\<dots> = take (length ?got) (drop p F) @ take (unat len - length ?got) (drop (length ?got) (drop p F))"
        by (rule take_add)
      also have "take (length ?got) (drop p F) = ?got" by (simp add: min_def)
      finally show ?thesis by (simp only: drop_drop add.commute)
    qed
    have "stream_file env t h len a w = stream_file env t h (len - of_nat (length ?got)) (a + of_nat (length ?got)) ?u"
      using len got read assms(1) less.prems(1)
      by (simp add: stream_file.simps[of env t h len a w] run_tx_call smooth_def)
    with rest split show ?thesis
      by (intro exI[of _ "?got # bufs"]) (simp add: algebra_simps)
  qed
qed

text \<open>
  The bytes of a chunk the module can read, where \<open>files h\<close> is the content behind a handle;
  a chunk of another kind has none.
\<close>

definition body_bytes :: "(nat \<Rightarrow> bytes) \<Rightarrow> data_chunk \<Rightarrow> bytes" where
  "body_bytes files c = (case c of
     FromMemory mem n \<Rightarrow> take (unat n) mem
   | FromFileHandle h start len \<Rightarrow>
       (if len = HTTP_BYTE_RANGE_TO_EOF then drop (unat start) (files h)
        else take (unat len) (drop (unat start) (files h)))
   | OtherChunk _ \<Rightarrow> [])"

definition file_host :: "env \<Rightarrow> (nat \<Rightarrow> bytes) \<Rightarrow> bool" where
  "file_host env files \<longleftrightarrow> (\<forall>evs h. \<exists>h'. DuplicateHandle env evs h = Some h' \<and>
     serves env h' (files h) \<and> (\<forall>off \<ge> 0. SetFilePointerEx env h' off))"

text \<open>A file range starts at a nonnegative offset.\<close>

definition readable :: "nat \<Rightarrow> data_chunk \<Rightarrow> bool" where
  "readable cap c \<longleftrightarrow> valid_chunk c \<and> unwrapped cap c \<and>
     (case c of FromFileHandle h start len \<Rightarrow> unat start < 2 ^ 63 | _ \<Rightarrow> True)"

text \<open>Running \<open>m\<close> shows the engine \<open>bs\<close>, through calls that append a body and nothing else.\<close>

definition shows_exactly :: "nat \<Rightarrow> bytes \<Rightarrow> world \<Rightarrow> world \<Rightarrow> bool" where
  "shows_exactly t bs w v \<longleftrightarrow> w_rsc v = w_rsc w \<and> live t (w_evs v) = live t (w_evs w) \<and>
     (\<exists>bufs. calls_of t (w_evs v) = calls_of t (w_evs w) @ map AppendResponseBody bufs \<and> concat bufs = bs)"

lemma shows_exactly_trans:
  "shows_exactly t bs w u \<Longrightarrow> shows_exactly t cs u v \<Longrightarrow> shows_exactly t (bs @ cs) w v"
  unfolding shows_exactly_def
  by (elim conjE exE, intro conjI, simp, simp, rule exI, rule conjI, simp del: map_append add: map_append[symmetric]) auto

lemma shows_exactly_refl: "shows_exactly t [] w w"
  unfolding shows_exactly_def by (intro conjI exI[of _ "[]"]) auto

lemma sint_offset:
  fixes start :: ULONGLONG
  assumes "unat start < 2 ^ 63"
  shows "sint start = int (unat start)"
proof -
  have "sint start = signed_take_bit 63 (uint start)" using sint_uint[of start] by simp
  also have "\<dots> = uint start"
  proof (rule signed_take_bit_int_eq_self)
    have "int (unat start) < int (2 ^ 63)" using assms by (simp only: of_nat_less_iff)
    then show "uint start < 2 ^ 63" unfolding uint_nat by (simp only: of_nat_power of_nat_numeral)
    show "- (2 ^ 63) \<le> uint start" by (rule order_trans[of _ 0]) simp_all
  qed
  finally show ?thesis by (simp only: uint_nat)
qed

lemma calls_of_map [simp]: "calls_of t (map (TxCall t \<circ> f) xs) = map f xs"
  by (induction xs) auto

lemma file_chunk_exact:
  assumes "smooth env" and "file_host env files" and "live t (w_evs w)" and "unat start < 2 ^ 63"
    and "len \<noteq> HTTP_BYTE_RANGE_TO_EOF"
  shows "\<exists>v. AppendResponseFileChunk env t f start len w =
      (Ok (of_nat (length (take (unat len) (drop (unat start) (files f))))), v) \<and>
    shows_exactly t (take (unat len) (drop (unat start) (files f))) w v"
proof -
  obtain h where h: "DuplicateHandle env (w_evs w) f = Some h" "serves env h (files f)"
      "SetFilePointerEx env h (sint start)"
    using assms(2)[unfolded file_host_def, rule_format, of "w_evs w" f] sint_offset[OF assms(4)] by auto
  let ?u = "w\<lparr>w_evs := w_evs w @ [HandleDuplicated h], file_pos := (file_pos w)(file_object env h := sint start)\<rparr>"
  have l: "live t (w_evs ?u)" using assms(3) by (simp add: live_append) (simp add: live_def)
  obtain bufs where stream: "stream_file env t h len 0 ?u =
        (Ok (of_nat (length (take (unat len) (drop (unat start) (files f))))),
         ?u\<lparr>file_pos := (file_pos ?u)(file_object env h := int (unat start + length (take (unat len) (drop (unat start) (files f))))),
           w_evs := w_evs ?u @ map (TxCall t \<circ> AppendResponseBody) bufs\<rparr>)"
      "concat bufs = take (unat len) (drop (unat start) (files f))"
    using stream_exact[OF assms(1) h(2) l, of "unat start" len 0] sint_offset[OF assms(4)] by auto
  let ?v = "?u\<lparr>file_pos := (file_pos ?u)(file_object env h := int (unat start + length (take (unat len) (drop (unat start) (files f))))),
           w_evs := w_evs ?u @ map (TxCall t \<circ> AppendResponseBody) bufs @ [HandleClosed h]\<rparr>"
  have "AppendResponseFileChunk env t f start len w =
      (Ok (of_nat (length (take (unat len) (drop (unat start) (files f))))), ?v)"
    using h assms(5) stream(1) by (simp add: AppendResponseFileChunk_def prog_simps Let_def)
  moreover have "shows_exactly t (take (unat len) (drop (unat start) (files f))) w ?v"
    unfolding shows_exactly_def
    by (intro conjI exI[of _ bufs]) (auto simp: stream(2) live_def)
  ultimately show ?thesis by blast
qed

lemma chunk_exact:
  assumes env: "smooth env" "file_host env files" and l: "live t (w_evs w)" and r: "r \<le> m"
    and m: "unat m \<le> 2 ^ 63" and c: "readable (unat m) c"
  shows "\<exists>r' v. inspect_chunk env t m c r w = (Ok r', v) \<and> r' \<le> m \<and>
     unat r' = unat r + length (take (unat m - unat r) (body_bytes files c)) \<and>
     shows_exactly t (take (unat m - unat r) (body_bytes files c)) w v"
proof -
  have le: "unat r \<le> unat m" using r by (simp add: word_le_nat_alt)
  have m64: "unat m < 2 ^ 64" using unsigned_less[of m, where 'a = nat] by simp
  have grow: "unat (r + k) = unat r + unat k \<and> r + k \<le> m" if "unat k \<le> unat m - unat r" for k
    using that le m64 by (simp add: unat_sum word_le_nat_alt)
  have small: "unat (of_nat j :: ULONGLONG) = j" if "j \<le> unat m" for j
    using that m64 by (simp add: unat_of_nat)
  have diff: "unat (m - r) = unat m - unat r" using r by (simp add: unat_sub_if' word_le_nat_alt)
  show ?thesis
  proof (cases c)
    case (FromMemory mem n)
    then have mem: "unat n \<le> length mem" using c by (simp add: readable_def)
    have bytes: "take (unat m - unat r) (body_bytes files c) = take (min (unat n) (unat m - unat r)) mem"
      using FromMemory by (simp add: body_bytes_def min.commute)
    define k where "k = (if r + ucast n > m then m - r else ucast n)"
    show ?thesis
    proof (cases "r < m \<and> ucast n > (0::ULONGLONG)")
      case True
      have k: "unat k = min (unat n) (unat m - unat r)"
        using memory_part[of r m "ucast n"] small_chunk[of r n] True le m by (auto simp: ucast_length k_def)
      let ?v = "w\<lparr>w_evs := w_evs w @ [TxCall t (AppendResponseBody (take (unat k) mem))]\<rparr>"
      have "inspect_chunk env t m c r w = (Ok (r + k), ?v)"
        using True FromMemory env(1) l k mem
        by (simp add: inspect_chunk_def Let_def prog_simps smooth_def k_def[symmetric])
      moreover have "shows_exactly t (take (min (unat n) (unat m - unat r)) mem) w ?v"
        unfolding shows_exactly_def
        by (intro conjI exI[of _ "[take (unat k) mem]"]) (auto simp: k live_def)
      moreover have "length (take (min (unat n) (unat m - unat r)) mem) = unat k" using k mem by simp
      ultimately show ?thesis unfolding bytes using grow[of k] k by (intro exI[of _ "r + k"] exI[of _ ?v]) simp
    next
      case False
      then have "min (unat n) (unat m - unat r) = 0"
        using le by (auto simp: word_less_nat_alt ucast_length)
      with False FromMemory r show ?thesis
        unfolding bytes by (auto simp: inspect_chunk_def Let_def prog_simps shows_exactly_refl)
    qed
  next
    case (FromFileHandle f start len)
    let ?F = "drop (unat start) (files f)"
    let ?k = "if len = HTTP_BYTE_RANGE_TO_EOF then m - r else if r + len > m then m - r else len"
    have start: "unat start < 2 ^ 63" using c FromFileHandle by (simp add: readable_def)
    have part: "unat ?k = (if len = HTTP_BYTE_RANGE_TO_EOF then unat m - unat r else min (unat len) (unat m - unat r))"
    proof (cases "len = HTTP_BYTE_RANGE_TO_EOF")
      case False
      then have "unat r + unat len < 2 ^ 64" using c le FromFileHandle by (simp add: readable_def unwrapped_def)
      from unat_sum[OF this] False diff le show ?thesis by (simp add: word_less_nat_alt)
    qed (simp add: diff)
    have k: "unat ?k \<le> unat m - unat r" unfolding part by simp
    have bytes: "take (unat m - unat r) (body_bytes files c) = take (unat ?k) ?F"
      using FromFileHandle part by (simp add: body_bytes_def min.commute)
    show ?thesis
    proof (cases "?k > 0")
      case True
      have ne: "?k \<noteq> HTTP_BYTE_RANGE_TO_EOF"
      proof
        assume "?k = HTTP_BYTE_RANGE_TO_EOF"
        with k have "unat (HTTP_BYTE_RANGE_TO_EOF) \<le> 2 ^ 63" using m by simp
        then show False by (simp add: HTTP_BYTE_RANGE_TO_EOF_def unsigned_minus_1_eq_mask mask_eq_exp_minus_1)
      qed
      obtain v where v: "AppendResponseFileChunk env t f start ?k w = (Ok (of_nat (length (take (unat ?k) ?F))), v)"
          "shows_exactly t (take (unat ?k) ?F) w v"
        using file_chunk_exact[OF env l start ne, of f] by (elim exE conjE) (rule that)
      let ?n = "length (take (unat ?k) ?F)"
      have n: "?n \<le> unat m - unat r" using k by simp
      have run: "inspect_chunk env t m c r w = (Ok (r + of_nat ?n), v)"
        using True FromFileHandle v(1) by (simp add: inspect_chunk_def Let_def prog_simps)
      have "unat (of_nat ?n :: ULONGLONG) = ?n" by (rule small) (use n in linarith)
      with grow[of "of_nat ?n"] n run v(2) show ?thesis
        unfolding bytes by (intro exI[of _ "r + of_nat ?n"] exI[of _ v]) simp
    next
      case False
      then have "unat ?k = 0" by (simp add: word_less_nat_alt)
      with False FromFileHandle r show ?thesis
        unfolding bytes by (intro exI[of _ r] exI[of _ w])
           (simp add: inspect_chunk_def Let_def prog_simps shows_exactly_refl)
    qed
  next
    case (OtherChunk b)
    with r show ?thesis
      by (intro exI[of _ r] exI[of _ w]) (simp add: inspect_chunk_def prog_simps body_bytes_def shows_exactly_refl)
  qed
qed

lemma chunks_exact:
  assumes env: "smooth env" "file_host env files" and m: "unat m \<le> 2 ^ 63"
  shows "live t (w_evs w) \<Longrightarrow> r \<le> m \<Longrightarrow> \<forall>c \<in> set cs. readable (unat m) c \<Longrightarrow>
   \<exists>r' v. inspect_chunks env t m cs r w = (Ok r', v) \<and> r' \<le> m \<and>
     unat r' = unat r + length (take (unat m - unat r) (concat (map (body_bytes files) cs))) \<and>
     shows_exactly t (take (unat m - unat r) (concat (map (body_bytes files) cs))) w v"
proof (induction cs arbitrary: r w)
  case Nil
  then show ?case by (intro exI[of _ r] exI[of _ w]) (simp add: prog_simps shows_exactly_refl)
next
  case (Cons c cs)
  let ?b = "take (unat m - unat r) (body_bytes files c)"
  obtain s u where one: "inspect_chunk env t m c r w = (Ok s, u)" "s \<le> m" "unat s = unat r + length ?b"
      "shows_exactly t ?b w u"
    using chunk_exact[OF env Cons.prems(1,2) m, of c] Cons.prems(3) by auto
  have "live t (w_evs u)" using one(4) Cons.prems(1) by (simp add: shows_exactly_def)
  from Cons.IH[OF this one(2)] Cons.prems(3)
  obtain r' v where rest: "inspect_chunks env t m cs s u = (Ok r', v)" "r' \<le> m"
      "unat r' = unat s + length (take (unat m - unat s) (concat (map (body_bytes files) cs)))"
      "shows_exactly t (take (unat m - unat s) (concat (map (body_bytes files) cs))) u v" by auto
  have split: "take (unat m - unat r) (concat (map (body_bytes files) (c # cs))) =
      ?b @ take (unat m - unat s) (concat (map (body_bytes files) cs))"
    using one(3) by (auto simp: min_def)
  from one(1,3) rest shows_exactly_trans[OF one(4) rest(4)] show ?case
    unfolding split by (intro exI[of _ r'] exI[of _ v]) (simp add: run_bnd_Ok)
qed

section \<open>What the stored context rules out\<close>

text \<open>
  \<open>mild I A Q m\<close>: from a state whose context satisfies \<open>I\<close>, \<open>m\<close> keeps it so, however it ends,
  adds only events that satisfy \<open>A\<close>, and what it returns satisfies \<open>Q\<close>.
\<close>

definition mild :: "(request_ctx \<Rightarrow> bool) \<Rightarrow> (event \<Rightarrow> bool) \<Rightarrow> ('a \<Rightarrow> bool) \<Rightarrow> 'a wprog \<Rightarrow> bool" where
  "mild I A Q m \<longleftrightarrow> (\<forall>w c r v. w_rsc w = Some c \<longrightarrow> I c \<longrightarrow> m w = (r, v) \<longrightarrow>
     (\<exists>c' es. w_rsc v = Some c' \<and> I c' \<and> w_evs v = w_evs w @ es \<and> (\<forall>e \<in> set es. A e) \<and>
        (\<forall>x. r = Ok x \<longrightarrow> Q x)))"

abbreviation quietly :: "(request_ctx \<Rightarrow> bool) \<Rightarrow> (event \<Rightarrow> bool) \<Rightarrow> 'a wprog \<Rightarrow> bool" where
  "quietly I A m \<equiv> mild I A (\<lambda>_. True) m"

named_theorems mild_intros "rules that take a mild statement apart along the program"

lemma mildI:
  assumes "\<And>w c r v. w_rsc w = Some c \<Longrightarrow> I c \<Longrightarrow> m w = (r, v) \<Longrightarrow>
     \<exists>c' es. w_rsc v = Some c' \<and> I c' \<and> w_evs v = w_evs w @ es \<and> (\<forall>e \<in> set es. A e) \<and> (\<forall>x. r = Ok x \<longrightarrow> Q x)"
  shows "mild I A Q m"
  unfolding mild_def by (intro allI impI) (rule assms)

lemma mildD:
  assumes "mild I A Q m" and "w_rsc w = Some c" and "I c" and "m w = (r, v)"
  shows "\<exists>c' es. w_rsc v = Some c' \<and> I c' \<and> w_evs v = w_evs w @ es \<and> (\<forall>e \<in> set es. A e) \<and> (\<forall>x. r = Ok x \<longrightarrow> Q x)"
  by (rule assms(1)[unfolded mild_def, rule_format, OF assms(2-4)])

lemma mildE:
  assumes "mild I A Q m" and "w_rsc w = Some c" and "I c" and "m w = (r, v)"
  obtains c' es where "w_rsc v = Some c'" and "I c'" and "w_evs v = w_evs w @ es"
    and "\<forall>e \<in> set es. A e" and "\<forall>x. r = Ok x \<longrightarrow> Q x"
  using mildD[OF assms] by (elim exE conjE) (rule that)

lemma mild_step:
  assumes m: "mild I A P m" and f: "\<And>x. P x \<Longrightarrow> mild I A Q (f x)"
  shows "mild I A Q (bnd m f)"
proof (rule mildI)
  fix w c r v assume c: "w_rsc w = Some c" "I c" and run: "bnd m f w = (r, v)"
  obtain x u where one: "m w = (x, u)" by fastforce
  obtain c' es where u: "w_rsc u = Some c'" "I c'" "w_evs u = w_evs w @ es" "\<forall>e \<in> set es. A e"
      "\<forall>y. x = Ok y \<longrightarrow> P y"
    by (rule mildE[OF m c one])
  show "\<exists>c' es. w_rsc v = Some c' \<and> I c' \<and> w_evs v = w_evs w @ es \<and> (\<forall>e \<in> set es. A e) \<and> (\<forall>x. r = Ok x \<longrightarrow> Q x)"
  proof (cases x)
    case (Ok y)
    with run one have "f y u = (r, v)" by (simp add: bnd_def)
    from mildE[OF f u(1,2) this] u(5) Ok obtain c'' es' where
      "w_rsc v = Some c''" "I c''" "w_evs v = w_evs u @ es'" "\<forall>e \<in> set es'. A e" "\<forall>x. r = Ok x \<longrightarrow> Q x" by blast
    with u show ?thesis by (intro exI[of _ c''] exI[of _ "es @ es'"]) auto
  qed (use run one u in \<open>auto simp: bnd_def\<close>)
qed

lemma mild_try:
  assumes m: "mild I A Q m" and h: "\<And>e. mild I A Q (h e)"
  shows "mild I A Q (try_catch m h)"
proof (rule mildI)
  fix w c r v assume c: "w_rsc w = Some c" "I c" and run: "try_catch m h w = (r, v)"
  obtain x u where one: "m w = (x, u)" by fastforce
  obtain c' es where u: "w_rsc u = Some c'" "I c'" "w_evs u = w_evs w @ es" "\<forall>e \<in> set es. A e"
      "\<forall>y. x = Ok y \<longrightarrow> Q y"
    by (rule mildE[OF m c one])
  show "\<exists>c' es. w_rsc v = Some c' \<and> I c' \<and> w_evs v = w_evs w @ es \<and> (\<forall>e \<in> set es. A e) \<and> (\<forall>x. r = Ok x \<longrightarrow> Q x)"
  proof (cases x)
    case (Throw e)
    with run one have "h e u = (r, v)" by (simp add: try_catch_def)
    from mildD[OF h u(1,2) this] obtain c'' es' where
      "w_rsc v = Some c''" "I c''" "w_evs v = w_evs u @ es'" "\<forall>e \<in> set es'. A e" "\<forall>x. r = Ok x \<longrightarrow> Q x"
      by (elim exE conjE) (rule that)
    with u show ?thesis by (intro exI[of _ c''] exI[of _ "es @ es'"]) auto
  qed (use run one u in \<open>auto simp: try_catch_def\<close>)
qed

lemma mild_bnd [mild_intros]:
  "quietly I A m \<Longrightarrow> (\<And>x. mild I A Q (f x)) \<Longrightarrow> mild I A Q (bnd m f)"
  by (rule mild_step)

lemma mild_andThen [mild_intros]: "quietly I A m \<Longrightarrow> mild I A Q n \<Longrightarrow> mild I A Q (andThen m n)"
  unfolding andThen_def by (rule mild_step)

lemma mild_case_option [mild_intros]:
  "(x = None \<Longrightarrow> mild I A Q m) \<Longrightarrow> (\<And>y. x = Some y \<Longrightarrow> mild I A Q (n y)) \<Longrightarrow>
   mild I A Q (case x of None \<Rightarrow> m | Some y \<Rightarrow> n y)"
  by (cases x) simp_all

lemma mild_if [mild_intros]:
  "(c \<Longrightarrow> mild I A Q m) \<Longrightarrow> (\<not> c \<Longrightarrow> mild I A Q n) \<Longrightarrow> mild I A Q (if c then m else n)"
  by simp

lemma mild_ret [mild_intros]: "Q x \<Longrightarrow> mild I A Q (ret x)"
  by (auto simp: mild_def ret_def)

lemma mild_whenever [mild_intros]: "(c \<Longrightarrow> quietly I A m) \<Longrightarrow> quietly I A (whenever c m)"
  by (simp add: whenever_def mild_ret)

lemma mild_Let [mild_intros]: "mild I A Q (f t) \<Longrightarrow> mild I A Q (let x = t in f x)"
  by simp

lemma mild_the_rsc_bnd [mild_intros]:
  assumes "\<And>r. I r \<Longrightarrow> mild I A Q (f r)"
  shows "mild I A Q (bnd the_rsc f)"
proof (rule mildI)
  fix w c r v assume c: "w_rsc w = Some c" "I c" and run: "bnd the_rsc f w = (r, v)"
  from c(1) run have "f c w = (r, v)" by (simp add: run_bnd_Ok run_the_rsc)
  then show "\<exists>c' es. w_rsc v = Some c' \<and> I c' \<and> w_evs v = w_evs w @ es \<and> (\<forall>e \<in> set es. A e) \<and> (\<forall>x. r = Ok x \<longrightarrow> Q x)"
    by (rule mildD[OF assms[OF c(2)] c])
qed

text \<open>A program that leaves the context alone is mild if all it emits is.\<close>

definition leaves_rsc :: "'a wprog \<Rightarrow> bool" where
  "leaves_rsc m \<longleftrightarrow> (\<forall>w r v. m w = (r, v) \<longrightarrow> w_rsc v = w_rsc w)"

lemma mild_emits: "emits A m \<Longrightarrow> leaves_rsc m \<Longrightarrow> quietly I A m"
  by (rule mildI, erule emitsE, assumption) (auto simp: leaves_rsc_def)

named_theorems leaves_intros "programs that leave the context alone"

lemma leaves_bnd [leaves_intros]: "leaves_rsc m \<Longrightarrow> (\<And>x. leaves_rsc (f x)) \<Longrightarrow> leaves_rsc (bnd m f)"
  unfolding leaves_rsc_def bnd_def by (auto split: prod.splits outcome.splits)

lemma leaves_basic [leaves_intros]:
  "leaves_rsc (ret x)" "leaves_rsc undef" "leaves_rsc (raise e)" "leaves_rsc (gets g)" "leaves_rsc (emit ev)"
  "leaves_rsc (heap_alloc env)" "leaves_rsc the_rsc" "leaves_rsc the_tx" "leaves_rsc (tx_call env t c)"
  "leaves_rsc (modify (\<lambda>w. w\<lparr>file_pos := p w\<rparr>))" "leaves_rsc (AToUtf8 a n)" "leaves_rsc (resp_call env ev)"
  by (auto simp: leaves_rsc_def prog_defs heap_alloc_def the_rsc_def the_tx_def tx_call_def emit_def
        resp_call_def AToUtf8_def Let_def split: if_splits option.splits prod.splits outcome.splits)

lemma leaves_andThen [leaves_intros]: "leaves_rsc m \<Longrightarrow> leaves_rsc n \<Longrightarrow> leaves_rsc (andThen m n)"
  unfolding andThen_def by (rule leaves_bnd)

lemma leaves_case_option [leaves_intros]:
  "leaves_rsc m \<Longrightarrow> (\<And>y. leaves_rsc (n y)) \<Longrightarrow> leaves_rsc (case x of None \<Rightarrow> m | Some y \<Rightarrow> n y)"
  by (cases x) simp_all

lemma leaves_if [leaves_intros]: "leaves_rsc m \<Longrightarrow> leaves_rsc n \<Longrightarrow> leaves_rsc (if c then m else n)"
  by simp

lemma leaves_for_each [leaves_intros]: "(\<And>x. leaves_rsc (f x)) \<Longrightarrow> leaves_rsc (for_each f xs)"
  by (induction xs) (auto intro: leaves_intros)

lemma leaves_headers [leaves_intros]:
  "leaves_rsc (known_header_step env t add hs e)" "leaves_rsc (unknown_header_step env t add h)"
  unfolding known_header_step_def unknown_header_step_def by (intro leaves_intros)+

lemma leaves_read_file: "read_file env h n w = (r, v) \<Longrightarrow> w_rsc v = w_rsc w"
  by (auto simp: read_file_def prog_defs Let_def split: option.splits)

lemma leaves_call: "tx_call env t c w = (r, v) \<Longrightarrow> w_rsc v = w_rsc w"
  using leaves_basic(9)[of env t c] by (simp add: leaves_rsc_def)

lemma leaves_stream [leaves_intros]: "leaves_rsc (stream_file env t h len a)"
proof -
  have "w_rsc (snd (stream_file env t h len a w)) = w_rsc w" for w
  proof (induction env t h len a w rule: stream_file.induct)
    case (1 env t h len a w)
    obtain r u where read: "read_file env h (unat (wanted len)) w = (r, u)" by fastforce
    note u = leaves_read_file[OF read]
    show ?case
    proof (cases "\<exists>got. len \<noteq> 0 \<and> r = Ok (Some got) \<and> got \<noteq> []")
      case True
      then obtain got where got: "len \<noteq> 0" "r = Ok (Some got)" "got \<noteq> []" by blast
      obtain x u' where call: "tx_call env t (AppendResponseBody got) u = (x, u')" by fastforce
      note u' = leaves_call[OF call]
      show ?thesis
      proof (cases x)
        case (Ok y)
        from 1[OF got(1) read[symmetric, unfolded got(2)] refl refl got(3) call[symmetric, unfolded Ok] refl]
        show ?thesis using got read call Ok u u' by (simp add: stream_file.simps[of env t h len a w])
      qed (use got read call u u' in \<open>simp_all add: stream_file.simps[of env t h len a w]\<close>)
    next
      case False
      with read u show ?thesis
        by (auto simp: stream_file.simps[of env t h len a w] split: outcome.splits option.splits)
    qed
  qed
  then show ?thesis unfolding leaves_rsc_def by (metis snd_conv)
qed

lemma leaves_file_chunk [leaves_intros]: "leaves_rsc (AppendResponseFileChunk env t f start len)"
  unfolding AppendResponseFileChunk_def Let_def by (intro leaves_intros)

lemma leaves_chunk [leaves_intros]: "leaves_rsc (inspect_chunk env t m c r)"
  unfolding inspect_chunk_def Let_def by (cases c) (auto intro!: leaves_intros)

lemma leaves_chunks [leaves_intros]: "leaves_rsc (inspect_chunks env t m cs r)"
  by (induction cs arbitrary: r) (auto intro!: leaves_intros)

lemma leaves_log [leaves_intros]: "leaves_rsc (WriteEventViewerLog m c)"
  unfolding WriteEventViewerLog_def by (intro leaves_intros)

lemma leaves_report [leaves_intros]: "leaves_rsc (ReportException s e)"
  unfolding ReportException_def Let_def by (intro leaves_intros)

lemma mild_set_rsc [mild_intros]: "(\<And>c. I c \<Longrightarrow> I (f c)) \<Longrightarrow> quietly I A (set_rsc f)"
  by (auto simp: mild_def set_rsc_def ret_def)

lemma mild_gets [mild_intros]: "quietly I A (gets f)"
  by (rule mild_emits) (intro emits_intros leaves_intros)+

lemma mild_the_tx [mild_intros]: "quietly I A the_tx"
  by (rule mild_emits) (intro emits_intros leaves_intros)+

lemma mild_call [mild_intros]: "A (TxCall t c) \<Longrightarrow> A (TxThrew t c) \<Longrightarrow> quietly I A (tx_call env t c)"
  by (rule mild_emits) (auto intro: emits_intros leaves_intros)

lemma mild_resp [mild_intros]: "A e \<Longrightarrow> quietly I A (resp_call env e)"
  by (rule mild_emits) (auto intro: emits_intros leaves_intros)

lemma mild_gate [mild_intros]: "quietly I A (responseBodyBlockingEnabled env)"
  unfolding responseBodyBlockingEnabled_def by (rule mild_gets)

text \<open>Where the context does not allow blocking, the gate is closed.\<close>

lemma mild_gate_closed:
  assumes "\<And>c. I c \<Longrightarrow> \<not> m_ResponseBodyBlock c" and "mild I A Q (f False)"
  shows "mild I A Q (bnd (responseBodyBlockingEnabled env) f)"
proof (rule mildI)
  fix w c r v assume c: "w_rsc w = Some c" "I c" and run: "bnd (responseBodyBlockingEnabled env) f w = (r, v)"
  have "responseBodyBlockingEnabled env w = (Ok False, w)"
    using c(1) assms(1)[OF c(2)] by (simp add: responseBodyBlockingEnabled_def prog_simps split: option.split)
  with run have "f False w = (r, v)" by (simp add: bnd_def)
  then show "\<exists>c' es. w_rsc v = Some c' \<and> I c' \<and> w_evs v = w_evs w @ es \<and> (\<forall>e \<in> set es. A e) \<and> (\<forall>x. r = Ok x \<longrightarrow> Q x)"
    by (rule mildD[OF assms(2) c])
qed

lemma mild_for_each [mild_intros]: "(\<And>x. quietly I A (f x)) \<Longrightarrow> quietly I A (for_each f xs)"
  by (induction xs) (auto intro: mild_intros)

text \<open>
  An intervention query that may not block leaves the context alone; one that may block gives
  up the transaction, and says so.
\<close>

lemma leaves_query [leaves_intros]: "leaves_rsc (ApplyIntervention env False)"
  unfolding ApplyIntervention_def whenever_def not_False_eq_True if_True by (intro leaves_intros)

definition gives :: "('a \<Rightarrow> bool) \<Rightarrow> 'a wprog \<Rightarrow> bool" where
  "gives Q m \<longleftrightarrow> (\<forall>w x v. m w = (Ok x, v) \<longrightarrow> Q x)"

lemma gives_bnd: "(\<And>x. gives Q (f x)) \<Longrightarrow> gives Q (bnd m f)"
  by (auto simp: gives_def bnd_def split: prod.splits outcome.splits)

lemma gives_query: "gives Not (ApplyIntervention env False)"
proof -
  have stop: "gives Not (ret False)" by (simp add: gives_def ret_def)
  have on: "gives Not (case x of None \<Rightarrow> m | Some y \<Rightarrow> n y)"
    if "gives Not m" "\<And>y. gives Not (n y)" for x and m :: "bool wprog" and n :: "'c \<Rightarrow> bool wprog"
    using that by (cases x) auto
  show ?thesis
    unfolding ApplyIntervention_def andThen_def not_False_eq_True if_True if_cancel
    by (intro gives_bnd on stop)
qed

lemma mild_results:
  assumes "quietly I A m" and "gives Q m"
  shows "mild I A Q m"
proof (rule mildI)
  fix w c r v assume c: "w_rsc w = Some c" "I c" and run: "m w = (r, v)"
  have "\<forall>x. r = Ok x \<longrightarrow> Q x" using assms(2) run unfolding gives_def by blast
  with mildD[OF assms(1) c run]
  show "\<exists>c' es. w_rsc v = Some c' \<and> I c' \<and> w_evs v = w_evs w @ es \<and> (\<forall>e \<in> set es. A e) \<and> (\<forall>x. r = Ok x \<longrightarrow> Q x)"
    by simp
qed

lemma mild_query_any [mild_intros]:
  assumes "\<And>t c. A (TxCall t Intervention) \<and> A (TxThrew t Intervention)"
  shows "quietly I A (ApplyIntervention env False)"
proof (rule mild_emits[OF _ leaves_query])
  show "emits A (ApplyIntervention env False)"
    unfolding ApplyIntervention_def by (intro emits_intros) (use assms in auto)
qed

lemma mild_query:
  "(\<And>t c. A (TxCall t Intervention) \<and> A (TxThrew t Intervention)) \<Longrightarrow> mild I A Not (ApplyIntervention env False)"
  by (rule mild_results[OF mild_query_any gives_query])

text \<open>A condition on the context that survives the end of its transaction.\<close>

definition lasting :: "(request_ctx \<Rightarrow> bool) \<Rightarrow> bool" where
  "lasting I \<longleftrightarrow> (\<forall>c. I c \<longrightarrow> I (c\<lparr>m_pRules := None\<rparr>) \<and> I (c\<lparr>m_pTx := None, m_pRules := None\<rparr>))"

text \<open>Events of the end of a transaction, with the replacement of the response before it.\<close>

fun ending_event :: "event \<Rightarrow> bool" where
  "ending_event (TxCall t c) = (c = Intervention \<or> c = ProcessLogging \<or> (\<exists>s. c = UpdateStatusCode s))"
| "ending_event (TxThrew t c) = True"
| "ending_event (TxDelete t) = True"
| "ending_event (EventLogged m k) = True"
| "ending_event RequestHandled = True"
| "ending_event e = response_event e"

lemma leaves_finish: "leaves_rsc (finish_ctx env r)"
proof -
  have delete: "leaves_rsc (tx_delete t)" for t
    by (auto simp: leaves_rsc_def tx_delete_def prog_defs emit_def split: if_splits)
  have "leaves_rsc (try_catch m h)" if "leaves_rsc m" "\<And>e. leaves_rsc (h e)" for m and h :: "exn \<Rightarrow> unit wprog"
    using that unfolding leaves_rsc_def try_catch_def by (auto split: prod.splits outcome.splits)
  note caught = this
  show ?thesis unfolding finish_ctx_def by (intro leaves_intros caught delete)
qed

lemma mild_FinishRequest:
  assumes I: "lasting I" and A: "\<And>e. ending_event e \<Longrightarrow> A e"
  shows "quietly I A (FinishRequest env)"
  unfolding FinishRequest_def
proof (rule mild_the_rsc_bnd)
  fix r assume r: "I r"
  have result: "gives I (finish_ctx env r)"
    using I r by (auto simp: gives_def finish_ctx_def lasting_def prog_defs split: option.splits prod.splits outcome.splits)
  have "emits A (finish_ctx env r)"
    unfolding finish_ctx_def by (intro emits_intros) (auto intro: A)
  then have "mild I A I (finish_ctx env r)"
    by (rule mild_results[OF mild_emits[OF _ leaves_finish] result])
  then show "quietly I A (bnd (finish_ctx env r) (\<lambda>r'. set_rsc (\<lambda>_. r')))"
    by (rule mild_step) (rule mild_set_rsc)
qed

lemma mild_Intervention:
  assumes I: "lasting I" and A: "\<And>e. ending_event e \<Longrightarrow> A e"
  shows "quietly I A (ApplyIntervention env canBlock)"
proof -
  have respond: "quietly I A (respond env s u)" for s u
    unfolding respond_def by (intro mild_intros) (auto intro: A)
  show ?thesis
    unfolding ApplyIntervention_def block_request_def
    by (intro mild_intros respond mild_FinishRequest[OF I A] mild_emits[OF emits_heap_alloc leaves_basic(6)]
          mild_emits[OF emits_emit leaves_basic(5)]) (auto intro: A)
qed

section \<open>Properties\<close>

lemma inspect_only_phases:
  assumes "valid_response raw"
  shows "mild (\<lambda>c. \<not> m_ResponseBodyBlock c) inspects Not (send_headers env t n raw)"
    and "mild (\<lambda>c. \<not> m_ResponseBodyBlock c) inspects (\<lambda>st. st = RQ_NOTIFICATION_CONTINUE) (send_body env t n raw)"
proof -
  let ?I = "\<lambda>c::request_ctx. \<not> m_ResponseBodyBlock c"
  show "mild ?I inspects Not (send_headers env t n raw)"
    unfolding send_headers_def
    by (intro mild_the_rsc_bnd mild_if mild_ret mild_andThen mild_gate_closed mild_step[OF mild_query]
          mild_for_each mild_call mild_set_rsc mild_emits[OF emits_known leaves_headers(1)]
          mild_emits[OF emits_unknown leaves_headers(2)] mild_emits[OF emits_heap_alloc leaves_basic(6)]) auto
  have quiet_part: "quietly ?I inspects (inspect_chunks env t m cs r)" for m cs r
    by (rule mild_emits) (auto intro!: emits_intros leaves_intros)
  have blocking: "mild ?I inspects Not (send_blocking env n m r)" for m r
    unfolding send_blocking_def by (rule mild_gate_closed) (auto intro!: mild_intros)
  have "quietly ?I inspects (send_inspecting env n)"
    unfolding send_inspecting_def by (intro mild_intros) auto
  then show "mild ?I inspects (\<lambda>st. st = RQ_NOTIFICATION_CONTINUE) (send_body env t n raw)"
    unfolding send_body_def Let_def
    by (intro mild_bnd[OF quiet_part] mild_step[OF blocking] mild_if mild_andThen mild_ret) auto
qed

text \<open>What one notification runs, once the context and the response are known.\<close>

lemma send_response_run:
  assumes "w_rsc w = Some c" and "m_pTx c = Some t" and "has_response env" and "sn_raw n = Some raw"
  shows "send_response env n w = bnd (send_headers env t n raw) (\<lambda>blocked.
     if blocked then ret RQ_NOTIFICATION_FINISH_REQUEST else send_body env t n raw) w"
  using assms by (simp add: send_response_def run_bnd_Ok run_gets)

text \<open>No response phase has been committed to: the condition of the catch blocks.\<close>

definition uncommitted :: "request_ctx option \<Rightarrow> bool" where
  "uncommitted slot \<longleftrightarrow> (case slot of None \<Rightarrow> False
     | Some rsc \<Rightarrow> m_pTx rsc \<noteq> None \<and> \<not> m_ResponseHeadersFed rsc \<and> \<not> m_ResponseBodyEvaluated rsc)"

lemma run_policy:
  "SendResponseExceptionPolicy env w =
     (if uncommitted (w_rsc w)
      then (Ok RQ_NOTIFICATION_FINISH_REQUEST,
        w\<lparr>w_evs := w_evs w @ (if has_response env then [RespSetStatus 500 ''Internal Server Error''] else [])\<rparr>)
      else (Ok RQ_NOTIFICATION_CONTINUE, w))"
  by (simp add: SendResponseExceptionPolicy_def uncommitted_def run_bnd_Ok run_gets run_andThen_Ok
      run_whenever run_emit run_ret)

lemma run_report:
  "\<exists>es. ReportException s e w = (Ok (), w\<lparr>w_evs := w_evs w @ es\<rparr>) \<and>
     (\<forall>x \<in> set es. \<exists>m. x = EventLogged m EVENTLOG_ERROR_TYPE)"
  unfolding ReportException_def Let_def run_log by (rule exI, rule conjI, rule refl) simp

text \<open>C27: An exception of the engine or of an allocation does not leave the handler. Before any phase
  of the response was committed to, the response is replaced by 500 and the request ends;
  afterwards the send goes on with the response as it is. The event log gets the report.\<close>

theorem send_exception_policy:
  assumes "send_response env n w = (Throw e, u)"
  shows "\<exists>es. (\<forall>x \<in> set es. \<exists>m. x = EventLogged m EVENTLOG_ERROR_TYPE) \<and>
    OnSendResponse env n w =
      (if uncommitted (w_rsc u)
       then (Ok RQ_NOTIFICATION_FINISH_REQUEST, u\<lparr>w_evs := w_evs u @ es @
          (if has_response env then [RespSetStatus 500 ''Internal Server Error''] else [])\<rparr>)
       else (Ok RQ_NOTIFICATION_CONTINUE, u\<lparr>w_evs := w_evs u @ es\<rparr>))"
proof -
  obtain es where es: "ReportException ''OnSendResponse'' e u = (Ok (), u\<lparr>w_evs := w_evs u @ es\<rparr>)"
      "\<forall>x \<in> set es. \<exists>m. x = EventLogged m EVENTLOG_ERROR_TYPE"
    using run_report[of "''OnSendResponse''" e u] by (elim exE conjE) (rule that)
  with assms show ?thesis
    by (intro exI[of _ es]) (simp add: OnSendResponse_def run_try_Throw run_andThen_Ok run_policy)
qed

text \<open>C17: Inspect-only requests. While the request does not block on its response, no notification
  touches what the client gets: whatever the engine finds, the handler only inspects and
  continues. The one exception is a throw before the headers were fed, which the policy of the
  catch blocks answers with 500.\<close>

theorem inspect_only_leaves_response:
  assumes "w_rsc w = Some c" and "m_pTx c = Some t" and "\<not> m_ResponseBodyBlock c"
    and "has_response env" and "sn_raw n = Some raw" and "valid_response raw"
    and "OnSendResponse env n w = (Ok st, v)"
  shows "(st = RQ_NOTIFICATION_CONTINUE \<and> (\<exists>es. w_evs v = w_evs w @ es \<and> (\<forall>e \<in> set es. \<not> response_event e))) \<or>
     (\<exists>e u c'. send_response env n w = (Throw e, u) \<and> w_rsc u = Some c' \<and> \<not> m_ResponseHeadersFed c' \<and>
        st = RQ_NOTIFICATION_FINISH_REQUEST)"
proof -
  let ?I = "\<lambda>c::request_ctx. \<not> m_ResponseBodyBlock c"
  note phases = inspect_only_phases[OF assms(6), of env t n]
  have mild: "mild ?I inspects (\<lambda>st. st = RQ_NOTIFICATION_CONTINUE) (bnd (send_headers env t n raw) (\<lambda>blocked.
      if blocked then ret RQ_NOTIFICATION_FINISH_REQUEST else send_body env t n raw))"
    by (rule mild_step[OF phases(1)]) (simp add: phases(2))
  obtain r u where run: "send_response env n w = (r, u)" by fastforce
  with send_response_run[OF assms(1,2,4,5)] have "bnd (send_headers env t n raw) (\<lambda>blocked.
      if blocked then ret RQ_NOTIFICATION_FINISH_REQUEST else send_body env t n raw) w = (r, u)" by simp
  from mildE[OF mild assms(1,3) this] obtain c' es where u: "w_rsc u = Some c'"
    "w_evs u = w_evs w @ es" "\<forall>e \<in> set es. inspects e" "\<forall>x. r = Ok x \<longrightarrow> x = RQ_NOTIFICATION_CONTINUE"
    by metis
  show ?thesis
  proof (cases r)
    case (Ok x)
    with run assms(7) u show ?thesis by (auto simp: OnSendResponse_def prog_simps inspects_def)
  next
    case (Throw e)
    obtain es' where es': "ReportException ''OnSendResponse'' e u = (Ok (), u\<lparr>w_evs := w_evs u @ es'\<rparr>)"
        "\<forall>x \<in> set es'. \<exists>m. x = EventLogged m EVENTLOG_ERROR_TYPE"
      using run_report[of "''OnSendResponse''" e u] by (elim exE conjE) (rule that)
    have "OnSendResponse env n w = SendResponseExceptionPolicy env (u\<lparr>w_evs := w_evs u @ es'\<rparr>)"
      using run Throw es'(1) by (simp add: OnSendResponse_def run_try_Throw run_andThen_Ok)
    moreover have "\<forall>x \<in> set es'. \<not> response_event x" using es'(2) by auto
    ultimately show ?thesis using assms(7) u Throw run
      by (auto simp: run_policy inspects_def uncommitted_def split: if_splits)
  next
    case Undef
    with run assms(7) show ?thesis by (simp add: OnSendResponse_def run_try_Undef)
  qed
qed

fun header_event :: "event \<Rightarrow> bool" where
  "header_event (TxCall t (AddResponseHeader n v)) = True"
| "header_event (TxCall t (ProcessResponseHeaders s p)) = True"
| "header_event _ = False"

fun body_event :: "event \<Rightarrow> bool" where
  "body_event (TxCall t ProcessResponseBody) = True"
| "body_event _ = False"

text \<open>A whole notification, for a condition that the phases keep.\<close>

lemma mild_OnSendResponse:
  assumes I: "lasting I" "\<And>c. I c \<Longrightarrow> I (c\<lparr>m_ResponseHeadersFed := True\<rparr>)"
      "\<And>c. I c \<Longrightarrow> I (c\<lparr>m_ResponseBodyBlock := False\<rparr>)" "\<And>c. I c \<Longrightarrow> I (c\<lparr>m_ResponseBodyEvaluated := True\<rparr>)"
    and A: "\<And>e. ending_event e \<Longrightarrow> A e" "\<And>t bs. A (TxCall t (AppendResponseBody bs))"
      "\<And>h. A (HandleDuplicated h) \<and> A (HandleClosed h)"
    and headers: "\<And>c t e. I c \<Longrightarrow> \<not> m_ResponseHeadersFed c \<Longrightarrow> header_event e \<Longrightarrow> A e"
    and body: "\<And>c t. I c \<Longrightarrow> \<not> m_ResponseBodyEvaluated c \<Longrightarrow> A (TxCall t ProcessResponseBody)"
  shows "quietly I A (OnSendResponse env n)"
proof -
  have A': "A (TxThrew t c)" "A (TxCall t Intervention)" "response_event e \<Longrightarrow> A e" "A (EventLogged m k)" for t c e m k
    by (auto intro!: A(1)) (cases e; simp)
  note query = mild_Intervention[OF I(1) A(1)]
  have phase1: "quietly I A (send_headers env t n raw)" for t raw
    unfolding send_headers_def
  proof (rule mild_the_rsc_bnd)
    fix c assume c: "I c"
    have fed: "A (TxCall t (AddResponseHeader m v))" "A (TxCall t (ProcessResponseHeaders s p))"
      if "\<not> m_ResponseHeadersFed c" for m v s p
      by (rule headers[OF c that], simp)+
    show "quietly I A (if m_ResponseHeadersFed c then ret False
       else andThen (for_each (known_header_step env t AddResponseHeader (resp_KnownHeaders raw)) response_headers)
         (andThen (for_each (unknown_header_step env t AddResponseHeader) (resp_UnknownHeaders raw))
         (andThen (heap_alloc env)
         (andThen (tx_call env t (ProcessResponseHeaders (uint (sn_status n)) (response_protocol c)))
         (bnd (responseBodyBlockingEnabled env) (\<lambda>canBlock.
          bnd (ApplyIntervention env canBlock) (\<lambda>blocked.
            if blocked then ret True
            else andThen (set_rsc (\<lambda>r. r\<lparr>m_ResponseHeadersFed := True\<rparr>)) (ret False))))))))"
      by (intro mild_intros query mild_emits[OF emits_known leaves_headers(1)]
            mild_emits[OF emits_unknown leaves_headers(2)] mild_emits[OF emits_heap_alloc leaves_basic(6)])
         (auto intro: fed A' I(2))
  qed
  have chunks: "quietly I A (inspect_chunks env t m cs r)" for t m cs r
    by (rule mild_emits) (auto intro!: emits_intros leaves_intros simp: A A')
  have length: "A (RespSetHeader h v)" for h v by (rule A'(3)) simp
  have blocking: "quietly I A (send_blocking env n m r)" for m r
    unfolding send_blocking_def
    by (intro mild_bnd[OF mild_gate] mild_the_rsc_bnd mild_if mild_ret mild_andThen mild_whenever mild_resp
          mild_set_rsc mild_bnd[OF mild_the_tx] mild_call query)
       (auto intro: I body A' length)
  have inspecting: "quietly I A (send_inspecting env n)"
    unfolding send_inspecting_def
    by (intro mild_bnd[OF mild_gate] mild_the_rsc_bnd mild_whenever mild_andThen mild_set_rsc
          mild_bnd[OF mild_the_tx] mild_call mild_bnd[OF query] mild_ret)
       (auto intro: I body A')
  have "quietly I A (send_body env t n raw)" for t raw
    unfolding send_body_def Let_def
    by (intro mild_bnd[OF chunks] mild_bnd[OF blocking] mild_if mild_ret mild_andThen[OF inspecting]) auto
  with phase1 have "quietly I A (send_response env n)"
    unfolding send_response_def
    by (intro mild_bnd[OF mild_gets] mild_case_option mild_if mild_ret mild_bnd[OF phase1]) auto
  moreover have "quietly I A (andThen (ReportException s e) (SendResponseExceptionPolicy env))" for s e
  proof (rule mild_emits)
    show "emits A (andThen (ReportException s e) (SendResponseExceptionPolicy env))"
      unfolding SendResponseExceptionPolicy_def by (intro emits_intros) (auto intro: A')
    show "leaves_rsc (andThen (ReportException s e) (SendResponseExceptionPolicy env))"
      by (intro leaves_intros) (auto simp: leaves_rsc_def run_policy)
  qed
  ultimately show ?thesis unfolding OnSendResponse_def by (rule mild_try)
qed




text \<open>C15: When every chunk is memory or a readable file range, one notification shows the engine
  exactly the first bytes of the response body, up to the cap, through appending calls only:
  short reads of a file are continued and ranges are met at both ends.\<close>

theorem response_body_shown_exactly:
  assumes "smooth env" and "file_host env files" and "live t (w_evs w)"
    and "\<forall>k \<in> set (pEntityChunks raw). readable (cap_of env) k"
  shows "\<exists>r v. inspect_chunks env t (GetMaxInspectBodyBytes env) (pEntityChunks raw) 0 w = (Ok r, v) \<and>
     unat r = length (take (cap_of env) (concat (map (body_bytes files) (pEntityChunks raw)))) \<and>
     shows_exactly t (take (cap_of env) (concat (map (body_bytes files) (pEntityChunks raw)))) w v"
  using chunks_exact[OF assms(1,2) cap_small assms(3) _ assms(4), of 0] by auto

lemma length_to_dec: "n < 10 ^ k \<Longrightarrow> 0 < k \<Longrightarrow> length (to_dec n) \<le> k"
proof (induction k arbitrary: n)
  case (Suc k)
  show ?case
  proof (cases "n < 10")
    case False
    then have "n div 10 < 10 ^ k" "0 < k" using Suc.prems(1) by (cases k; auto)+
    from Suc.IH[OF this] False show ?thesis by (simp add: to_dec.simps[of n])
  qed (simp add: to_dec.simps[of n])
qed simp

lemma content_length_small: "n < 2 ^ 32 \<Longrightarrow> unat m = n \<Longrightarrow> content_length_text m = to_dec n"
  using length_to_dec[of n 19] by (simp add: content_length_text_def)

text \<open>The request blocks on response bodies, in every state of the engine.\<close>

definition blocks_responses :: "env \<Rightarrow> request_ctx \<Rightarrow> bool" where
  "blocks_responses env c \<longleftrightarrow> m_ResponseBodyBlock c \<and>
     (\<exists>rules. m_pRules c = Some rules \<and> m_secResponseBodyAccess rules = TrueConfigBoolean) \<and>
     (\<forall>cs. getRuleEngineState env cs = EnabledRuleEngine)"

lemma gate_open:
  "w_rsc w = Some c \<Longrightarrow> m_pTx c = Some t \<Longrightarrow> blocks_responses env c \<Longrightarrow>
   responseBodyBlockingEnabled env w = (Ok True, w)"
  by (auto simp: responseBodyBlockingEnabled_def blocks_responses_def prog_simps)


text \<open>The response handler is total and contained: from a state between requests every
  notification returns a status, never PENDING; nothing is thrown or undefined, no transaction
  is used after its end, and the invariant of the stored context holds again.\<close>

theorem send_response_contained:
  assumes "at_rest env w" and "\<And>raw. sn_raw n = Some raw \<Longrightarrow> valid_response raw"
  shows "\<exists>st v. OnSendResponse env n w = (Ok st, v) \<and> st \<noteq> RQ_NOTIFICATION_PENDING \<and> at_rest env v"
proof -
  have pre: "idle w \<and> faithful (cap_of env) (w_evs w)" using assms(1) by (simp add: at_rest_def calm_def)
  have total: "triple (\<lambda>w. idle w \<and> faithful (cap_of env) (w_evs w)) (OnSendResponse env n)
     (\<lambda>st w. (idle w \<and> st \<noteq> RQ_NOTIFICATION_PENDING) \<and> faithful (cap_of env) (w_evs w))
     (\<lambda>e w. False \<and> faithful (cap_of env) (w_evs w))"
    by (rule triple_emits[OF triple_OnSendResponse[OF assms(2)] emits_send_silent]) (auto simp: silent_recv)
  obtain r v where run: "OnSendResponse env n w = (r, v)" by fastforce
  show ?thesis
  proof (cases r)
    case (Ok st)
    with triple_Ok[OF total pre, of st v] run show ?thesis by (simp add: at_rest_def calm_def)
  qed (use triple_Throw[OF total pre] triple_Undef[OF total pre] run in auto)
qed

text \<open>Inspecting a file chunk moves the file position that the owner of the handle sees: the
  duplicate refers to the same file object, so after the range was read the original handle
  stands behind it.\<close>

theorem file_chunk_moves_position:
  assumes "smooth env" and "live t (w_evs w)" and "DuplicateHandle env (w_evs w) hFile = Some h"
    and "file_object env h = file_object env hFile" and "serves env h F" and "SetFilePointerEx env h (int (unat start))"
    and "unat start < 2 ^ 63" and "len \<noteq> HTTP_BYTE_RANGE_TO_EOF"
    and "AppendResponseFileChunk env t hFile start len w = (r, v)"
  shows "file_pos v (file_object env hFile) = int (unat start + length (take (unat len) (drop (unat start) F)))"
proof -
  let ?u = "w\<lparr>w_evs := w_evs w @ [HandleDuplicated h], file_pos := (file_pos w)(file_object env h := int (unat start))\<rparr>"
  have l: "live t (w_evs ?u)" using assms(2) by (simp add: live_append) (simp add: live_def)
  obtain bufs where stream: "stream_file env t h len 0 ?u =
        (Ok (of_nat (length (take (unat len) (drop (unat start) F)))),
         ?u\<lparr>file_pos := (file_pos ?u)(file_object env h := int (unat start + length (take (unat len) (drop (unat start) F)))),
           w_evs := w_evs ?u @ map (TxCall t \<circ> AppendResponseBody) bufs\<rparr>)"
    using stream_exact[OF assms(1,5) l, of "unat start" len 0] by auto
  then have "file_pos v = (file_pos ?u)(file_object env h := int (unat start + length (take (unat len) (drop (unat start) F))))"
    using assms(3,6,8,9) sint_offset[OF assms(7)]
    by (simp add: AppendResponseFileChunk_def prog_simps Let_def) auto
  with assms(4) show ?thesis by simp
qed

text \<open>C33: The duplicated handle is closed on every return, and leaks when the engine throws while a
  chunk is streamed.\<close>

theorem file_handle_leaks_on_throw:
  assumes "DuplicateHandle env (w_evs w) hFile = Some h"
    and "AppendResponseFileChunk env t hFile start len w = (r, v)"
  shows "\<exists>es. w_evs v = w_evs w @ HandleDuplicated h # es \<and>
     count_list es (HandleClosed h) = (case r of Ok a \<Rightarrow> 1 | _ \<Rightarrow> 0)"
proof -
  let ?w = "w\<lparr>w_evs := w_evs w @ [HandleDuplicated h]\<rparr>"
  define body where "body = (if SetFilePointerEx env h (sint start)
                 then andThen (modify (\<lambda>w. w\<lparr>file_pos := (file_pos w)(file_object env h := sint start)\<rparr>))
                   (let len' = (if len = HTTP_BYTE_RANGE_TO_EOF
                                then (case GetFileSizeEx env h of
                                        None \<Rightarrow> 0
                                      | Some fs \<Rightarrow> if fs > sint start then word_of_int (fs - sint start) else 0)
                                else len)
                    in stream_file env t h len' 0)
                 else ret 0)"
  have run: "AppendResponseFileChunk env t hFile start len w =
      bnd body (\<lambda>appended. andThen (emit (HandleClosed h)) (ret appended)) ?w"
    using assms(1) by (simp add: AppendResponseFileChunk_def prog_simps body_def)
  have "emits (\<lambda>e. e \<noteq> HandleClosed h) body"
    unfolding body_def Let_def by (intro emits_intros emits_modify) auto
  moreover obtain x u where one: "body ?w = (x, u)" by fastforce
  ultimately obtain es where es: "w_evs u = w_evs ?w @ es" "\<forall>e \<in> set es. e \<noteq> HandleClosed h"
    by (rule emitsE)
  then have "count_list es (HandleClosed h) = 0" by (auto simp: count_list_0_iff)
  with es(1) run one assms(2) show ?thesis by (cases x) (auto simp: bnd_def andThen_def emit_def modify_def ret_def)
qed

text \<open>C32: The cap can be escaped: a file range whose length, added to the bytes inspected so far,
  wraps around 64 bits passes the comparison with the cap, and the whole range is streamed.\<close>

theorem wrapped_range_escapes_cap:
  assumes "len \<noteq> HTTP_BYTE_RANGE_TO_EOF" and "2 ^ 64 \<le> unat r + unat len" and "r \<le> m"
  shows "inspect_chunk env t m (FromFileHandle hFile start len) r =
     bnd (AppendResponseFileChunk env t hFile start len) (\<lambda>n. ret (r + n))"
proof -
  have "unat r < 2 ^ 64" "unat len < 2 ^ 64" using unsigned_less[of r, where 'a = nat] unsigned_less[of len, where 'a = nat] by simp_all
  then have "unat (r + len) = unat r + unat len - 2 ^ 64" using assms(2) by (simp add: unat_plus_if')
  then have "\<not> r + len > m" using assms(3) \<open>unat len < 2 ^ 64\<close>
    unfolding word_less_nat_alt word_le_nat_alt by linarith
  moreover have "len > 0" using assms(2) \<open>unat r < 2 ^ 64\<close> by (simp add: word_less_nat_alt)
  ultimately show ?thesis using assms(1) by (simp add: inspect_chunk_def Let_def)
qed

section \<open>The properties on concrete responses\<close>

definition sending_ctx :: "bool \<Rightarrow> request_ctx" where
  "sending_ctx block = new_request_ctx\<lparr>m_pTx := Some 0, m_pRules := Some quiet_rules,
     m_ResponseHeadersFed := True, m_ResponseBodyBlock := block\<rparr>"

definition sending_world :: "bool \<Rightarrow> world" where
  "sending_world block = start_world\<lparr>w_rsc := Some (sending_ctx block), w_evs := [TxNew 0, CtxNew]\<rparr>"

definition page :: "data_chunk list \<Rightarrow> http_response" where
  "page cs = \<lparr> resp_KnownHeaders = (\<lambda>_. no_header), resp_UnknownHeaders = [], pEntityChunks = cs \<rparr>"

definition flush :: "data_chunk list \<Rightarrow> send_notification" where
  "flush cs = \<lparr> sn_raw = Some (page cs), sn_status = 200, sn_flags = 0, sn_headersBeingSent = True,
     sn_contentLength = None \<rparr>"

text \<open>A host whose files all hold \<open>abc\<close> and give one byte per read.\<close>

definition file_env :: env where
  "file_env = quiet_env\<lparr>ReadFile := (\<lambda>_ p n. Some (take (min n 1) (drop (nat p) ''abc'')))\<rparr>"

lemma sending_facts [simp]:
  "w_rsc (sending_world b) = Some (sending_ctx b)" "w_evs (sending_world b) = [TxNew 0, CtxNew]"
  "m_pTx (sending_ctx b) = Some 0" "m_pRules (sending_ctx b) = Some quiet_rules"
  "m_ResponseHeadersFed (sending_ctx b)" "m_ResponseBodyBlock (sending_ctx b) = b"
  "\<not> m_ResponseBodyEvaluated (sending_ctx b)" "m_BodyReadState (sending_ctx b) = BRS_IDLE"
  "sn_raw (flush cs) = Some (page cs)" "sn_headersBeingSent (flush cs)" "sn_contentLength (flush cs) = None"
  "pEntityChunks (page cs) = cs" "\<not> more_data (flush cs)"
  by (simp_all add: sending_world_def sending_ctx_def flush_def page_def new_request_ctx_def more_data_def)

lemma sending_at_rest [simp]: "at_rest env (sending_world b)"
  by (auto simp: at_rest_def calm_def idle_def ctx_inv_def ids_bounded_def phases_once_def tx_open_def
        live_def abandoned_def quiet_reads_def outstanding_def faithful_def)

lemma page_valid [simp]: "valid_response (page [FromMemory ''ab'' 2, OtherChunk ''cd''])"
  by (simp add: valid_response_def page_def valid_known_def no_header_def)

lemma file_env_facts [simp]:
  "smooth file_env" "file_host file_env (\<lambda>_. ''abc'')" "GetMaxInspectBodyBytes file_env = 1048576"
  by (auto simp: smooth_def file_env_def file_host_def serves_def GetMaxInspectBodyBytes_def)

theorem send_response_contained_witness:
  "\<exists>st v. OnSendResponse quiet_env (flush [FromMemory ''ab'' 2, OtherChunk ''cd'']) (sending_world True) = (Ok st, v) \<and>
     st \<noteq> RQ_NOTIFICATION_PENDING \<and> at_rest quiet_env v"
  by (rule send_response_contained) auto

theorem inspect_only_leaves_response_witness:
  "\<exists>v es. OnSendResponse quiet_env (flush [FromMemory ''ab'' 2, OtherChunk ''cd'']) (sending_world False)
      = (Ok RQ_NOTIFICATION_CONTINUE, v) \<and>
     w_evs v = w_evs (sending_world False) @ es \<and> (\<forall>e \<in> set es. \<not> response_event e)"
proof -
  let ?n = "flush [FromMemory ''ab'' 2, OtherChunk ''cd'']"
  have run: "OnSendResponse quiet_env ?n (sending_world False)
      = (Ok RQ_NOTIFICATION_CONTINUE, snd (OnSendResponse quiet_env ?n (sending_world False)))"
    by (simp add: OnSendResponse_def send_response_def send_headers_def send_body_def inspect_chunk_def
        send_blocking_def send_inspecting_def responseBodyBlockingEnabled_def ApplyIntervention_def prog_simps
        Let_def live_def GetMaxInspectBodyBytes_def)
  have "\<nexists>e u. send_response quiet_env ?n (sending_world False) = (Throw e, u)"
    by (simp add: send_response_def send_headers_def send_body_def inspect_chunk_def
        send_blocking_def send_inspecting_def responseBodyBlockingEnabled_def ApplyIntervention_def prog_simps
        Let_def live_def GetMaxInspectBodyBytes_def)
  with inspect_only_leaves_response[OF sending_facts(1) sending_facts(3) _ _ sending_facts(9) page_valid run] run
  show ?thesis by (intro exI[of _ "snd (OnSendResponse quiet_env ?n (sending_world False))"]) auto
qed



theorem response_body_shown_exactly_witness:
  "\<exists>r v. inspect_chunks file_env 0 (GetMaxInspectBodyBytes file_env)
      [FromMemory ''xy'' 2, FromFileHandle 7 1 HTTP_BYTE_RANGE_TO_EOF] 0 (sending_world True) = (Ok r, v) \<and>
     unat r = length ''xybc'' \<and> shows_exactly 0 ''xybc'' (sending_world True) v"
  using response_body_shown_exactly[of file_env "\<lambda>_. ''abc''" 0 "sending_world True"
      "page [FromMemory ''xy'' 2, FromFileHandle 7 1 HTTP_BYTE_RANGE_TO_EOF]"]
  by (simp add: live_def readable_def unwrapped_def body_bytes_def)


theorem send_exception_policy_witness:
  "\<exists>v. OnSendResponse (quiet_env\<lparr>bad_alloc := (\<lambda>_. True)\<rparr>) (flush []) (reader_world 0 BRS_IDLE [])
     = (Ok RQ_NOTIFICATION_FINISH_REQUEST, v) \<and> RespSetStatus 500 ''Internal Server Error'' \<in> set (w_evs v)"
proof -
  let ?env = "quiet_env\<lparr>bad_alloc := (\<lambda>_. True)\<rparr>"
  have fresh: "\<not> m_ResponseHeadersFed (reader_ctx 0 BRS_IDLE)"
    by (simp add: reader_ctx_def new_request_ctx_def)
  have "send_response ?env (flush []) (reader_world 0 BRS_IDLE [])
      = (Throw (StdException ''bad allocation''), reader_world 0 BRS_IDLE [])"
    using fresh
    by (simp add: send_response_def send_headers_def page_def response_headers_def known_header_step_def
        no_header_def heap_alloc_def prog_simps)
  from send_exception_policy[OF this] fresh show ?thesis by (auto simp: uncommitted_def)
qed

theorem file_chunk_moves_position_witness:
  "file_pos (snd (AppendResponseFileChunk file_env 0 7 1 1 (sending_world True))) 7 = 2"
proof -
  have "file_pos (snd (AppendResponseFileChunk file_env 0 7 1 1 (sending_world True))) (file_object file_env 7)
      = int (unat (1::ULONGLONG) + length (take (unat (1::ULONGLONG)) (drop (unat (1::ULONGLONG)) ''abc'')))"
    by (rule file_chunk_moves_position[where env = file_env and h = 107 and t = 0 and hFile = 7 and len = 1
          and w = "sending_world True"
          and r = "fst (AppendResponseFileChunk file_env 0 7 1 1 (sending_world True))"])
       (auto simp: file_env_def live_def serves_def smooth_def HTTP_BYTE_RANGE_TO_EOF_def)
  then show ?thesis by (simp add: file_env_def)
qed

theorem file_handle_leaks_on_throw_witness:
  "\<exists>es. w_evs (snd (AppendResponseFileChunk (file_env\<lparr>tx_throws := (\<lambda>_ _. Some OtherException)\<rparr>) 0 7 0 1 (sending_world True)))
     = w_evs (sending_world True) @ HandleDuplicated 107 # es \<and> HandleClosed 107 \<notin> set es"
proof -
  let ?env = "file_env\<lparr>tx_throws := (\<lambda>_ _. Some OtherException)\<rparr>"
  let ?run = "AppendResponseFileChunk ?env 0 7 0 1 (sending_world True)"
  have dup: "DuplicateHandle ?env (w_evs (sending_world True)) 7 = Some 107" by (simp add: file_env_def)
  have throw: "fst ?run = Throw OtherException"
    by (simp add: AppendResponseFileChunk_def prog_simps stream_file_if read_file_def wanted_def response_buf_def
        HTTP_BYTE_RANGE_TO_EOF_def file_env_def live_def Let_def)
  have run: "?run = (fst ?run, snd ?run)" by simp
  from file_handle_leaks_on_throw[OF dup run] show ?thesis
    unfolding throw by (auto simp: count_list_0_iff)
qed

theorem wrapped_range_escapes_cap_witness:
  "inspect_chunk quiet_env 0 10 (FromFileHandle 7 0 18446744073709551614) 2 =
     bnd (AppendResponseFileChunk quiet_env 0 7 0 18446744073709551614) (\<lambda>n. ret (2 + n))"
proof (rule wrapped_range_escapes_cap)
  show "2 ^ 64 \<le> unat (2 :: ULONGLONG) + unat (18446744073709551614 :: ULONGLONG)" by simp
qed (simp_all add: HTTP_BYTE_RANGE_TO_EOF_def)

end
