(* ===== verification/Handler_Frames.thy ===== *)
theory Handler_Frames
  imports Send_Response
begin

text \<open>
  What no handler does: none creates a transaction or a context after the request handler has,
  none takes an event back, none but the configuration reader touches the stored
  configuration. One predicate states it, with a rule per combinator and a lemma per operation
  of the request side; the composition of the handlers rests on it.
\<close>

section \<open>Frames\<close>

definition same_config :: "'a wprog \<Rightarrow> bool" where
  "same_config m \<longleftrightarrow> (\<forall>w. w_config (snd (m w)) = w_config w)"

definition framed :: "(event \<Rightarrow> bool) \<Rightarrow> 'a wprog \<Rightarrow> bool" where
  "framed A m \<longleftrightarrow> emits A m \<and> same_config m"

named_theorems framed_intros "rules that take a frame apart along the program"

lemma framedD:
  assumes "framed A m" and "m w = (r, v)"
  shows "w_config v = w_config w" and "\<exists>es. w_evs v = w_evs w @ es \<and> (\<forall>e \<in> set es. A e)"
proof -
  from assms(1) have "w_config (snd (m w)) = w_config w" by (simp add: framed_def same_config_def)
  with assms(2) show "w_config v = w_config w" by simp
  from assms show "\<exists>es. w_evs v = w_evs w @ es \<and> (\<forall>e \<in> set es. A e)"
    unfolding framed_def emits_def by blast
qed

lemma framedI: "(\<And>w r v. m w = (r, v) \<Longrightarrow> w_config v = w_config w \<and> w_evs v = w_evs w) \<Longrightarrow> framed A m"
  unfolding framed_def same_config_def
  by (intro conjI emitsI allI) (metis append_Nil2 empty_iff list.set(1) prod.collapse,
      metis prod.collapse)

lemma emits_mono: "emits A m \<Longrightarrow> (\<And>e. A e \<Longrightarrow> B e) \<Longrightarrow> emits B m"
  unfolding emits_def by blast

lemma framed_mono: "framed A m \<Longrightarrow> (\<And>e. A e \<Longrightarrow> B e) \<Longrightarrow> framed B m"
  unfolding framed_def using emits_mono by blast

lemma same_config_bnd:
  assumes m: "same_config m" and f: "\<And>x. same_config (f x)"
  shows "same_config (bnd m f)"
  unfolding same_config_def
proof
  fix w
  obtain r u where run: "m w = (r, u)" by fastforce
  with m have u: "w_config u = w_config w" unfolding same_config_def by (metis snd_conv)
  show "w_config (snd (bnd m f w)) = w_config w"
  proof (cases r)
    case (Ok x)
    with run u f[of x] show ?thesis by (simp add: run_bnd_Ok same_config_def)
  qed (use run u in \<open>simp_all add: bnd_def\<close>)
qed

lemma same_config_try:
  assumes m: "same_config m" and h: "\<And>e. same_config (h e)"
  shows "same_config (try_catch m h)"
  unfolding same_config_def
proof
  fix w
  obtain r u where run: "m w = (r, u)" by fastforce
  with m have u: "w_config u = w_config w" unfolding same_config_def by (metis snd_conv)
  show "w_config (snd (try_catch m h w)) = w_config w"
  proof (cases r)
    case (Throw e)
    with run u h[of e] show ?thesis by (simp add: run_try_Throw same_config_def)
  qed (use run u in \<open>simp_all add: try_catch_def\<close>)
qed

lemma framed_bnd [framed_intros]: "framed A m \<Longrightarrow> (\<And>x. framed A (f x)) \<Longrightarrow> framed A (bnd m f)"
  unfolding framed_def by (simp add: emits_bnd same_config_bnd)

lemma framed_andThen [framed_intros]: "framed A m \<Longrightarrow> framed A n \<Longrightarrow> framed A (andThen m n)"
  unfolding andThen_def by (rule framed_bnd)

lemma framed_try [framed_intros]:
  "framed A m \<Longrightarrow> (\<And>e. framed A (h e)) \<Longrightarrow> framed A (try_catch m h)"
  unfolding framed_def by (simp add: emits_try same_config_try)

lemma framed_pure [framed_intros]:
  "framed A (ret x)" "framed A undef" "framed A (raise e)" "framed A (gets g)"
  by (rule framedI; simp add: prog_defs)+

lemma framed_modify: "(\<And>w. w_evs (f w) = w_evs w \<and> w_config (f w) = w_config w) \<Longrightarrow> framed A (modify f)"
  by (rule framedI) (auto simp: prog_defs)

lemma framed_whenever [framed_intros]: "(c \<Longrightarrow> framed A m) \<Longrightarrow> framed A (whenever c m)"
  by (simp add: whenever_def framed_pure)

lemma framed_if [framed_intros]:
  "(c \<Longrightarrow> framed A m) \<Longrightarrow> (\<not> c \<Longrightarrow> framed A n) \<Longrightarrow> framed A (if c then m else n)"
  by simp

lemma framed_case_option [framed_intros]:
  "(x = None \<Longrightarrow> framed A m) \<Longrightarrow> (\<And>y. x = Some y \<Longrightarrow> framed A (n y)) \<Longrightarrow>
   framed A (case x of None \<Rightarrow> m | Some y \<Rightarrow> n y)"
  by (cases x) simp_all

lemma framed_case_sum [framed_intros]:
  "(\<And>a. x = Inl a \<Longrightarrow> framed A (m a)) \<Longrightarrow> (\<And>b. x = Inr b \<Longrightarrow> framed A (n b)) \<Longrightarrow>
   framed A (case x of Inl a \<Rightarrow> m a | Inr b \<Rightarrow> n b)"
  by (cases x) simp_all

lemma framed_case_prod [framed_intros]:
  "(\<And>a b. x = (a, b) \<Longrightarrow> framed A (f a b)) \<Longrightarrow> framed A (case x of (a, b) \<Rightarrow> f a b)"
  by (cases x) simp

lemma framed_Let [framed_intros]: "framed A (f t) \<Longrightarrow> framed A (let x = t in f x)"
  by simp

lemma framed_for_each [framed_intros]: "(\<And>x. framed A (f x)) \<Longrightarrow> framed A (for_each f xs)"
  by (induction xs) (auto intro: framed_intros)

lemma framed_emit [framed_intros]: "A e \<Longrightarrow> framed A (emit e)"
  by (simp add: framed_def emits_emit same_config_def run_emit)

lemma framed_basic [framed_intros]:
  "framed A (heap_alloc env)" "framed A the_rsc" "framed A (set_rsc f)" "framed A the_tx"
  by (rule framedI; auto simp: heap_alloc_def the_rsc_def set_rsc_def the_tx_def prog_defs
        split: if_splits option.splits)+

lemma framed_resp_call [framed_intros]: "A e \<Longrightarrow> framed A (resp_call env e)"
  unfolding resp_call_def by (intro framed_intros)

lemma framed_tx_call [framed_intros]:
  "A (TxCall t c) \<Longrightarrow> A (TxThrew t c) \<Longrightarrow> framed A (tx_call env t c)"
  by (auto simp: framed_def emits_tx_call same_config_def tx_call_def prog_defs emit_def
      split: option.split)

lemma framed_tx_delete [framed_intros]: "A (TxDelete t) \<Longrightarrow> framed A (tx_delete t)"
  by (auto simp: framed_def emits_tx_delete same_config_def tx_delete_def prog_defs emit_def)

text \<open>Events that create neither a transaction nor a context.\<close>

fun tame :: "event \<Rightarrow> bool" where
  "tame (TxNew t) = False"
| "tame CtxNew = False"
| "tame _ = True"

section \<open>Operations\<close>

lemma framed_log [framed_intros]: "framed tame (WriteEventViewerLog m c)"
  unfolding WriteEventViewerLog_def by (intro framed_intros) simp

lemma framed_report [framed_intros]: "framed tame (ReportException s e)"
  unfolding ReportException_def Let_def by (rule framed_log)

lemma framed_finish_ctx [framed_intros]: "framed tame (finish_ctx env r)"
  unfolding finish_ctx_def by (intro framed_intros) simp_all

lemma framed_FinishRequest [framed_intros]: "framed tame (FinishRequest env)"
  unfolding FinishRequest_def by (intro framed_intros)

lemma framed_cleanup_ctx [framed_intros]: "framed tame (cleanup_ctx env r)"
  unfolding cleanup_ctx_def by (intro framed_intros) simp

lemma framed_CleanupStoredContext: "framed tame (CleanupStoredContext env)"
  unfolding CleanupStoredContext_def by (intro framed_intros framed_modify) simp

lemma framed_block_request [framed_intros]: "framed tame (block_request env t it)"
  unfolding block_request_def respond_def Let_def by (intro framed_intros) simp_all

lemma framed_ApplyIntervention [framed_intros]: "framed tame (ApplyIntervention env canBlock)"
  unfolding ApplyIntervention_def by (intro framed_intros) simp_all

lemma framed_reinsert [framed_intros]: "framed tame (reinsert env body)"
  unfolding reinsert_def Let_def by (intro framed_intros) simp_all

lemma framed_FinishBodyRead [framed_intros]: "framed tame (FinishBodyRead env)"
  unfolding FinishBodyRead_def deliver_body_def restore_body_def feed_body_def body_verdict_def Let_def
  by (intro framed_intros) simp_all

lemma framed_ConsumeBodyChunk [framed_intros]: "framed tame (ConsumeBodyChunk env n hr)"
  unfolding ConsumeBodyChunk_def body_done_def Let_def by (intro framed_intros framed_modify) simp_all

lemma framed_read_once [framed_intros]: "framed tame (read_once env async)"
  unfolding read_once_def by (intro framed_intros) simp_all

lemma framed_pump_loop [framed_intros]: "framed tame (pump_loop env async fuel)"
  by (induction fuel) (auto intro!: framed_intros)

lemma framed_BodyReadsAsync [framed_intros]: "framed tame (BodyReadsAsync env)"
  unfolding BodyReadsAsync_def Let_def by (intro framed_intros framed_modify) simp

lemma framed_PumpBodyRead [framed_intros]: "framed tame (PumpBodyRead env)"
  unfolding PumpBodyRead_def by (intro framed_intros)

lemma framed_GetEntityBodyInfo [framed_intros]: "framed A (GetEntityBodyInfo req)"
  unfolding GetEntityBodyInfo_def Let_def by (intro framed_intros)

lemma framed_BeginBodyRead [framed_intros]: "framed tame (BeginBodyRead env)"
  unfolding BeginBodyRead_def by (intro framed_intros)

lemma framed_OnAsyncCompletion: "framed tame (OnAsyncCompletion env has_context info)"
  unfolding OnAsyncCompletion_def claim_read_def by (cases has_context; cases info) (auto intro!: framed_intros)
lemma emits_OnSendResponse: "emits tame (OnSendResponse env n)"
  unfolding OnSendResponse_def send_response_def send_headers_def send_body_def send_blocking_def
    send_inspecting_def SendResponseExceptionPolicy_def Let_def
  by (intro emits_intros framed_ApplyIntervention[unfolded framed_def, THEN conjunct1]) auto

section \<open>The request handler\<close>

text \<open>Everything but the creation of the transaction and its context is tame; the whole only appends.\<close>

lemma framed_convert [framed_intros]:
  "framed A (AToUtf8 a n)" "framed A (WToUtf8 env w k)" "framed A (VerbToString req)"
  unfolding AToUtf8_def WToUtf8_def VerbToString_def Let_def
  by (intro framed_intros | cases "Verb req"; auto intro!: framed_intros)+

lemma framed_headers [framed_intros]:
  "framed tame (known_header_step env t add hs e)" "framed tame (unknown_header_step env t add h)"
  unfolding known_header_step_def unknown_header_step_def by (intro framed_intros; simp)+

lemma framed_feed_request [framed_intros]: "framed tame (feed_request env t req)"
  unfolding feed_request_def feed_connection_def feed_uri_def request_uri_def Let_def
  by (intro framed_intros) simp_all

lemma framed_getRules [framed_intros]: "framed tame (getRules env f)"
  unfolding getRules_def Let_def by (intro framed_intros framed_modify) simp_all

lemma framed_engine [framed_intros]: "framed tame (engine env)"
  unfolding engine_def Let_def by (intro framed_intros framed_modify) simp_all

lemma framed_property_readers [framed_intros]:
  "framed tame (GetBooleanPropertyValue env ok name)" "framed tame (GetStringPropertyValue env ok name)"
  unfolding GetBooleanPropertyValue_def GetStringPropertyValue_def fetch_property_def release_property_def
    VariantClear_def Let_def
  by (intro framed_intros; simp)+

lemma framed_Initialize [framed_intros]: "framed tame (Initialize env c)"
  unfolding Initialize_def read_section_def Let_def by (intro framed_intros) simp_all

lemma framed_config_failed [framed_intros]: "framed tame (config_failed env)"
  unfolding config_failed_def fail_closed_500_def by (intro framed_intros framed_modify) simp_all

lemma framed_rules_failed [framed_intros]: "framed tame (rules_failed env hr f e)"
  unfolding rules_failed_def fail_closed_500_def by (intro framed_intros framed_modify) simp_all

text \<open>From here on events of every kind are allowed.\<close>

abbreviation appends :: "'a wprog \<Rightarrow> bool" where
  "appends m \<equiv> framed (\<lambda>_. True) m"

lemma appends_tame: "framed tame m \<Longrightarrow> appends m"
  by (rule framed_mono) simp_all

lemma appends_new_context: "appends (new_context env hr c rules)"
  unfolding new_context_def set_module_context_def Let_def
  by (intro framed_intros framed_modify appends_tame[OF framed_cleanup_ctx]) simp_all

lemma appends_begin_configured: "appends (begin_configured env hr c)"
  unfolding begin_configured_def create_context_def inspect_request_def
  by (intro framed_intros appends_new_context appends_tame[OF framed_getRules] appends_tame[OF framed_engine]
      appends_tame[OF framed_rules_failed] appends_tame[OF framed_feed_request]
      appends_tame[OF framed_ApplyIntervention] appends_tame[OF framed_BeginBodyRead])

text \<open>A configuration that could not be read is not stored.\<close>

lemma GetConfig_appends: "emits (\<lambda>_. True) (GetConfig env)"
proof -
  have "emits (\<lambda>_. True) (Initialize env c)" for c
    using appends_tame[OF framed_Initialize[of env c]] by (simp add: framed_def)
  then show ?thesis
    unfolding GetConfig_def Let_def by (intro emits_intros emits_modify) simp_all
qed

lemma GetConfig_failed:
  assumes "GetConfig env w = (Ok (hr, c), v)" and "FAILED hr"
  shows "w_config v = w_config w"
proof -
  have init: "w_config u = w_config u'" if "Initialize env new_config u' = (q, u)" for u u' q
    using framedD(1)[OF framed_Initialize that] .
  from assms show ?thesis
    by (auto simp: GetConfig_def prog_defs Let_def emit_def
        split: if_splits option.splits outcome.splits prod.splits dest!: init)
qed

lemma framed_valid: "framed A m \<Longrightarrow> m w = (r, v) \<Longrightarrow> config_valid w \<Longrightarrow> config_valid v"
  using framedD(1)[of A m w r v] by (simp add: config_valid_def)

lemma begin_body_config:
  assumes host: "config_host env" and rest: "at_rest env w" and valid: "config_valid w"
    and run: "begin_body env has_context w = (r, v)"
  shows "config_valid v"
proof (cases "has_context \<and> has_request env")
  case False
  with run valid show ?thesis by (auto simp: begin_body_def ret_def split: if_splits)
next
  case True
  have calm: "calm env (w_rsc w) w" using rest by (simp add: at_rest_def)
  obtain hr c u where g: "GetConfig env w = (Ok (hr, c), u)"
    and ok: "\<not> FAILED hr \<longrightarrow> (\<exists>cfg. c = Some cfg \<and> m_pszPath cfg \<noteq> Some []) \<and> config_valid u"
    using GetConfig_calm[OF host calm valid] by (elim exE conjE) (rule that)
  have u: "config_valid u"
    using ok GetConfig_failed[OF g] valid by (cases "FAILED hr") (auto simp: config_valid_def)
  have rest: "begin_body env has_context w =
      (if FAILED hr then config_failed env else case c of None \<Rightarrow> undef
        | Some cfg \<Rightarrow> begin_configured env hr cfg) u"
    using True g by (simp add: begin_body_def run_bnd_Ok)
  have "appends (if FAILED hr then config_failed env else case c of None \<Rightarrow> undef
        | Some cfg \<Rightarrow> begin_configured env hr cfg)"
    by (intro framed_intros appends_tame[OF framed_config_failed] appends_begin_configured)
  from framed_valid[OF this trans[OF rest[symmetric] run] u] show ?thesis .
qed

lemma OnBeginRequest_config:
  assumes "config_host env" and "at_rest env w" and "config_valid w"
    and run: "OnBeginRequest env has_context w = (r, v)"
  shows "config_valid v"
proof -
  obtain q u where body: "begin_body env has_context w = (q, u)" by fastforce
  note u = begin_body_config[OF assms(1-3) body]
  show ?thesis
  proof (cases q)
    case (Ok x)
    with body run u show ?thesis
      by (cases x) (auto simp: OnBeginRequest_def run_bnd_Ok run_try_Ok ret_def split: if_splits)
  next
    case (Throw e)
    have "framed tame (bnd (andThen (ReportException ''OnBeginRequest'' e)
        (ret (Inl RQ_NOTIFICATION_FINISH_REQUEST))) (\<lambda>exit. case exit of
          Inl status \<Rightarrow> ret status
        | Inr hr \<Rightarrow> if FAILED hr then ret RQ_NOTIFICATION_FINISH_REQUEST
                    else ret RQ_NOTIFICATION_CONTINUE))"
      by (intro framed_intros)
    moreover have "(bnd (andThen (ReportException ''OnBeginRequest'' e)
        (ret (Inl RQ_NOTIFICATION_FINISH_REQUEST))) (\<lambda>exit. case exit of
          Inl status \<Rightarrow> ret status
        | Inr hr \<Rightarrow> if FAILED hr then ret RQ_NOTIFICATION_FINISH_REQUEST
                    else ret RQ_NOTIFICATION_CONTINUE)) u = (r, v)"
      using body run Throw by (simp add: OnBeginRequest_def bnd_def run_try_Throw)
    ultimately show ?thesis using u by (rule framed_valid)
  next
    case Undef
    with body run u show ?thesis by (simp add: OnBeginRequest_def bnd_def run_try_Undef)
  qed
qed

lemma OnBeginRequest_appends: "emits (\<lambda>_. True) (OnBeginRequest env has_context)"
proof -
  have parts: "emits (\<lambda>_. True) (config_failed env)" "emits (\<lambda>_. True) (begin_configured env hr c)"
    "emits (\<lambda>_. True) (ReportException s e)" for hr c s e
    using appends_tame[OF framed_config_failed] appends_begin_configured appends_tame[OF framed_report]
    by (simp_all add: framed_def)
  show ?thesis
    unfolding OnBeginRequest_def begin_body_def by (intro emits_intros GetConfig_appends parts)
qed

end
