(* ===== verification/Lifecycle.thy ===== *)
theory Lifecycle
  imports Handler_Frames
begin

text \<open>
  The handlers of \<open>src/ModSecurityIIS.cpp\<close> put together: requests that follow one another in a
  worker process, each going through OnBeginRequest, completions of its body reads, any number
  of OnSendResponse notifications, OnPostEndRequest and the clean-up of its context. IIS is the
  step relation. The process keeps an invariant, refines a small specification of what happens
  to transactions, and every request can come to its end.
\<close>

section \<open>The process\<close>

text \<open>
  Between requests, with a body read outstanding, or past the request notification. A request
  runs in an environment of its own (what http.sys and IIS answer for it); the process keeps
  the world and the configuration stored for every path.
\<close>

datatype phase = Fresh | Waiting | Running

record life =
  lf_env :: env
  lf_phase :: phase
  lf_configs :: "nat \<Rightarrow> config option"
  lf_world :: world

definition phase_after :: "notification_status \<Rightarrow> phase" where
  "phase_after st = (if st = RQ_NOTIFICATION_PENDING then Waiting else Running)"

text \<open>The outstanding read completes: IIS has written the bytes into \<open>m_ReadBuf\<close>.\<close>

definition read_arrives :: "bytes \<Rightarrow> HRESULT \<Rightarrow> world \<Rightarrow> world" where
  "read_arrives d hr w = (case w_rsc w of
       None \<Rightarrow> w
     | Some r \<Rightarrow> w\<lparr>w_rsc := Some (r\<lparr>m_ReadBuf := d @ drop (length d) (m_ReadBuf r)\<rparr>),
                  w_evs := w_evs w @ [ReadReturned d hr]\<rparr>)"

text \<open>
  The steps of IIS. A completion that is not ours may arrive at any time no read of ours is
  outstanding; \<open>cap\<close> is the inspection cap of the process.
\<close>

inductive life_step :: "nat \<Rightarrow> life \<Rightarrow> life \<Rightarrow> bool" for cap where
  life_begin: "lf_phase s = Fresh \<Longrightarrow> begin_host e \<Longrightarrow> cap_of e = cap \<Longrightarrow>
     OnBeginRequest e b ((lf_world s)\<lparr>w_config := lf_configs s p\<rparr>) = (Ok st, v) \<Longrightarrow>
     life_step cap s \<lparr> lf_env = e, lf_phase = phase_after st,
       lf_configs = (lf_configs s)(p := w_config v), lf_world = v \<rparr>"
| life_complete: "lf_phase s = Waiting \<Longrightarrow> length d \<le> kBodyReadChunkSize \<Longrightarrow>
     OnAsyncCompletion (lf_env s) True (Some (word_of_nat (length d), hr)) (read_arrives d hr (lf_world s))
       = (Ok st, v) \<Longrightarrow>
     life_step cap s (s\<lparr>lf_phase := phase_after st, lf_world := v\<rparr>)"
| life_foreign: "lf_phase s \<noteq> Waiting \<Longrightarrow>
     OnAsyncCompletion (lf_env s) b info (lf_world s) = (Ok st, v) \<Longrightarrow>
     life_step cap s (s\<lparr>lf_world := v\<rparr>)"
| life_send: "lf_phase s \<noteq> Waiting \<Longrightarrow> (\<And>raw. sn_raw n = Some raw \<Longrightarrow> valid_response raw) \<Longrightarrow>
     OnSendResponse (lf_env s) n (lf_world s) = (Ok st, v) \<Longrightarrow>
     life_step cap s (s\<lparr>lf_world := v\<rparr>)"
| life_post_end: "lf_phase s = Running \<Longrightarrow> OnPostEndRequest (lf_env s) (lf_world s) = (Ok st, v) \<Longrightarrow>
     life_step cap s (s\<lparr>lf_world := v\<rparr>)"
| life_cleanup: "lf_phase s = Running \<Longrightarrow> w_rsc (lf_world s) \<noteq> None \<Longrightarrow>
     CleanupStoredContext (lf_env s) (lf_world s) = (Ok (), v) \<Longrightarrow>
     life_step cap s (s\<lparr>lf_phase := Fresh, lf_world := v\<rparr>)"
| life_gone: "lf_phase s = Running \<Longrightarrow> w_rsc (lf_world s) = None \<Longrightarrow>
     life_step cap s (s\<lparr>lf_phase := Fresh\<rparr>)"

inductive_cases life_stepE: "life_step cap s t"

definition configs_valid :: "life \<Rightarrow> bool" where
  "configs_valid s \<longleftrightarrow> (\<forall>p c. lf_configs s p = Some c \<longrightarrow> m_pszPath c \<noteq> Some [])"

definition life_init :: "life \<Rightarrow> bool" where
  "life_init s \<longleftrightarrow> lf_phase s = Fresh \<and> configs_valid s \<and>
     w_rsc (lf_world s) = None \<and> w_evs (lf_world s) = []"

section \<open>The invariant\<close>

definition rested :: "nat \<Rightarrow> world \<Rightarrow> bool" where
  "rested cap w \<longleftrightarrow> idle w \<and> faithful cap (w_evs w)"

definition life_inv :: "nat \<Rightarrow> life \<Rightarrow> bool" where
  "life_inv cap s \<longleftrightarrow> configs_valid s \<and> (case lf_phase s of
       Fresh \<Rightarrow> rested cap (lf_world s) \<and> w_rsc (lf_world s) = None
     | Waiting \<Rightarrow> body_host (lf_env s) \<and> cap_of (lf_env s) = cap \<and> (\<exists>t. pended (lf_env s) t (lf_world s))
     | Running \<Rightarrow> rested cap (lf_world s))"

lemma at_rest_rested: "at_rest env w = rested (cap_of env) w"
  by (simp add: at_rest_def calm_def rested_def)

lemma rested_cong: "w_rsc v = w_rsc w \<Longrightarrow> w_evs v = w_evs w \<Longrightarrow> rested cap v = rested cap w"
  using idle_cong[of v w] by (simp add: rested_def)

lemma settled_phase:
  assumes "settled env t st v"
  shows "if st = RQ_NOTIFICATION_PENDING then pended env t v else rested (cap_of env) v"
  using assms loyal_at_rest[of env v] fed_loyal[of env t False v]
  by (cases st) (auto simp: settled_def at_rest_rested)

lemma answered_phase:
  assumes "answered env reason st v"
  shows "if st = RQ_NOTIFICATION_PENDING then \<exists>t. pended env t v else rested (cap_of env) v"
  using assms loyal_at_rest[of env v] fed_loyal
  by (cases st) (fastforce simp: answered_def at_rest_rested)+

lemma arrived_delivered:
  assumes "pended env t w" and "length d \<le> kBodyReadChunkSize"
  shows "arrived env t (length d) (read_arrives d hr w)"
proof -
  from assms(1) obtain r where r: "w_rsc w = Some r" "m_pTx r = Some t" "m_BodyReadState r = BRS_READ_PENDING"
      "received (w_evs w) = m_Body r" "length (m_ReadBuf r) = kBodyReadChunkSize" "length (m_Body r) < cap_of env"
    and w: "ctx_inv w" "outstanding (w_evs w) = 1" "faithful (cap_of env) (w_evs w)"
      "ProcessRequestBody \<notin> set (calls_of t (w_evs w))" by (auto simp: pended_def)
  let ?e = "ReadReturned d hr"
  have same: "calls_of u (w_evs w @ [?e]) = calls_of u (w_evs w)"
    "tx_open u (w_evs w @ [?e]) = tx_open u (w_evs w)"
    "tx_closed u (w_evs w @ [?e]) = tx_closed u (w_evs w)"
    "phases_once u (w_evs w @ [?e]) = phases_once u (w_evs w)" for u
    by (simp_all add: tx_open_def tx_closed_def phases_once_def live_def abandoned_def)
  have "ids_bounded (w_evs w @ [?e])"
    using w(1) by (auto simp: ctx_inv_def ids_bounded_def less_Suc_eq)
  with w(1) r(1,2) have "ctx_inv (read_arrives d hr w)"
    unfolding ctx_inv_def by (auto simp: read_arrives_def same simp del: calls_of_append)
  with r w assms(2) show ?thesis
    by (auto simp: arrived_def read_arrives_def outstanding_def)
qed

lemma count_bytes:
  assumes "length d \<le> kBodyReadChunkSize"
  shows "unat (word_of_nat (length d) :: DWORD) = length d"
proof -
  from assms have "length d < 2 ^ 32" by (simp add: kBodyReadChunkSize_def)
  then show ?thesis by (simp add: unsigned_of_nat take_bit_nat_eq_self)
qed

lemma rested_emits:
  assumes "rested cap w" and "idle v" and "emits body_silent m" and "m w = (r, v)"
  shows "rested cap v"
proof -
  obtain es where "w_evs v = w_evs w @ es" "\<forall>e \<in> set es. body_silent e"
    by (rule emitsE[OF assms(3,4)])
  moreover have "faithful cap (evs @ es)" if "faithful cap evs" "\<forall>e \<in> set es. body_silent e" for evs es
    using that by (induction es rule: rev_induct) (simp_all add: silent_recv flip: append_assoc)
  ultimately show ?thesis using assms(1,2) by (simp add: rested_def)
qed

lemma emits_cleanup_silent: "emits body_silent (CleanupStoredContext env)"
  unfolding CleanupStoredContext_def cleanup_ctx_def finish_ctx_def
  by (intro emits_intros emits_modify) simp_all

lemma triple_returns:
  assumes "triple P m Q (\<lambda>_ _. False)" and "P s"
  obtains x t where "m s = (Ok x, t)" and "Q x t"
proof -
  obtain r t where run: "m s = (r, t)" by fastforce
  with assms have "case r of Ok x \<Rightarrow> Q x t | Throw e \<Rightarrow> False | Undef \<Rightarrow> False"
    by (cases r) (auto dest: triple_Ok triple_Throw triple_Undef)
  with run that show thesis by (cases r) auto
qed

text \<open>What each handler does from a state of its phase: it returns, and the phase it leaves holds.\<close>

lemma begin_runs:
  assumes host: "begin_host e" and w: "rested (cap_of e) w" and valid: "config_valid w"
  obtains st v where "OnBeginRequest e b w = (Ok st, v)" and "config_valid v"
    and "if st = RQ_NOTIFICATION_PENDING then \<exists>t. pended e t v else rested (cap_of e) v"
proof -
  have rest: "at_rest e w" using w by (simp add: at_rest_rested)
  obtain st v where run: "OnBeginRequest e b w = (Ok st, v)" and st: "answered e (let_through e w) st v"
    by (rule triple_returns[OF OnBeginRequest_ends[OF host rest valid, of b] refl])
  have "config_valid v"
    using host by (intro OnBeginRequest_config[OF _ rest valid run]) (simp add: begin_host_def)
  from that[OF run this answered_phase[OF st]] show thesis .
qed

lemma completion_runs:
  assumes host: "body_host e" and w: "pended e t w" and d: "length d \<le> kBodyReadChunkSize"
  obtains st v where "OnAsyncCompletion e True (Some (word_of_nat (length d), hr)) (read_arrives d hr w) = (Ok st, v)"
    and "if st = RQ_NOTIFICATION_PENDING then pended e t v else rested (cap_of e) v"
proof -
  let ?m = "OnAsyncCompletion e True (Some (word_of_nat (length d), hr))"
  have "arrived e t (unat (word_of_nat (length d) :: DWORD)) (read_arrives d hr w)"
    using arrived_delivered[OF w d] count_bytes[OF d] by simp
  then obtain st v where run: "?m (read_arrives d hr w) = (Ok st, v)" and st: "settled e t st v"
    by (rule triple_returns[OF triple_completion[OF host]])
  from that[OF run settled_phase[OF st]] show thesis .
qed

lemma send_runs:
  assumes "rested cap w" and "\<And>raw. sn_raw n = Some raw \<Longrightarrow> valid_response raw"
  obtains st v where "OnSendResponse e n w = (Ok st, v)" and "st \<noteq> RQ_NOTIFICATION_PENDING" and "rested cap v"
proof -
  have "idle w" using assms(1) by (simp add: rested_def)
  have ends: "triple idle (OnSendResponse e n) (\<lambda>st w. idle w \<and> st \<noteq> RQ_NOTIFICATION_PENDING) (\<lambda>_ _. False)"
    by (rule triple_OnSendResponse) (rule assms(2))
  from ends \<open>idle w\<close> obtain st v where run: "OnSendResponse e n w = (Ok st, v)"
    and v: "idle v \<and> st \<noteq> RQ_NOTIFICATION_PENDING"
    by (rule triple_returns)
  from v rested_emits[OF assms(1) _ emits_send_silent run] that[OF run] show thesis by blast
qed

lemma foreign_runs:
  assumes "rested cap w"
  shows "OnAsyncCompletion e b info w = (Ok RQ_NOTIFICATION_CONTINUE, w)"
  using assms by (intro foreign_completion) (auto simp: rested_def idle_def quiet_reads_def)

lemma cleanup_runs:
  assumes "rested cap w" and "w_rsc w \<noteq> None"
  obtains v where "CleanupStoredContext e w = (Ok (), v)" and "rested cap v" and "w_rsc v = None"
proof -
  have "attached w" using assms by (simp add: rested_def attached_def)
  from cleanup_attached[OF this] obtain v where
    "CleanupStoredContext e w = (Ok (), v)" "idle v" "w_rsc v = None" by blast
  with rested_emits[OF assms(1) _ emits_cleanup_silent] that show thesis by blast
qed

lemma begin_world:
  assumes "rested cap w" and "configs_valid s"
  shows "rested cap (w\<lparr>w_config := lf_configs s p\<rparr>)" and "config_valid (w\<lparr>w_config := lf_configs s p\<rparr>)"
  using assms rested_cong[of "w\<lparr>w_config := lf_configs s p\<rparr>" w] by (auto simp: configs_valid_def config_valid_def)

lemma life_inv_init: "life_init s \<Longrightarrow> life_inv cap s"
  by (auto simp: life_init_def life_inv_def rested_def configs_valid_def idle_def ctx_inv_def ids_bounded_def
      phases_once_def quiet_reads_def outstanding_def faithful_def)

lemma life_inv_phase:
  assumes "configs_valid s" and "body_host (lf_env s)" and "cap_of (lf_env s) = cap"
    and "lf_phase s = phase_after st"
    and "if st = RQ_NOTIFICATION_PENDING then \<exists>t. pended (lf_env s) t (lf_world s) else rested cap (lf_world s)"
  shows "life_inv cap s"
  using assms by (auto simp: life_inv_def phase_after_def split: if_splits)

lemma not_waiting:
  "life_inv cap s \<Longrightarrow> lf_phase s \<noteq> Waiting \<Longrightarrow> configs_valid s \<and> rested cap (lf_world s)"
  by (cases "lf_phase s") (auto simp: life_inv_def)

lemma life_inv_running:
  assumes "life_inv cap s" and "lf_phase s \<noteq> Waiting" and "rested cap v"
    and "lf_phase s = Fresh \<Longrightarrow> w_rsc v = None"
  shows "life_inv cap (s\<lparr>lf_world := v\<rparr>)"
  using assms by (cases "lf_phase s") (auto simp: life_inv_def configs_valid_def)

lemma life_inv_step:
  assumes inv: "life_inv cap s" and step: "life_step cap s s'"
  shows "life_inv cap s'"
  using step
proof cases
  case (life_begin e b p st v)
  from not_waiting[OF inv] life_begin(2) have configs: "configs_valid s" and w: "rested cap (lf_world s)"
    by simp_all
  have body: "body_host e" using life_begin(3) by (simp add: begin_host_def)
  obtain st' v' where run: "OnBeginRequest e b ((lf_world s)\<lparr>w_config := lf_configs s p\<rparr>) = (Ok st', v')"
    and config: "config_valid v'"
    and ends: "if st' = RQ_NOTIFICATION_PENDING then \<exists>t. pended e t v' else rested (cap_of e) v'"
    by (rule begin_runs[OF life_begin(3), where b = b and w = "(lf_world s)\<lparr>w_config := lf_configs s p\<rparr>"])
       (use begin_world[OF w configs, of p] life_begin(4) in simp_all)
  with life_begin(5) have same: "st' = st" "v' = v" by simp_all
  have "configs_valid s'"
    using configs config same life_begin(1) by (auto simp: configs_valid_def config_valid_def)
  then show ?thesis
    by (rule life_inv_phase[where st = st]) (use life_begin body ends same in \<open>auto split: if_splits\<close>)
next
  case (life_complete d hr st v)
  from inv life_complete(2) obtain t where host: "body_host (lf_env s)" "cap_of (lf_env s) = cap"
    and p: "pended (lf_env s) t (lf_world s)" and configs: "configs_valid s" by (auto simp: life_inv_def)
  obtain st' v' where "OnAsyncCompletion (lf_env s) True (Some (word_of_nat (length d), hr))
        (read_arrives d hr (lf_world s)) = (Ok st', v')"
    and ends: "if st' = RQ_NOTIFICATION_PENDING then pended (lf_env s) t v' else rested (cap_of (lf_env s)) v'"
    by (rule completion_runs[OF host(1) p life_complete(3)])
  with life_complete(4) have same: "st' = st" "v' = v" by simp_all
  have "configs_valid s'" using configs life_complete(1) by (simp add: configs_valid_def)
  then show ?thesis
    by (rule life_inv_phase[where st = st]) (use life_complete host ends same in \<open>auto split: if_splits\<close>)
next
  case (life_foreign b info st v)
  from not_waiting[OF inv life_foreign(2)] foreign_runs[of cap "lf_world s" "lf_env s" b info] life_foreign(3)
  have "v = lf_world s" by simp
  with life_foreign(1) inv show ?thesis by simp
next
  case (life_send n st v)
  from not_waiting[OF inv life_send(2)] have w: "rested cap (lf_world s)" by simp
  obtain st' v' where "OnSendResponse (lf_env s) n (lf_world s) = (Ok st', v')" "rested cap v'"
    by (rule send_runs[OF w life_send(3)])
  with life_send(4) have v: "rested cap v" by simp
  have none: "w_rsc v = None" if "lf_phase s = Fresh"
  proof -
    from inv that have "w_rsc (lf_world s) = None" by (simp add: life_inv_def)
    then have "OnSendResponse (lf_env s) n (lf_world s) = (Ok RQ_NOTIFICATION_CONTINUE, lf_world s)"
      by (simp add: OnSendResponse_def send_response_def prog_defs)
    with life_send(4) \<open>w_rsc (lf_world s) = None\<close> show ?thesis by simp
  qed
  show ?thesis unfolding life_send(1) using inv life_send(2) v none by (rule life_inv_running)
next
  case (life_post_end st v)
  then have "v = lf_world s" by (simp add: OnPostEndRequest_def ret_def)
  with life_post_end(1) inv show ?thesis by simp
next
  case (life_cleanup v)
  from not_waiting[OF inv] life_cleanup(2) have w: "rested cap (lf_world s)" "configs_valid s" by simp_all
  obtain v' where "CleanupStoredContext (lf_env s) (lf_world s) = (Ok (), v')" "rested cap v'" "w_rsc v' = None"
    by (rule cleanup_runs[OF w(1) life_cleanup(3)])
  with life_cleanup(1,4) w(2) show ?thesis by (simp add: life_inv_def configs_valid_def)
next
  case life_gone
  with inv show ?thesis by (simp add: life_inv_def configs_valid_def)
qed

section \<open>The specification\<close>

text \<open>
  What a request is to do with transactions: it opens at most one, which waits for the body or
  is handed on, is ended at most once, never opened again, and is gone when the request is.
\<close>

record spec =
  sp_phase :: phase
  sp_open :: "nat option"
  sp_ended :: "nat set"

definition spec_init :: "spec \<Rightarrow> bool" where
  "spec_init a \<longleftrightarrow> sp_phase a = Fresh \<and> sp_open a = None \<and> sp_ended a = {}"

inductive spec_step :: "spec \<Rightarrow> spec \<Rightarrow> bool" where
  spec_begin: "sp_phase a = Fresh \<Longrightarrow> sp_open a = None \<Longrightarrow> ph \<noteq> Fresh \<Longrightarrow> (ph = Waiting \<Longrightarrow> t \<noteq> None) \<Longrightarrow>
     set_option t \<inter> (sp_ended a \<union> T) = {} \<Longrightarrow> sp_ended a \<inter> T = {} \<Longrightarrow>
     spec_step a \<lparr> sp_phase = ph, sp_open = t, sp_ended = sp_ended a \<union> T \<rparr>"
| spec_resume: "sp_phase a = Waiting \<Longrightarrow> sp_open a = Some t \<Longrightarrow> spec_step a (a\<lparr>sp_phase := Running\<rparr>)"
| spec_end: "sp_phase a \<noteq> Fresh \<Longrightarrow> sp_open a = Some t \<Longrightarrow>
     spec_step a (a\<lparr>sp_phase := Running, sp_open := None, sp_ended := insert t (sp_ended a)\<rparr>)"
| spec_stay: "spec_step a a"
| spec_cleanup: "sp_phase a = Running \<Longrightarrow>
     spec_step a (a\<lparr>sp_phase := Fresh, sp_open := None, sp_ended := sp_ended a \<union> set_option (sp_open a)\<rparr>)"

definition spec_inv :: "spec \<Rightarrow> bool" where
  "spec_inv a \<longleftrightarrow> (sp_phase a = Fresh \<longrightarrow> sp_open a = None) \<and> (sp_phase a = Waiting \<longrightarrow> sp_open a \<noteq> None) \<and>
     set_option (sp_open a) \<inter> sp_ended a = {}"

interpretation transaction_spec: inv_system spec_init spec_step spec_inv
  by unfold_locales (auto simp: spec_init_def spec_inv_def elim!: spec_step.cases)

lemma spec_ended_grows: "spec_step a b \<Longrightarrow> sp_ended a \<subseteq> sp_ended b"
  by (auto elim: spec_step.cases)

section \<open>The abstraction\<close>

definition open_tx :: "world \<Rightarrow> nat option" where
  "open_tx w = Option.bind (w_rsc w) m_pTx"

definition created :: "event list \<Rightarrow> nat set" where
  "created evs = {t. TxNew t \<in> set evs}"

definition abs_life :: "life \<Rightarrow> spec" where
  "abs_life s = \<lparr> sp_phase = lf_phase s, sp_open = open_tx (lf_world s),
     sp_ended = created (w_evs (lf_world s)) - set_option (open_tx (lf_world s)) \<rparr>"

lemma open_txD:
  assumes "ctx_inv w" and "open_tx w = Some t"
  shows "tx_open t (w_evs w)" and "t \<in> created (w_evs w)"
  using assms by (auto simp: open_tx_def ctx_inv_def created_def tx_open_def live_def bind_eq_Some_conv)

lemma not_open_closed:
  assumes "ctx_inv w" and "t \<in> created (w_evs w)" and "open_tx w \<noteq> Some t"
  shows "tx_closed t (w_evs w)"
  using assms by (auto simp: ctx_inv_def created_def open_tx_def)

lemma closed_not_reopened: "tx_closed t evs \<Longrightarrow> \<not> tx_open t (evs @ es)"
  by (auto simp: tx_closed_def tx_open_def abandoned_def live_def)

text \<open>After a handler that creates no transaction the open one is still open, or none is.\<close>

lemma tame_step:
  assumes v: "ctx_inv v" and w: "ctx_inv w" and es: "w_evs v = w_evs w @ es" "\<forall>e \<in> set es. tame e"
  shows "created (w_evs v) = created (w_evs w)" and "open_tx v = open_tx w \<or> open_tx v = None"
proof -
  have "TxNew t \<notin> set es" for t using es(2) by auto
  then show same: "created (w_evs v) = created (w_evs w)" using es(1) by (simp add: created_def)
  show "open_tx v = open_tx w \<or> open_tx v = None"
  proof (cases "open_tx v")
    case (Some t)
    with open_txD[OF v] same es(1) have "tx_open t (w_evs w @ es)" "t \<in> created (w_evs w)" by auto
    with not_open_closed[OF w, of t] closed_not_reopened[of t "w_evs w" es] have "open_tx w = Some t" by blast
    with Some show ?thesis by simp
  qed simp
qed

lemma rested_inv: "rested cap w \<Longrightarrow> ctx_inv w"
  by (simp add: rested_def idle_def)

lemma pended_inv: "pended e t w \<Longrightarrow> ctx_inv w \<and> open_tx w = Some t"
  by (auto simp: pended_def open_tx_def)

lemma life_inv_ctx: "life_inv cap s \<Longrightarrow> ctx_inv (lf_world s)"
  by (cases "lf_phase s") (auto simp: life_inv_def pended_def rested_def idle_def)

text \<open>A handler that only continues the request leaves the open transaction open or ends it.\<close>

lemma continues:
  assumes w: "ctx_inv w" and v: "ctx_inv v" and m: "emits tame m" "m w = (r, v)"
    and abs: "sp_open a = open_tx w" "sp_ended a = created (w_evs w) - set_option (open_tx w)"
  shows "\<lparr> sp_phase = ph, sp_open = open_tx v, sp_ended = created (w_evs v) - set_option (open_tx v) \<rparr> =
      a\<lparr>sp_phase := ph\<rparr> \<or>
    (\<exists>t. open_tx w = Some t \<and>
       \<lparr> sp_phase = ph, sp_open = open_tx v, sp_ended = created (w_evs v) - set_option (open_tx v) \<rparr> =
       a\<lparr>sp_phase := ph, sp_open := None, sp_ended := insert t (sp_ended a)\<rparr>)"
proof -
  obtain es where es: "w_evs v = w_evs w @ es" "\<forall>e \<in> set es. tame e" by (rule emitsE[OF m])
  note step = tame_step[OF v w es]
  show ?thesis
  proof (cases "open_tx v = open_tx w")
    case True
    with step(1) abs show ?thesis by (cases a) simp
  next
    case False
    with step(2) obtain t where t: "open_tx w = Some t" "open_tx v = None" by (cases "open_tx w") auto
    with open_txD(2)[OF w] have "t \<in> created (w_evs w)" by simp
    with step(1) abs t have "created (w_evs v) = insert t (sp_ended a)" by auto
    with t abs show ?thesis by (cases a) simp
  qed
qed

lemma abs_step:
  assumes inv: "life_inv cap s" and step: "life_step cap s s'"
  shows "spec_step (abs_life s) (abs_life s')"
proof -
  note w = life_inv_ctx[OF inv] and v = life_inv_ctx[OF life_inv_step[OF inv step]]
  from step show ?thesis
  proof cases
    case (life_begin e b p st v)
    have none: "open_tx (lf_world s) = None" using inv life_begin(2) by (simp add: life_inv_def open_tx_def)
    obtain es where es: "w_evs v = w_evs (lf_world s) @ es"
      using emitsE[OF OnBeginRequest_appends life_begin(5)] by auto
    then have grows: "created (w_evs (lf_world s)) \<subseteq> created (w_evs v)" by (auto simp: created_def)
    have new: "t \<notin> created (w_evs (lf_world s))" if "open_tx v = Some t" for t
    proof
      assume "t \<in> created (w_evs (lf_world s))"
      with not_open_closed[OF w] none have "tx_closed t (w_evs (lf_world s))" by simp
      with closed_not_reopened[of t _ es] es open_txD(1)[of v t] v that life_begin(1) show False by simp
    qed
    have wait: "open_tx v \<noteq> None" if "phase_after st = Waiting"
      using life_inv_step[OF inv step] that life_begin(1) by (auto simp: life_inv_def dest: pended_inv)
    let ?T = "created (w_evs v) - created (w_evs (lf_world s)) - set_option (open_tx v)"
    have "spec_step (abs_life s) \<lparr> sp_phase = phase_after st, sp_open = open_tx v,
        sp_ended = sp_ended (abs_life s) \<union> ?T \<rparr>"
      by (rule spec_begin) (use life_begin(2) none new wait in
          \<open>auto simp: abs_life_def phase_after_def split: if_splits\<close>)
    moreover have "sp_ended (abs_life s) \<union> ?T = created (w_evs v) - set_option (open_tx v)"
      using grows new none by (auto simp: abs_life_def)
    ultimately show ?thesis using life_begin(1) by (simp add: abs_life_def)
  next
    case (life_complete d hr st v)
    from inv life_complete(2) obtain t where p: "pended (lf_env s) t (lf_world s)" by (auto simp: life_inv_def)
    let ?u = "read_arrives d hr (lf_world s)"
    from p have u: "open_tx ?u = open_tx (lf_world s)" "created (w_evs ?u) = created (w_evs (lf_world s))"
      by (auto simp: read_arrives_def open_tx_def created_def pended_def)
    have ui: "ctx_inv ?u" using arrived_delivered[OF p life_complete(3)] by (simp add: arrived_def)
    have phase: "phase_after st = Waiting \<or> phase_after st = Running" by (simp add: phase_after_def)
    have t: "sp_open (abs_life s) = Some t" "sp_phase (abs_life s) = Waiting"
      using pended_inv[OF p] life_complete(2) by (simp_all add: abs_life_def)
    have wait: "open_tx v \<noteq> None" if "phase_after st = Waiting"
      using life_inv_step[OF inv step] that life_complete(1) by (auto simp: life_inv_def dest: pended_inv)
    have v': "ctx_inv v" using v life_complete(1) by simp
    have f: "emits tame (OnAsyncCompletion (lf_env s) True (Some (word_of_nat (length d), hr)))"
      using framed_OnAsyncCompletion by (simp add: framed_def)
    have "abs_life s' = (abs_life s)\<lparr>sp_phase := phase_after st\<rparr> \<or>
      (\<exists>t'. open_tx ?u = Some t' \<and> abs_life s' =
         (abs_life s)\<lparr>sp_phase := phase_after st, sp_open := None, sp_ended := insert t' (sp_ended (abs_life s))\<rparr>)"
      using continues[OF ui v' f life_complete(4), of "abs_life s" "phase_after st"] u life_complete(1)
      by (simp add: abs_life_def)
    then show ?thesis
    proof (elim disjE exE conjE)
      assume same: "abs_life s' = (abs_life s)\<lparr>sp_phase := phase_after st\<rparr>"
      have "(abs_life s)\<lparr>sp_phase := Waiting\<rparr> = abs_life s" using t(2) by (cases "abs_life s") simp
      with same phase spec_stay spec_resume[OF t(2,1)] show ?thesis by auto
    next
      fix t' assume t': "open_tx ?u = Some t'" and fin: "abs_life s' = (abs_life s)\<lparr>sp_phase := phase_after st,
        sp_open := None, sp_ended := insert t' (sp_ended (abs_life s))\<rparr>"
      from fin life_complete(1) have "open_tx v = None" by (cases "abs_life s") (simp add: abs_life_def)
      with wait phase have "phase_after st = Running" by auto
      moreover from t' u(1) t(1) have "t' = t" by (simp add: abs_life_def)
      ultimately show ?thesis using fin spec_end[of "abs_life s" t] t by simp
    qed
  next
    case (life_foreign b info st v)
    with not_waiting[OF inv] foreign_runs[of cap "lf_world s"] have "s' = s" by simp
    then show ?thesis by (simp add: spec_stay)
  next
    case (life_send n st v)
    have v': "ctx_inv v" using v life_send(1) by simp
    have same: "(abs_life s)\<lparr>sp_phase := lf_phase s\<rparr> = abs_life s" by (simp add: abs_life_def)
    have "abs_life s' = abs_life s \<or> (\<exists>t. open_tx (lf_world s) = Some t \<and> abs_life s' =
        (abs_life s)\<lparr>sp_phase := lf_phase s, sp_open := None, sp_ended := insert t (sp_ended (abs_life s))\<rparr>)"
      using continues[OF w v' emits_OnSendResponse life_send(4), of "abs_life s" "lf_phase s"] life_send(1) same
      by (simp add: abs_life_def)
    then show ?thesis
    proof (elim disjE exE conjE)
      fix t assume t: "open_tx (lf_world s) = Some t" and fin: "abs_life s' = (abs_life s)\<lparr>sp_phase := lf_phase s,
          sp_open := None, sp_ended := insert t (sp_ended (abs_life s))\<rparr>"
      have "lf_phase s \<noteq> Fresh" using inv t by (auto simp: life_inv_def open_tx_def)
      with life_send(2) have "lf_phase s = Running" by (cases "lf_phase s") auto
      moreover from this t have "sp_phase (abs_life s) \<noteq> Fresh" "sp_open (abs_life s) = Some t"
        by (simp_all add: abs_life_def)
      ultimately show ?thesis using fin spec_end[of "abs_life s" t] by simp
    qed (simp add: spec_stay)
  next
    case (life_post_end st v)
    then have "s' = s" by (simp add: OnPostEndRequest_def ret_def)
    then show ?thesis by (simp add: spec_stay)
  next
    case (life_cleanup v)
    have v': "ctx_inv v" using v life_cleanup(1) by simp
    have f: "emits tame (CleanupStoredContext (lf_env s))"
      using framed_CleanupStoredContext by (simp add: framed_def)
    have "w_rsc v = None" using life_inv_step[OF inv step] life_cleanup(1) by (simp add: life_inv_def)
    then have none: "open_tx v = None" by (simp add: open_tx_def)
    obtain es where es: "w_evs v = w_evs (lf_world s) @ es" "\<forall>e \<in> set es. tame e"
      by (rule emitsE[OF f life_cleanup(4)])
    note same = tame_step(1)[OF v' w es]
    have "created (w_evs v) = sp_ended (abs_life s) \<union> set_option (sp_open (abs_life s))"
      using same open_txD(2)[OF w] by (cases "open_tx (lf_world s)") (auto simp: abs_life_def)
    with none life_cleanup(1,2) spec_cleanup[of "abs_life s"] show ?thesis by (simp add: abs_life_def)
  next
    case life_gone
    then have "open_tx (lf_world s) = None" by (simp add: open_tx_def)
    with life_gone spec_cleanup[of "abs_life s"] show ?thesis by (simp add: abs_life_def)
  qed
qed

lemma created_grows:
  assumes inv: "life_inv cap s" and step: "life_step cap s s'"
  shows "created (w_evs (lf_world s)) \<subseteq> created (w_evs (lf_world s'))"
proof -
  have "sp_ended a \<union> set_option (sp_open a) \<subseteq> sp_ended b \<union> set_option (sp_open b)" if "spec_step a b" for a b
    using that by cases auto
  from this[OF abs_step[OF inv step]]
  have "created (w_evs (lf_world s)) - set_option (open_tx (lf_world s)) \<union> set_option (open_tx (lf_world s)) \<subseteq>
    created (w_evs (lf_world s')) - set_option (open_tx (lf_world s')) \<union> set_option (open_tx (lf_world s'))"
    by (simp add: abs_life_def)
  moreover have "set_option (open_tx (lf_world s')) \<subseteq> created (w_evs (lf_world s'))"
    using open_txD(2)[OF life_inv_ctx[OF life_inv_step[OF inv step]]] by (cases "open_tx (lf_world s')") auto
  ultimately show ?thesis by blast
qed

lemma abs_init: "life_init s \<Longrightarrow> spec_init (abs_life s)"
  by (simp add: life_init_def spec_init_def abs_life_def open_tx_def created_def)

interpretation request_life: simulation life_init "life_step cap" "life_inv cap" spec_init spec_step abs_life
  for cap
  by unfold_locales (rule life_inv_init, assumption, erule (1) life_inv_step, rule abs_init, assumption,
      erule (1) abs_step)

section \<open>Reading comes to an end\<close>

lemma received_grows:
  assumes "\<forall>e \<in> set es. tame e"
  shows "length (received evs) \<le> length (received (evs @ es))"
  using assms
proof (induction es rule: rev_induct)
  case (snoc e es)
  have "length acc \<le> length (recv_step e acc)" if "tame e" for acc
    using that by (cases e) auto
  moreover have "received (evs @ es @ [e]) = recv_step e (received (evs @ es))"
    using received_snoc[of "evs @ es" e] by simp
  ultimately show ?case using snoc by (auto intro: order_trans)
qed simp

lemma gives_ret: "Q x \<Longrightarrow> gives Q (ret x)"
  by (simp add: gives_def ret_def)

lemma gives_andThen: "gives Q n \<Longrightarrow> gives Q (andThen m n)"
  unfolding andThen_def by (rule gives_bnd)

lemma gives_after:
  assumes "gives P m" and "\<And>x. P x \<Longrightarrow> gives Q (f x)"
  shows "gives Q (bnd m f)"
  unfolding gives_def
proof (intro allI impI)
  fix w x v
  assume run: "bnd m f w = (Ok x, v)"
  obtain r u where m: "m w = (r, u)" by fastforce
  with run obtain y where y: "r = Ok y" by (cases r) (simp_all add: bnd_def)
  with m assms(1) have "P y" by (auto simp: gives_def)
  moreover from run m y have "f y u = (Ok x, v)" by (simp add: run_bnd_Ok)
  ultimately show "Q x" using assms(2)[of y] unfolding gives_def by blast
qed

lemma gives_cases:
  "(c \<Longrightarrow> gives Q m) \<Longrightarrow> (\<not> c \<Longrightarrow> gives Q n) \<Longrightarrow> gives Q (if c then m else n)"
  "gives Q m \<Longrightarrow> (\<And>e. gives Q (h e)) \<Longrightarrow> gives Q (try_catch m h)"
  by (auto simp: gives_def try_catch_def split: prod.splits outcome.splits)

lemma finish_not_pending: "gives (\<lambda>st. st \<noteq> RQ_NOTIFICATION_PENDING) (FinishBodyRead env)"
proof -
  have restored: "gives (\<lambda>x. \<forall>st. x = Inl st \<longrightarrow> st = RQ_NOTIFICATION_FINISH_REQUEST) (restore_body env)"
    using restore_body_status by (auto simp: gives_def)
  have "gives (\<lambda>x. \<forall>st. x = Inl st \<longrightarrow> st = RQ_NOTIFICATION_FINISH_REQUEST) (deliver_body env)"
    unfolding deliver_body_def
  proof (intro gives_cases(2) gives_after[OF restored])
    fix x :: "notification_status + bool"
    assume "\<forall>st. x = Inl st \<longrightarrow> st = RQ_NOTIFICATION_FINISH_REQUEST"
    then show "gives (\<lambda>x. \<forall>st. x = Inl st \<longrightarrow> st = RQ_NOTIFICATION_FINISH_REQUEST)
      (case x of Inl status \<Rightarrow> ret (Inl status)
        | Inr restoreFailed \<Rightarrow> andThen (feed_body env) (ret (Inr restoreFailed)))"
      by (cases x) (auto intro: gives_ret gives_andThen)
  qed (intro gives_andThen gives_ret, simp)
  moreover have "gives (\<lambda>st. st \<noteq> RQ_NOTIFICATION_PENDING) (body_verdict env b)" for b
    unfolding body_verdict_def by (intro gives_bnd gives_cases gives_andThen gives_ret) simp_all
  ultimately show ?thesis
    unfolding FinishBodyRead_def
    by (elim gives_after) (auto intro: gives_ret split: sum.split)
qed

lemma empty_not_pending:
  "gives (\<lambda>st. st \<noteq> RQ_NOTIFICATION_PENDING) (OnAsyncCompletion env b (Some (0, hr)))"
proof -
  have done_: "gives (\<lambda>x. \<exists>st. x = Some st \<and> st \<noteq> RQ_NOTIFICATION_PENDING) (body_done env)"
    unfolding body_done_def by (intro gives_andThen gives_after[OF finish_not_pending] gives_ret) simp
  have eof: "gives (\<lambda>x. \<exists>st. x = Some st \<and> st \<noteq> RQ_NOTIFICATION_PENDING) (ConsumeBodyChunk env 0 hr)"
    unfolding ConsumeBodyChunk_def Let_def
    by (intro gives_bnd gives_andThen) (simp add: done_)
  have "gives (\<lambda>st. st \<noteq> RQ_NOTIFICATION_PENDING) (try_catch
      (bnd (ConsumeBodyChunk env (unat (0 :: DWORD)) hr) (\<lambda>finished. case finished of
         Some status \<Rightarrow> ret status | None \<Rightarrow> PumpBodyRead env))
      (\<lambda>e. andThen (ReportException ''OnAsyncCompletion'' e) (ret RQ_NOTIFICATION_FINISH_REQUEST)))"
    unfolding unsigned_0 by (intro gives_cases(2) gives_after[OF eof] gives_andThen gives_ret) (auto intro: gives_ret)
  then show ?thesis
    unfolding OnAsyncCompletion_def
    by (cases b) (auto intro!: gives_bnd gives_cases(1) gives_ret split: option.split)
qed

text \<open>A completion that leads to another outstanding read has brought at least one byte.\<close>

lemma pending_advances:
  assumes p: "pended env t w" and d: "length d \<le> kBodyReadChunkSize"
    and run: "OnAsyncCompletion env True (Some (word_of_nat (length d), hr)) (read_arrives d hr w)
      = (Ok RQ_NOTIFICATION_PENDING, v)"
  shows "length (received (w_evs w)) < length (received (w_evs v))"
proof -
  have "d \<noteq> []"
  proof
    assume "d = []"
    with run have "OnAsyncCompletion env True (Some (0, hr)) (read_arrives d hr w) = (Ok RQ_NOTIFICATION_PENDING, v)"
      by simp
    with empty_not_pending[of env True hr] show False by (auto simp: gives_def)
  qed
  have f: "emits tame (OnAsyncCompletion env True (Some (word_of_nat (length d), hr)))"
    using framed_OnAsyncCompletion by (simp add: framed_def)
  obtain es where es: "w_evs v = w_evs (read_arrives d hr w) @ es" "\<forall>e \<in> set es. tame e"
    by (rule emitsE[OF f run])
  from p have "received (w_evs (read_arrives d hr w)) = received (w_evs w) @ d"
    by (auto simp: read_arrives_def pended_def)
  with received_grows[OF es(2), of "w_evs (read_arrives d hr w)"] es(1) \<open>d \<noteq> []\<close> show ?thesis
    by (cases d) simp_all
qed

text \<open>\<open>k\<close> completions in a row after each of which a read is still outstanding.\<close>

inductive waits :: "nat \<Rightarrow> nat \<Rightarrow> life \<Rightarrow> life \<Rightarrow> bool" for cap where
  waits_none: "lf_phase s = Waiting \<Longrightarrow> waits cap 0 s s"
| waits_more: "waits cap k s s' \<Longrightarrow> life_step cap s' s'' \<Longrightarrow> lf_phase s'' = Waiting \<Longrightarrow>
     waits cap (Suc k) s s''"

lemma waiting_inv:
  assumes "life_inv cap s" and "lf_phase s = Waiting"
  obtains t where "pended (lf_env s) t (lf_world s)" and "body_host (lf_env s)" and "cap_of (lf_env s) = cap"
  using assms by (auto simp: life_inv_def)

lemma waits_received:
  assumes "waits cap k s s'" and "life_inv cap s"
  shows "life_inv cap s' \<and> lf_phase s' = Waiting \<and>
    length (received (w_evs (lf_world s))) + k \<le> length (received (w_evs (lf_world s')))"
  using assms
proof (induction rule: waits.induct)
  case (waits_more k s s' s'')
  then have inv: "life_inv cap s'" and wait: "lf_phase s' = Waiting"
    and len: "length (received (w_evs (lf_world s))) + k \<le> length (received (w_evs (lf_world s')))" by simp_all
  obtain t where p: "pended (lf_env s') t (lf_world s')" by (rule waiting_inv[OF inv wait])
  from waits_more.hyps(2) have "length (received (w_evs (lf_world s'))) < length (received (w_evs (lf_world s'')))"
  proof cases
    case (life_complete d hr st v)
    with waits_more.hyps(3) have "st = RQ_NOTIFICATION_PENDING" by (auto simp: phase_after_def split: if_splits)
    with life_complete pending_advances[OF p, of d hr v] show ?thesis by simp
  qed (use wait in simp_all)
  with len life_inv_step[OF inv waits_more.hyps(2)] waits_more.hyps(3) show ?case by simp
qed simp

section \<open>A process that reads\<close>

text \<open>An environment whose reads pend, and the request handler in it: the witnesses start from its end.\<close>

definition waiting_request :: http_request where
  "waiting_request = quiet_request\<lparr>Flags := 1\<rparr>"

definition waiting_env :: env where
  "waiting_env = quiet_env\<lparr>
     ReadEntityBody := (\<lambda>_ async. \<lparr> rr_data = [], rr_hr = S_OK, rr_pending = async \<rparr>),
     raw_request := Some waiting_request\<rparr>"

definition site_start :: life where
  "site_start = \<lparr> lf_env = waiting_env, lf_phase = Fresh, lf_configs = (\<lambda>_. Some site), lf_world = site_world \<rparr>"

lemma waiting_facts [simp]:
  "smooth waiting_env" "has_request waiting_env" "com waiting_env = quiet_com"
  "WideCharToMultiByte waiting_env = WideCharToMultiByte quiet_env"
  "raw_request waiting_env = Some waiting_request"
  "nothrow_null waiting_env = (\<lambda>_. False)" "bad_alloc waiting_env = (\<lambda>_. False)"
  "SetModuleContext waiting_env = (\<lambda>_. S_OK)" "tx_intervention waiting_env = (\<lambda>_. None)"
  "ReadEntityBody waiting_env = (\<lambda>_ async. \<lparr> rr_data = [], rr_hr = S_OK, rr_pending = async \<rparr>)"
  "cap_of waiting_env = 1048576"
  using cap_quiet
  by (simp_all add: waiting_env_def smooth_def GetMaxInspectBodyBytes_def)

lemma begin_host_waiting [simp]: "begin_host waiting_env"
  using begin_host_quiet cap_quiet
  by (auto simp: begin_host_def config_host_def container_host_def body_host_def valid_request_def
      waiting_env_def waiting_request_def quiet_request_def GetMaxInspectBodyBytes_def)

lemma waiting_starts: "life_init site_start"
  by (simp add: life_init_def site_start_def configs_valid_def)

lemma feed_request_calls:
  assumes "smooth env" and "valid_request req" and "w_rsc w = Some r" and "live t (w_evs w)"
    and "pRawUrl req = Some url" and "VerbToString req w = (Ok verb, w)"
  obtains cs where "feed_request env t req w = (Ok (), w\<lparr>w_rsc := Some (r\<lparr>m_Protocol :=
     VersionToString (Version req)\<rparr>), w_evs := w_evs w @ map (TxCall t) cs\<rparr>)"
  by (rule that) (rule run_feed_request[OF assms])

lemma pump_waits:
  assumes "w_rsc w = Some r" and "g_bodyAsyncState w = 0"
  shows "\<exists>v. PumpBodyRead waiting_env w = (Ok RQ_NOTIFICATION_PENDING, v)"
proof -
  let ?w = "w\<lparr>g_bodyAsyncState := 2\<rparr>"
  have async: "BodyReadsAsync waiting_env w = (Ok True, ?w)"
    using assms(2) by (simp add: BodyReadsAsync_def waiting_env_def prog_simps Let_def)
  have "0 < cap_of waiting_env" by (simp only: waiting_facts)
  then obtain k where k: "cap_of waiting_env = Suc k" by (cases "cap_of waiting_env") simp_all
  obtain v where "read_once waiting_env True ?w = (Ok None, v)"
    using assms(1) by (simp add: read_once_def prog_simps)
  then have "pump_loop waiting_env True (Suc k) ?w = (Ok (Some RQ_NOTIFICATION_PENDING), v)"
    by (simp add: prog_simps)
  with async k show ?thesis
    unfolding PumpBodyRead_def waiting_facts k by (simp add: run_bnd_bool run_bnd_Ok run_ret)
qed

lemma begin_waits: "\<exists>v. OnBeginRequest waiting_env True site_world = (Ok RQ_NOTIFICATION_PENDING, v)"
proof -
  let ?e = waiting_env
  obtain u where rules: "getRules ?e ''c'' site_world = (Ok (Some quiet_rules, ''''), u)"
    and u: "w_rsc u = None" "w_evs u = [RulesLoaded ''c'' 1]" "g_engine u = None" "g_bodyAsyncState u = 0"
    by (simp add: getRules_def getRules_fast_def getRules_commit_def cache_find_def GetRulesFileTime_def
        prog_simps Let_def site_world_def start_world_def waiting_env_def)
  let ?r = "new_request_ctx\<lparr>m_pTx := Some 1, m_pRules := Some quiet_rules, m_ResponseBodyBlock := False\<rparr>"
  obtain w where ctx: "create_context ?e S_OK site quiet_rules u = (Ok (Inr 1), w)"
    and w: "w_rsc w = Some ?r" "w_evs w = [RulesLoaded ''c'' 1, TxNew 1, CtxNew]" "g_bodyAsyncState w = 0"
    using u by (simp add: create_context_def engine_def new_context_def set_module_context_def prog_simps Let_def
        site_def new_config_def)
  have l: "live 1 (w_evs w)" by (simp add: w live_def)
  have valid: "valid_request waiting_request" using begin_host_waiting by (simp add: begin_host_def)
  have url: "pRawUrl waiting_request = Some ''/''" by (simp add: waiting_request_def quiet_request_def)
  have verb: "VerbToString waiting_request w = (Ok ''GET'', w)"
    by (simp add: VerbToString_def waiting_request_def quiet_request_def prog_simps)
  let ?p = "?r\<lparr>m_Protocol := VersionToString (Version waiting_request)\<rparr>"
  obtain cs where fed: "feed_request ?e 1 waiting_request w =
      (Ok (), w\<lparr>w_rsc := Some ?p, w_evs := w_evs w @ map (TxCall 1) cs\<rparr>)"
    by (rule feed_request_calls[OF waiting_facts(1) valid w(1) l url verb])
  let ?x = "w\<lparr>w_rsc := Some ?p, w_evs := w_evs w @ map (TxCall 1) cs\<rparr>"
  have x: "w_rsc ?x = Some ?p" "w_evs ?x = w_evs w @ map (TxCall 1) cs" "g_bodyAsyncState ?x = 0"
    using w(3) by simp_all
  have lx: "live 1 (w_evs ?x)" using l x(2) by simp
  let ?y = "?x\<lparr>w_evs := w_evs ?x @ [TxCall 1 Intervention]\<rparr>"
  have query: "ApplyIntervention ?e True ?x = (Ok False, ?y)"
    using run_ApplyIntervention[OF x(1) _ lx waiting_facts(1), of True] by simp
  let ?b = "?p\<lparr>m_HasBody := True, m_DeclaredBodyLength := 0,
      m_ReadBuf := vec_resize kBodyReadChunkSize (m_ReadBuf ?p)\<rparr>"
  have body: "BeginBodyRead ?e ?y = PumpBodyRead ?e (?y\<lparr>w_rsc := Some ?b\<rparr>)"
    by (simp add: BeginBodyRead_def GetEntityBodyInfo_def waiting_request_def
        HTTP_REQUEST_FLAG_MORE_ENTITY_BODY_EXISTS_def prog_simps Let_def)
  obtain v where read: "BeginBodyRead ?e ?y = (Ok RQ_NOTIFICATION_PENDING, v)"
    using pump_waits[of "?y\<lparr>w_rsc := Some ?b\<rparr>" ?b] body x(3) by auto
  have path: "WToUtf8 ?e (Some [99, 0]) (int (wcslen [99, 0]) * 2) site_world = (Ok ''c'', site_world)"
    by (rule site_file) simp
  have "begin_configured ?e S_OK site site_world = (Ok (Inl RQ_NOTIFICATION_PENDING), v)"
    using begin_configured_rules[OF waiting_facts(1) _ _ _ _ path rules, of site S_OK] ctx fed query read
    by (simp add: inspect_request_def prog_simps)
  with begin_body_configured[OF waiting_facts(2) site_config[OF waiting_facts(3)]] have
    "OnBeginRequest ?e True site_world = (Ok RQ_NOTIFICATION_PENDING, v)"
    by (simp add: OnBeginRequest_def prog_simps site_config)
  then show ?thesis by blast
qed

lemma site_reached: "reach life_init (life_step cap) site_start"
  by (rule reach_init) (rule waiting_starts)

lemma site_waiting:
  obtains s where "life_step 1048576 site_start s" and "lf_phase s = Waiting" and "lf_env s = waiting_env"
    and "reach life_init (life_step 1048576) s"
proof -
  from begin_waits obtain v where v: "OnBeginRequest waiting_env True site_world = (Ok RQ_NOTIFICATION_PENDING, v)"
    by (rule exE)
  have w: "(lf_world site_start)\<lparr>w_config := lf_configs site_start 0\<rparr> = site_world"
    by (simp add: site_start_def site_world_def)
  have fresh: "lf_phase site_start = Fresh" by (simp add: site_start_def)
  have run: "OnBeginRequest waiting_env True ((lf_world site_start)\<lparr>w_config := lf_configs site_start 0\<rparr>)
      = (Ok RQ_NOTIFICATION_PENDING, v)"
    unfolding w by (rule v)
  note step = life_begin[OF fresh begin_host_waiting waiting_facts(11) run]
  from that[OF step _ _ reach_step[OF site_reached step]] show thesis by (simp add: phase_after_def)
qed

section \<open>Properties\<close>

lemma next_handlers:
  assumes inv: "life_inv cap s"
  shows "(lf_phase s = Fresh \<longrightarrow> (\<forall>e b p. begin_host e \<and> cap_of e = cap \<longrightarrow>
            (\<exists>st v. OnBeginRequest e b ((lf_world s)\<lparr>w_config := lf_configs s p\<rparr>) = (Ok st, v)))) \<and>
    (lf_phase s = Waiting \<longrightarrow> (\<forall>d hr. length d \<le> kBodyReadChunkSize \<longrightarrow>
       (\<exists>st v. OnAsyncCompletion (lf_env s) True (Some (word_of_nat (length d), hr))
          (read_arrives d hr (lf_world s)) = (Ok st, v)))) \<and>
    (lf_phase s \<noteq> Waiting \<longrightarrow>
       (\<forall>b info. OnAsyncCompletion (lf_env s) b info (lf_world s) = (Ok RQ_NOTIFICATION_CONTINUE, lf_world s)) \<and>
       (\<forall>n. (\<forall>raw. sn_raw n = Some raw \<longrightarrow> valid_response raw) \<longrightarrow>
          (\<exists>st v. OnSendResponse (lf_env s) n (lf_world s) = (Ok st, v) \<and> st \<noteq> RQ_NOTIFICATION_PENDING))) \<and>
    (lf_phase s = Running \<and> w_rsc (lf_world s) \<noteq> None \<longrightarrow>
       (\<exists>v. CleanupStoredContext (lf_env s) (lf_world s) = (Ok (), v)))"
proof -
  have "\<exists>st v. OnBeginRequest e b ((lf_world s)\<lparr>w_config := lf_configs s p\<rparr>) = (Ok st, v)"
    if "lf_phase s = Fresh" "begin_host e" "cap_of e = cap" for e b p
  proof -
    from not_waiting[OF inv] that(1) have w: "rested cap (lf_world s)" "configs_valid s" by simp_all
    note host = that(2) and cap = that(3)
    obtain st v where "OnBeginRequest e b ((lf_world s)\<lparr>w_config := lf_configs s p\<rparr>) = (Ok st, v)"
      by (rule begin_runs[OF host, where b = b and w = "(lf_world s)\<lparr>w_config := lf_configs s p\<rparr>"])
         (use begin_world[OF w, of p] cap in simp_all)
    then show ?thesis by blast
  qed
  moreover have "\<exists>st v. OnAsyncCompletion (lf_env s) True (Some (word_of_nat (length d), hr))
      (read_arrives d hr (lf_world s)) = (Ok st, v)"
    if "lf_phase s = Waiting" "length d \<le> kBodyReadChunkSize" for d hr
  proof -
    note waiting = that(1) and size = that(2)
    obtain t where p: "pended (lf_env s) t (lf_world s)" and host: "body_host (lf_env s)"
      by (rule waiting_inv[OF inv waiting])
    show ?thesis by (rule completion_runs[OF host p size]) blast
  qed
  moreover have "OnAsyncCompletion (lf_env s) b info (lf_world s) = (Ok RQ_NOTIFICATION_CONTINUE, lf_world s)"
    if "lf_phase s \<noteq> Waiting" for b info
    using not_waiting[OF inv that] foreign_runs by blast
  moreover have "\<exists>st v. OnSendResponse (lf_env s) n (lf_world s) = (Ok st, v) \<and> st \<noteq> RQ_NOTIFICATION_PENDING"
    if "lf_phase s \<noteq> Waiting" "\<forall>raw. sn_raw n = Some raw \<longrightarrow> valid_response raw" for n
  proof -
    from not_waiting[OF inv that(1)] have w: "rested cap (lf_world s)" by simp
    show ?thesis by (rule send_runs[OF w, of n "lf_env s"]) (use that(2) in blast)+
  qed
  moreover have "\<exists>v. CleanupStoredContext (lf_env s) (lf_world s) = (Ok (), v)"
    if "lf_phase s = Running" "w_rsc (lf_world s) \<noteq> None"
  proof -
    from not_waiting[OF inv] that(1) have w: "rested cap (lf_world s)" by simp
    show ?thesis by (rule cleanup_runs[OF w that(2)]) blast
  qed
  ultimately show ?thesis by blast
qed

text \<open>Progress. Whatever requests a worker process has served, every handler that IIS may call
  next returns: the request handler, the completion of an outstanding read with any bytes, a
  response notification (never with PENDING) and the clean-up. Nothing is thrown across the
  module boundary, nothing undefined happens, and a completion that is not ours is ignored.\<close>

theorem handlers_make_progress:
  assumes "reach life_init (life_step cap) s"
  shows "(lf_phase s = Fresh \<longrightarrow> (\<forall>e b p. begin_host e \<and> cap_of e = cap \<longrightarrow>
            (\<exists>st v. OnBeginRequest e b ((lf_world s)\<lparr>w_config := lf_configs s p\<rparr>) = (Ok st, v)))) \<and>
    (lf_phase s = Waiting \<longrightarrow> (\<forall>d hr. length d \<le> kBodyReadChunkSize \<longrightarrow>
       (\<exists>st v. OnAsyncCompletion (lf_env s) True (Some (word_of_nat (length d), hr))
          (read_arrives d hr (lf_world s)) = (Ok st, v)))) \<and>
    (lf_phase s \<noteq> Waiting \<longrightarrow>
       (\<forall>b info. OnAsyncCompletion (lf_env s) b info (lf_world s) = (Ok RQ_NOTIFICATION_CONTINUE, lf_world s)) \<and>
       (\<forall>n. (\<forall>raw. sn_raw n = Some raw \<longrightarrow> valid_response raw) \<longrightarrow>
          (\<exists>st v. OnSendResponse (lf_env s) n (lf_world s) = (Ok st, v) \<and> st \<noteq> RQ_NOTIFICATION_PENDING))) \<and>
    (lf_phase s = Running \<and> w_rsc (lf_world s) \<noteq> None \<longrightarrow>
       (\<exists>v. CleanupStoredContext (lf_env s) (lf_world s) = (Ok (), v)))"
  by (rule next_handlers[OF request_life.invariant[OF assms]])

theorem handlers_make_progress_witness:
  "\<exists>s :: life. lf_phase s = Waiting \<and> (\<exists>st v. OnAsyncCompletion (lf_env s) True (Some (3, S_OK))
      (read_arrives ''abc'' S_OK (lf_world s)) = (Ok st, v))"
proof -
  obtain s where s: "lf_phase s = Waiting" "reach life_init (life_step 1048576) s" by (rule site_waiting)
  from handlers_make_progress[OF s(2)] s(1) have "\<forall>d hr. length d \<le> kBodyReadChunkSize \<longrightarrow>
      (\<exists>st v. OnAsyncCompletion (lf_env s) True (Some (word_of_nat (length d), hr))
          (read_arrives d hr (lf_world s)) = (Ok st, v))" by blast
  from spec[OF spec[OF this, of "''abc''"], of S_OK] s(1) show ?thesis
    by (intro exI[of _ s]) (simp add: kBodyReadChunkSize_def)
qed

text \<open>Refinement. Seen through the abstraction to the phase, the open transaction and the ended
  ones, everything the process does is a step of the specification: a request opens at most
  one transaction, which waits for the body or is handed on, is ended at most once and is
  never opened again, and no transaction outlives the clean-up of its request.\<close>

theorem requests_refine_spec:
  assumes "reach life_init (life_step cap) s" and "life_step cap s s'"
  shows "reach spec_init spec_step (abs_life s) \<and> spec_step (abs_life s) (abs_life s') \<and>
    sp_ended (abs_life s) \<subseteq> sp_ended (abs_life s') \<and> spec_inv (abs_life s')"
proof -
  have inv: "life_inv cap s" by (rule request_life.invariant[OF assms(1)])
  have step: "spec_step (abs_life s) (abs_life s')" by (rule abs_step[OF inv assms(2)])
  moreover have "reach spec_init spec_step (abs_life s)" by (rule request_life.simulated[OF assms(1)])
  moreover have "spec_inv (abs_life s')"
    by (rule request_life.inherits[OF transaction_spec.invariant reach_step[OF assms]])
  ultimately show ?thesis using spec_ended_grows by blast
qed

theorem requests_refine_spec_witness:
  "\<exists>s. life_step 1048576 site_start s \<and> sp_phase (abs_life s) = Waiting \<and> spec_step (abs_life site_start) (abs_life s)"
proof -
  obtain s where s: "life_step 1048576 site_start s" "lf_phase s = Waiting" by (rule site_waiting)
  from requests_refine_spec[OF site_reached s(1)] s show ?thesis
    by (intro exI[of _ s]) (simp add: abs_life_def)
qed

text \<open>C5: In every reachable state of the process exactly one read is outstanding while a request
  waits and none otherwise, the trace is faithful (every body re-inserted is all that was
  received, every body fed is its prefix up to the cap), each body phase has run at most once
  per transaction, and every transaction but the open one has been logged last and once, and
  deleted or given up; between requests there is no open one.\<close>

theorem process_invariant:
  assumes "reach life_init (life_step cap) s"
  shows "outstanding (w_evs (lf_world s)) = (if lf_phase s = Waiting then 1 else 0) \<and>
    faithful cap (w_evs (lf_world s)) \<and> (\<forall>t. phases_once t (w_evs (lf_world s))) \<and>
    (\<forall>t \<in> created (w_evs (lf_world s)). open_tx (lf_world s) = Some t \<or> tx_closed t (w_evs (lf_world s))) \<and>
    (lf_phase s = Fresh \<longrightarrow> open_tx (lf_world s) = None)"
proof -
  have inv: "life_inv cap s" by (rule request_life.invariant[OF assms])
  note ctx = life_inv_ctx[OF inv]
  have "outstanding (w_evs (lf_world s)) = (if lf_phase s = Waiting then 1 else 0) \<and>
      faithful cap (w_evs (lf_world s))"
    using inv by (cases "lf_phase s") (auto simp: life_inv_def rested_def idle_def quiet_reads_def pended_def)
  moreover have "\<forall>t. phases_once t (w_evs (lf_world s))" using ctx by (simp add: ctx_inv_def)
  moreover have "lf_phase s = Fresh \<longrightarrow> open_tx (lf_world s) = None"
    using inv by (auto simp: life_inv_def open_tx_def)
  ultimately show ?thesis using not_open_closed[OF ctx] by blast
qed

theorem process_invariant_witness:
  "\<exists>s :: life. lf_phase s = Waiting \<and> outstanding (w_evs (lf_world s)) = 1"
proof -
  obtain s where s: "life_step 1048576 site_start s" "lf_phase s = Waiting" by (rule site_waiting)
  from process_invariant[OF reach_step[OF site_reached s(1)]] s(2) show ?thesis by auto
qed

text \<open>C9: The waiting of a request is bounded: from any reachable state fewer completions than the cap
  has bytes can in a row lead to yet another read, because each has brought at least one byte;
  a completion without bytes never does.\<close>

theorem reads_bounded:
  assumes "reach life_init (life_step cap) s" and "waits cap k s s'"
  shows "length (received (w_evs (lf_world s))) + k < cap"
proof -
  have inv: "life_inv cap s" by (rule request_life.invariant[OF assms(1)])
  from waits_received[OF assms(2) inv] have s': "life_inv cap s'" "lf_phase s' = Waiting"
    and len: "length (received (w_evs (lf_world s))) + k \<le> length (received (w_evs (lf_world s')))" by simp_all
  obtain t where "pended (lf_env s') t (lf_world s')" "cap_of (lf_env s') = cap" by (rule waiting_inv[OF s'])
  then have "length (received (w_evs (lf_world s'))) < cap" by (auto simp: pended_def)
  with len show ?thesis by simp
qed

theorem reads_bounded_witness:
  "\<exists>s. waits 1048576 0 s s \<and> length (received (w_evs (lf_world s))) < 1048576"
proof -
  obtain s where s: "lf_phase s = Waiting" "reach life_init (life_step 1048576) s" by (rule site_waiting)
  have "waits 1048576 0 s s" using s(1) by (rule waits_none)
  with reads_bounded[OF s(2) this] show ?thesis by (intro exI[of _ s]) simp
qed

lemma reach_one: "step s u \<Longrightarrow> reach (\<lambda>x. x = s) step u"
  by (rule reach_step[of "\<lambda>x. x = s" step s u]) (simp_all add: reach.reach_init)

lemma reach_two: "step s u \<Longrightarrow> step u v \<Longrightarrow> reach (\<lambda>x. x = s) step v"
  by (rule reach_step[of "\<lambda>x. x = s" step u v]) (simp_all add: reach_one)



end
