(* ===== verification/Globals.thy ===== *)
theory Globals
  imports Handler_Frames
begin

text \<open>
  What the handlers do to the state all requests of a worker process share: the rules cache,
  the engine, the body-read mode, the once-per-process notices and the file positions. A
  preorder on worlds says that the shared state has only grown, and every handler moves along
  it. The frame rules hold for any preorder and are proved once, in a locale.
\<close>

section \<open>Programs that move along a preorder\<close>

definition moves :: "('s \<Rightarrow> 's \<Rightarrow> bool) \<Rightarrow> ('s, 'a) prog \<Rightarrow> bool" where
  "moves R m \<longleftrightarrow> (\<forall>w. R w (snd (m w)))"

named_theorems grows_intros "rules that take a growth statement apart along the program"

lemma movesD: "moves R m \<Longrightarrow> m w = (r, v) \<Longrightarrow> R w v"
  unfolding moves_def by (metis snd_conv)

lemma movesI: "(\<And>w r v. m w = (r, v) \<Longrightarrow> R w v) \<Longrightarrow> moves R m"
  unfolding moves_def by (metis prod.collapse)

locale frame =
  fixes R :: "'s \<Rightarrow> 's \<Rightarrow> bool"
  assumes same: "R w w" and chain: "R u v \<Longrightarrow> R v w \<Longrightarrow> R u w"
begin

lemma pure: "moves R (ret x)" "moves R undef" "moves R (raise e)" "moves R (gets g)"
  by (simp_all add: moves_def prog_defs same)

lemma modify: "(\<And>w. R w (f w)) \<Longrightarrow> moves R (modify f)"
  by (simp add: moves_def prog_defs)

lemma bnd:
  assumes m: "moves R m" and f: "\<And>x. moves R (f x)"
  shows "moves R (bnd m f)"
proof (rule movesI)
  fix w r v
  assume run: "bnd m f w = (r, v)"
  obtain q u where q: "m w = (q, u)" by fastforce
  note u = movesD[OF m q]
  show "R w v"
  proof (cases q)
    case (Ok x)
    with run q have "f x u = (r, v)" by (simp add: run_bnd_Ok)
    from chain[OF u movesD[OF f this]] show ?thesis .
  qed (use run q u in \<open>simp_all add: bnd_def\<close>)
qed

lemma andThen: "moves R m \<Longrightarrow> moves R n \<Longrightarrow> moves R (andThen m n)"
  unfolding andThen_def by (rule bnd)

lemma try_catch:
  assumes m: "moves R m" and h: "\<And>e. moves R (h e)"
  shows "moves R (try_catch m h)"
proof (rule movesI)
  fix w r v
  assume run: "try_catch m h w = (r, v)"
  obtain q u where q: "m w = (q, u)" by fastforce
  note u = movesD[OF m q]
  show "R w v"
  proof (cases q)
    case (Throw e)
    with run q have "h e u = (r, v)" by (simp add: run_try_Throw)
    from chain[OF u movesD[OF h this]] show ?thesis .
  qed (use run q u in \<open>simp_all add: try_catch_def\<close>)
qed

lemma whenever: "(c \<Longrightarrow> moves R m) \<Longrightarrow> moves R (whenever c m)"
  by (simp add: whenever_def pure)

lemma for_each: "(\<And>x. moves R (f x)) \<Longrightarrow> moves R (for_each f xs)"
  by (induction xs) (auto intro: pure andThen)

end

lemma moves_cases:
  "(c \<Longrightarrow> moves R m) \<Longrightarrow> (\<not> c \<Longrightarrow> moves R n) \<Longrightarrow> moves R (if c then m else n)"
  "(x = None \<Longrightarrow> moves R m) \<Longrightarrow> (\<And>y. x = Some y \<Longrightarrow> moves R (k y)) \<Longrightarrow>
   moves R (case x of None \<Rightarrow> m | Some y \<Rightarrow> k y)"
  "(\<And>a. z = Inl a \<Longrightarrow> moves R (f a)) \<Longrightarrow> (\<And>b. z = Inr b \<Longrightarrow> moves R (g b)) \<Longrightarrow>
   moves R (case z of Inl a \<Rightarrow> f a | Inr b \<Rightarrow> g b)"
  "(\<And>a b. p = (a, b) \<Longrightarrow> moves R (h a b)) \<Longrightarrow> moves R (case p of (a, b) \<Rightarrow> h a b)"
  "moves R (l t) \<Longrightarrow> moves R (let y = t in l y)"
  by (auto split: option.split sum.split prod.split)

section \<open>The notices of the process\<close>

text \<open>
  Three conditions are reported once per process, each behind a static flag that is taken with
  InterlockedExchange: the cap was reached, the configuration or the rules could not be read.
\<close>

datatype notice = CapNotice | ConfigNotice | RulesNotice

definition config_notice :: string where
  "config_notice = ''ModSecurityIIS: failed to read module configuration; '' @
     ''failing closed (request rejected).''"

definition rules_notice :: string where
  "rules_notice = ''ModSecurityIIS: failed to load rules from ''"

fun announces :: "notice \<Rightarrow> event \<Rightarrow> bool" where
  "announces CapNotice e = (e = EventLogged cap_message EVENTLOG_WARNING_TYPE)"
| "announces ConfigNotice e = (e = EventLogged config_notice EVENTLOG_ERROR_TYPE)"
| "announces RulesNotice e =
     (case e of EventLogged s c \<Rightarrow> take (length rules_notice) s = rules_notice | _ \<Rightarrow> False)"

definition told :: "notice \<Rightarrow> event list \<Rightarrow> nat" where
  "told k evs = length (filter (announces k) evs)"

fun flagged :: "notice \<Rightarrow> world \<Rightarrow> bool" where
  "flagged CapNotice w = s_capLogged w"
| "flagged ConfigNotice w = s_configFailLogged w"
| "flagged RulesNotice w = s_rulesFailLogged w"

lemma told_append [simp]: "told k (xs @ ys) = told k xs + told k ys"
  by (simp add: told_def)

lemma told_simps [simp]: "told k [] = 0" "told k [e] = of_bool (announces k e)"
  by (simp_all add: told_def)

section \<open>Growth of the shared state\<close>

definition grown :: "world \<Rightarrow> world \<Rightarrow> bool" where
  "grown w v \<longleftrightarrow> g_rulesCache w \<subseteq>\<^sub>m g_rulesCache v \<and>
     (g_engine w \<noteq> None \<longrightarrow> g_engine v = g_engine w) \<and>
     (g_bodyAsyncState w \<noteq> 0 \<longrightarrow> g_bodyAsyncState v = g_bodyAsyncState w) \<and>
     g_hEventLog v = g_hEventLog w \<and>
     (\<forall>k. (flagged k w \<longrightarrow> flagged k v) \<and>
       told k (w_evs v) + of_bool (flagged k w) \<le> told k (w_evs w) + of_bool (flagged k v))"

lemma grown_refl: "grown w w"
  by (simp add: grown_def)

lemma grown_trans: "grown u v \<Longrightarrow> grown v w \<Longrightarrow> grown u w"
proof -
  assume a: "grown u v" and b: "grown v w"
  have "g_rulesCache u \<subseteq>\<^sub>m g_rulesCache w"
    using a b map_le_trans[of "g_rulesCache u" "g_rulesCache v" "g_rulesCache w"] by (simp add: grown_def)
  moreover have "g_engine u \<noteq> None \<longrightarrow> g_engine w = g_engine u"
    using a b by (simp add: grown_def)
  moreover have "g_bodyAsyncState u \<noteq> 0 \<longrightarrow> g_bodyAsyncState w = g_bodyAsyncState u"
    using a b by (simp add: grown_def)
  moreover have "g_hEventLog w = g_hEventLog u" using a b by (simp add: grown_def)
  moreover have "(flagged k u \<longrightarrow> flagged k w) \<and>
      told k (w_evs w) + of_bool (flagged k u) \<le> told k (w_evs u) + of_bool (flagged k w)" for k
  proof -
    from a have "flagged k u \<longrightarrow> flagged k v"
      "told k (w_evs v) + of_bool (flagged k u) \<le> told k (w_evs u) + of_bool (flagged k v)"
      unfolding grown_def by blast+
    moreover from b have "flagged k v \<longrightarrow> flagged k w"
      "told k (w_evs w) + of_bool (flagged k v) \<le> told k (w_evs v) + of_bool (flagged k w)"
      unfolding grown_def by blast+
    ultimately show ?thesis by simp
  qed
  ultimately show "grown u w" by (simp add: grown_def)
qed

interpretation globals: frame grown
  by unfold_locales (rule grown_refl, erule (1) grown_trans)

lemmas [grows_intros] = globals.pure globals.bnd globals.andThen globals.try_catch globals.whenever
  globals.for_each moves_cases

abbreviation grows :: "'a wprog \<Rightarrow> bool" where
  "grows m \<equiv> moves grown m"

text \<open>What changes neither the globals nor the trace, and what adds an event that is no notice.\<close>

definition same_shared :: "world \<Rightarrow> world \<Rightarrow> bool" where
  "same_shared w v \<longleftrightarrow> g_rulesCache v = g_rulesCache w \<and> g_engine v = g_engine w \<and>
     g_bodyAsyncState v = g_bodyAsyncState w \<and> g_hEventLog v = g_hEventLog w \<and>
     s_capLogged v = s_capLogged w \<and> s_configFailLogged v = s_configFailLogged w \<and>
     s_rulesFailLogged v = s_rulesFailLogged w"

lemma flagged_same: "same_shared w v \<Longrightarrow> flagged k v = flagged k w"
  by (cases k) (simp_all add: same_shared_def)

lemma grown_same:
  assumes "same_shared w v" and "\<And>k. told k (w_evs v) = told k (w_evs w)"
  shows "grown w v"
  using assms flagged_same[OF assms(1)] by (simp add: grown_def same_shared_def)

definition quiet :: "event \<Rightarrow> bool" where
  "quiet e \<longleftrightarrow> (\<forall>k. \<not> announces k e)"

lemma quiet_events [simp]: "quiet e" if "\<And>s c. e \<noteq> EventLogged s c"
proof -
  have "\<not> announces k e" for k using that by (cases k) (auto split: event.split)
  then show ?thesis by (simp add: quiet_def)
qed

lemma grown_emit: "same_shared w v \<Longrightarrow> w_evs v = w_evs w @ [e] \<Longrightarrow> quiet e \<Longrightarrow> grown w v"
  by (rule grown_same) (simp_all add: quiet_def)

lemma grows_emit [grows_intros]: "quiet e \<Longrightarrow> grows (emit e)"
  by (rule movesI) (auto simp: run_emit same_shared_def intro: grown_emit)

lemma grows_still:
  assumes "\<And>w r v. m w = (r, v) \<Longrightarrow> same_shared w v \<and> w_evs v = w_evs w"
  shows "grows m"
  by (rule movesI, rule grown_same) (use assms in auto)

lemma grows_modify: "(\<And>w. same_shared w (f w) \<and> w_evs (f w) = w_evs w) \<Longrightarrow> grows (modify f)"
  by (rule grows_still) (auto simp: prog_defs)

lemma grows_basic [grows_intros]:
  "grows (heap_alloc env)" "grows the_rsc" "grows (set_rsc f)" "grows the_tx"
  by (rule grows_still; auto simp: heap_alloc_def the_rsc_def set_rsc_def the_tx_def prog_defs same_shared_def
        split: if_splits option.splits)+

lemma moves_at: "(\<And>w. \<exists>n. moves R n \<and> m w = n w) \<Longrightarrow> moves R m"
  unfolding moves_def by metis

lemma grows_tx_call [grows_intros]: "grows (tx_call env t c)"
proof (rule moves_at)
  fix w :: world
  let ?m = "andThen (emit (TxCall t c)) (case tx_throws env (calls_of t (w_evs w)) c of
      None \<Rightarrow> ret () | Some e \<Rightarrow> andThen (emit (TxThrew t c)) (raise e))"
  have m: "grows ?m" by (intro grows_intros) simp_all
  have u: "grows (undef :: unit wprog)" by (intro grows_intros)
  show "\<exists>n. grows n \<and> tx_call env t c w = n w"
    using m u by (cases "live t (w_evs w)") (auto simp: tx_call_def)
qed

lemma grows_tx_delete [grows_intros]: "grows (tx_delete t)"
proof (rule moves_at)
  fix w :: world
  have m: "grows (emit (TxDelete t))" by (intro grows_intros) simp
  have u: "grows (undef :: unit wprog)" by (intro grows_intros)
  show "\<exists>n. grows n \<and> tx_delete t w = n w"
    using m u by (cases "live t (w_evs w)") (auto simp: tx_delete_def)
qed

text \<open>The text of an exception, and the fixed messages, are no notices.\<close>

lemma quiet_head:
  assumes "take n s \<noteq> take n rules_notice" and "n \<le> length rules_notice" and "s \<noteq> config_notice"
  shows "quiet (EventLogged s EVENTLOG_ERROR_TYPE)"
proof -
  have "take (length rules_notice) s \<noteq> rules_notice"
  proof
    assume "take (length rules_notice) s = rules_notice"
    then have "take n (take (length rules_notice) s) = take n rules_notice" by simp
    with assms(1,2) show False by (simp add: min_absorb1)
  qed
  with assms(3) have "\<not> announces k (EventLogged s EVENTLOG_ERROR_TYPE)" for k by (cases k) auto
  then show ?thesis by (simp add: quiet_def)
qed

lemma grows_log:
  assumes "m \<noteq> None \<Longrightarrow> quiet (EventLogged (the m) c)"
  shows "grows (WriteEventViewerLog m c)"
  unfolding WriteEventViewerLog_def using assms by (intro grows_intros) auto

lemma grows_report [grows_intros]: "grows (ReportException s e)"
proof -
  have "quiet (EventLogged (take 511 (''ModSecurityIIS: unexpected'' @ x)) EVENTLOG_ERROR_TYPE)" for x
    by (rule quiet_head[of 17]) (simp_all add: rules_notice_def config_notice_def)
  from this[of "'' exception in '' @ s @ '': '' @ x" for x] show ?thesis
    unfolding ReportException_def Let_def by (intro grows_log) simp
qed

lemma grows_finish_ctx [grows_intros]: "grows (finish_ctx env r)"
proof -
  have "grows (WriteEventViewerLog (Some ''ModSecurityIIS: exception while finalizing transaction'')
      EVENTLOG_ERROR_TYPE)"
    by (rule grows_log, rule quiet_head[of 17]) (simp_all add: rules_notice_def config_notice_def)
  then show ?thesis unfolding finish_ctx_def by (intro grows_intros)
qed

section \<open>Operations\<close>

lemma grows_FinishRequest [grows_intros]: "grows (FinishRequest env)"
  unfolding FinishRequest_def by (intro grows_intros)

lemma grows_cleanup_ctx [grows_intros]: "grows (cleanup_ctx env r)"
  unfolding cleanup_ctx_def by (intro grows_intros) simp

lemma grows_CleanupStoredContext: "grows (CleanupStoredContext env)"
  unfolding CleanupStoredContext_def by (intro grows_intros grows_modify) (simp add: same_shared_def)

lemma grows_resp_call [grows_intros]: "quiet e \<Longrightarrow> grows (resp_call env e)"
  unfolding resp_call_def by (intro grows_intros)

lemma grows_block_request [grows_intros]: "grows (block_request env t it)"
  unfolding block_request_def respond_def Let_def by (intro grows_intros) simp_all

lemma grows_ApplyIntervention [grows_intros]: "grows (ApplyIntervention env canBlock)"
  unfolding ApplyIntervention_def by (intro grows_intros)

lemma grows_reinsert [grows_intros]: "grows (reinsert env body)"
proof -
  have "grows (WriteEventViewerLog (Some (''ModSecurityIIS: InsertEntityBody failed while '' @ x)) EVENTLOG_ERROR_TYPE)"
    "grows (WriteEventViewerLog (Some (''ModSecurityIIS: AllocateRequestMemory failed while '' @ x)) EVENTLOG_ERROR_TYPE)" for x
    by (rule grows_log, rule quiet_head[of 17]; simp add: rules_notice_def config_notice_def)+
  then show ?thesis unfolding reinsert_def Let_def by (intro grows_intros) simp_all
qed

lemma grows_FinishBodyRead [grows_intros]: "grows (FinishBodyRead env)"
  unfolding FinishBodyRead_def deliver_body_def restore_body_def feed_body_def body_verdict_def Let_def
  by (intro grows_intros) simp_all

text \<open>A notice behind its flag.\<close>

lemma grown_notice:
  assumes "announces k e" and "\<And>j. j \<noteq> k \<Longrightarrow> \<not> announces j e" and "flagged k v" and "\<not> flagged k w"
    and "\<And>j. j \<noteq> k \<Longrightarrow> flagged j v = flagged j w"
    and "g_rulesCache v = g_rulesCache w" "g_engine v = g_engine w" "g_bodyAsyncState v = g_bodyAsyncState w"
      "g_hEventLog v = g_hEventLog w" and "w_evs v = w_evs w \<or> w_evs v = w_evs w @ [e]"
  shows "grown w v"
proof -
  have "(flagged j w \<longrightarrow> flagged j v) \<and>
      told j (w_evs v) + of_bool (flagged j w) \<le> told j (w_evs w) + of_bool (flagged j v)" for j
    using assms(1-5,10) by (cases "j = k") auto
  with assms(6-9) show ?thesis by (simp add: grown_def)
qed

lemma grows_flagged:
  assumes m: "\<And>w r v. m (f w) w = (r, v) \<Longrightarrow> grown w v" and k: "grows k"
  shows "grows (bnd (gets f) (\<lambda>seen. andThen (m seen) k))"
proof (rule movesI)
  fix w r v
  assume "bnd (gets f) (\<lambda>seen. andThen (m seen) k) w = (r, v)"
  then have run: "andThen (m (f w)) k w = (r, v)" by (simp add: prog_defs)
  obtain q u where q: "m (f w) w = (q, u)" by fastforce
  note u = m[OF q]
  show "grown w v"
  proof (cases q)
    case (Ok x)
    with run q have "k u = (r, v)" by (simp add: run_andThen_Ok)
    from grown_trans[OF u movesD[OF k this]] show ?thesis .
  qed (use run q u in \<open>simp_all add: prog_defs\<close>)
qed

lemma andThen_assoc: "andThen m (andThen n k) = andThen (andThen m n) k"
  by (simp add: andThen_def bnd_assoc)

lemma announces_cap: "announces j (EventLogged cap_message EVENTLOG_WARNING_TYPE) \<longleftrightarrow> j = CapNotice"
  by (cases j) (simp_all add: cap_message_def rules_notice_def)

lemma announces_config: "announces j (EventLogged config_notice EVENTLOG_ERROR_TYPE) \<longleftrightarrow> j = ConfigNotice"
  by (cases j) (simp_all add: config_notice_def rules_notice_def)

lemma announces_rules: "announces j (EventLogged (rules_notice @ x) EVENTLOG_ERROR_TYPE) \<longleftrightarrow> j = RulesNotice"
  by (cases j) (simp_all add: config_notice_def rules_notice_def)

lemma grows_ConsumeBodyChunk [grows_intros]: "grows (ConsumeBodyChunk env n hr)"
proof -
  have done_: "grows (body_done env)" unfolding body_done_def by (intro grows_intros)
  have "grown w v" if "whenever (\<not> s_capLogged w) (andThen (modify (\<lambda>w. w\<lparr>s_capLogged := True\<rparr>))
      (WriteEventViewerLog (Some cap_message) EVENTLOG_WARNING_TYPE)) w = (r, v)" for w r v
  proof (cases "s_capLogged w")
    case True
    with that show ?thesis by (simp add: whenever_def ret_def grown_refl)
  next
    case False
    have same: "flagged j (w\<lparr>s_capLogged := True, w_evs := es\<rparr>) = flagged j w" if "j \<noteq> CapNotice" for j es
      using that by (cases j) simp_all
    from False that have "v = w\<lparr>s_capLogged := True,
        w_evs := w_evs w @ (if g_hEventLog w then [EventLogged cap_message EVENTLOG_WARNING_TYPE] else [])\<rparr>"
      by (simp add: WriteEventViewerLog_def prog_simps andThen_def bnd_def whenever_def split: if_splits)
    with False same show ?thesis
      by (intro grown_notice[where k = CapNotice and e = "EventLogged cap_message EVENTLOG_WARNING_TYPE"])
         (simp_all add: announces_cap del: announces.simps)
  qed
  note cap = grows_flagged[OF this done_]
  show ?thesis
    unfolding ConsumeBodyChunk_def Let_def by (intro grows_intros cap done_)
qed

lemma grows_read_once [grows_intros]: "grows (read_once env async)"
  unfolding read_once_def by (intro grows_intros) simp_all

lemma grows_pump_loop [grows_intros]: "grows (pump_loop env async fuel)"
  by (induction fuel) (auto intro!: grows_intros)

lemma grows_BodyReadsAsync [grows_intros]: "grows (BodyReadsAsync env)"
proof (rule movesI)
  fix w r v
  assume "BodyReadsAsync env w = (r, v)"
  then obtain x where "v = w \<or> g_bodyAsyncState w = 0 \<and> v = w\<lparr>g_bodyAsyncState := x\<rparr>"
    by (auto simp: BodyReadsAsync_def prog_simps Let_def bnd_def gets_def split: if_splits prod.splits)
  moreover have "flagged k (w\<lparr>g_bodyAsyncState := x\<rparr>) = flagged k w" for k by (cases k) simp_all
  ultimately show "grown w v" by (auto simp: grown_def)
qed

lemma grows_PumpBodyRead [grows_intros]: "grows (PumpBodyRead env)"
  unfolding PumpBodyRead_def by (intro grows_intros)

lemma grows_GetEntityBodyInfo [grows_intros]: "grows (GetEntityBodyInfo req)"
  unfolding GetEntityBodyInfo_def Let_def by (intro grows_intros)

lemma grows_BeginBodyRead [grows_intros]: "grows (BeginBodyRead env)"
  unfolding BeginBodyRead_def by (intro grows_intros)

lemma grows_OnAsyncCompletion: "grows (OnAsyncCompletion env has_context info)"
  unfolding OnAsyncCompletion_def claim_read_def by (cases has_context; cases info) (auto intro!: grows_intros)

text \<open>The response handler.\<close>

lemma grows_convert [grows_intros]:
  "grows (AToUtf8 a n)" "grows (WToUtf8 env w k)" "grows (VerbToString req)"
  unfolding AToUtf8_def WToUtf8_def VerbToString_def Let_def
  by (intro grows_intros | cases "Verb req"; auto intro!: grows_intros)+

lemma grows_headers [grows_intros]:
  "grows (known_header_step env t add hs e)" "grows (unknown_header_step env t add h)"
  unfolding known_header_step_def unknown_header_step_def by (intro grows_intros; simp)+

lemma grows_read_file [grows_intros]: "grows (read_file env h n)"
  unfolding read_file_def Let_def by (intro grows_intros grows_modify) (simp add: same_shared_def)

lemma grows_stream_file [grows_intros]: "grows (stream_file env t h len a)"
proof (rule movesI)
  fix w r v
  assume "stream_file env t h len a w = (r, v)"
  then show "grown w v"
  proof (induction env t h len a w arbitrary: r v rule: stream_file.induct)
    case (1 env t h len a w)
    obtain q u where read: "read_file env h (unat (wanted len)) w = (q, u)" by fastforce
    note u = movesD[OF grows_read_file read]
    show ?case
    proof (cases "\<exists>got. len \<noteq> 0 \<and> q = Ok (Some got) \<and> got \<noteq> []")
      case True
      then obtain got where got: "len \<noteq> 0" "q = Ok (Some got)" "got \<noteq> []" by blast
      obtain x y where call: "tx_call env t (AppendResponseBody got) u = (x, y)" by fastforce
      note y = grown_trans[OF u movesD[OF grows_tx_call call]]
      show ?thesis
      proof (cases x)
        case (Ok c)
        have "stream_file env t h (len - of_nat (length got)) (a + of_nat (length got)) y = (r, v)"
          using 1(2) got read call Ok by (simp add: stream_file.simps[of env t h len])
        with 1(1)[OF got(1)] read got call Ok have "grown y v" by (metis (full_types))
        with y show ?thesis by (rule grown_trans)
      qed (use 1(2) got read call y in \<open>simp_all add: stream_file.simps[of env t h len]\<close>)
    next
      case False
      then have "v = w \<or> v = u"
        using 1(2) read by (auto simp: stream_file.simps[of env t h len] split: if_splits outcome.splits option.splits)
      with u grown_refl show ?thesis by blast
    qed
  qed
qed

lemma grows_chunks [grows_intros]:
  "grows (AppendResponseFileChunk env t f start len)" "grows (inspect_chunk env t m c r)"
  "grows (inspect_chunks env t m cs r)"
proof -
  show file_: "grows (AppendResponseFileChunk env t f start len)" for f start len
    unfolding AppendResponseFileChunk_def Let_def
    by (intro grows_intros grows_modify) (simp_all add: same_shared_def)
  have chunk: "grows (inspect_chunk env t m c r)" for c r
    unfolding inspect_chunk_def Let_def by (cases c) (auto intro!: grows_intros file_)
  then show "grows (inspect_chunk env t m c r)" .
  show "grows (inspect_chunks env t m cs r)"
    by (induction cs arbitrary: r) (auto intro!: grows_intros chunk)
qed

lemma grows_OnSendResponse: "grows (OnSendResponse env n)"
  unfolding OnSendResponse_def send_response_def send_headers_def send_body_def send_blocking_def
    send_inspecting_def SendResponseExceptionPolicy_def responseBodyBlockingEnabled_def Let_def
  by (intro grows_intros) simp_all

text \<open>The request handler.\<close>

lemma grows_feed_request [grows_intros]: "grows (feed_request env t req)"
  unfolding feed_request_def feed_connection_def feed_uri_def request_uri_def Let_def
  by (intro grows_intros)

lemma commit_grows:
  "getRules_commit cache f mtime rc rules = (r, cache') \<Longrightarrow> cache \<subseteq>\<^sub>m cache'"
  using getRules_commit_keeps[of cache _ _ f mtime rc rules r cache']
  by (auto simp: map_le_def cache_find_def dom_def)

lemma grows_cache: "grows (bnd (gets g_rulesCache) (\<lambda>cache. let (r, cache') = getRules_commit cache f mtime rc rules;
    err = e in andThen (whenever (rc < 0 \<and> r \<noteq> None) (WriteEventViewerLog
      (Some (''ModSecurityIIS: rules reload failed, keeping previous config: '' @ err)) EVENTLOG_ERROR_TYPE))
    (andThen (modify (\<lambda>w. w\<lparr>g_rulesCache := cache'\<rparr>)) (ret (r, err)))))"
proof (rule movesI)
  fix w :: world and q v
  obtain r cache' where commit: "getRules_commit (g_rulesCache w) f mtime rc rules = (r, cache')" by fastforce
  let ?log = "whenever (rc < 0 \<and> r \<noteq> None) (WriteEventViewerLog
      (Some (''ModSecurityIIS: rules reload failed, keeping previous config: '' @ e)) EVENTLOG_ERROR_TYPE)"
  have log: "grows ?log"
    by (intro grows_intros grows_log, rule quiet_head[of 17]) (simp_all add: rules_notice_def config_notice_def)
  obtain x u where x: "?log w = (x, u)" by fastforce
  then have "x = Ok ()"
    using WriteEventViewerLog_frame(1) by (auto simp: whenever_def ret_def split: if_splits)
  with x have u: "?log w = (Ok (), u)" by simp
  have cache: "g_rulesCache u = g_rulesCache w"
    using u WriteEventViewerLog_frame(2) by (auto simp: whenever_def ret_def split: if_splits)
  have same: "flagged k (u\<lparr>g_rulesCache := cache'\<rparr>) = flagged k u" for k by (cases k) simp_all
  assume "bnd (gets g_rulesCache) (\<lambda>cache. let (r, cache') = getRules_commit cache f mtime rc rules;
    err = e in andThen (whenever (rc < 0 \<and> r \<noteq> None) (WriteEventViewerLog
      (Some (''ModSecurityIIS: rules reload failed, keeping previous config: '' @ err)) EVENTLOG_ERROR_TYPE))
    (andThen (modify (\<lambda>w. w\<lparr>g_rulesCache := cache'\<rparr>)) (ret (r, err)))) w = (q, v)"
  with commit u have "v = u\<lparr>g_rulesCache := cache'\<rparr>"
    by (simp add: run_bnd_Ok run_andThen_Ok prog_simps Let_def bnd_def gets_def)
  with commit_grows[OF commit] cache same have "grown u v" by (simp add: grown_def)
  with movesD[OF log u] show "grown w v" by (rule grown_trans)
qed

lemma grows_getRules [grows_intros]: "grows (getRules env f)"
  unfolding getRules_def by (intro grows_intros grows_cache) simp_all

lemma grows_engine [grows_intros]: "grows (engine env)"
proof (rule movesI)
  fix w r v
  assume "engine env w = (r, v)"
  then obtain g where "v = w \<or> g_engine w = None \<and> v = w\<lparr>g_engine := Some g\<rparr>"
    by (auto simp: engine_def heap_alloc_def prog_defs Let_def split: if_splits option.splits)
  moreover have "flagged k (w\<lparr>g_engine := g'\<rparr>) = flagged k w" for k g' by (cases k) simp_all
  ultimately show "grown w v" by (auto simp: grown_def)
qed

lemma grows_property_readers [grows_intros]:
  "grows (GetBooleanPropertyValue env ok name)" "grows (GetStringPropertyValue env ok name)"
  unfolding GetBooleanPropertyValue_def GetStringPropertyValue_def fetch_property_def release_property_def
    VariantClear_def Let_def
  by (intro grows_intros; simp)+

lemma grows_Initialize [grows_intros]: "grows (Initialize env c)"
  unfolding Initialize_def read_section_def Let_def by (intro grows_intros) simp_all

lemma grows_GetConfig [grows_intros]: "grows (GetConfig env)"
  unfolding GetConfig_def Let_def by (intro grows_intros grows_modify) (simp_all add: same_shared_def)

lemma grows_fail_closed [grows_intros]: "grows (fail_closed_500 env hr)"
  unfolding fail_closed_500_def by (intro grows_intros) simp

lemma grows_config_failed [grows_intros]: "grows (config_failed env)"
proof -
  let ?e = "EventLogged config_notice EVENTLOG_ERROR_TYPE"
  have "grown w v" if "andThen (modify (\<lambda>w. w\<lparr>s_configFailLogged := True\<rparr>)) (whenever (\<not> s_configFailLogged w)
      (WriteEventViewerLog (Some config_notice) EVENTLOG_ERROR_TYPE)) w = (r, v)" for w r v
  proof -
    have same: "flagged j (w\<lparr>s_configFailLogged := True, w_evs := es\<rparr>) = flagged j w" if "j \<noteq> ConfigNotice" for j es
      using that by (cases j) simp_all
    from that have v: "v = w\<lparr>s_configFailLogged := True,
        w_evs := w_evs w @ (if \<not> s_configFailLogged w \<and> g_hEventLog w then [?e] else [])\<rparr>"
      by (auto simp: WriteEventViewerLog_def prog_simps andThen_def bnd_def whenever_def split: if_splits)
    show ?thesis
    proof (cases "s_configFailLogged w")
      case True
      with v have "v = w" by simp
      then show ?thesis by (simp add: grown_refl)
    next
      case False
      with v same show ?thesis
        by (intro grown_notice[where k = ConfigNotice and e = ?e])
           (simp_all add: announces_config del: announces.simps)
    qed
  qed
  note notice = grows_flagged[OF this grows_fail_closed]
  show ?thesis
    unfolding config_failed_def andThen_assoc config_notice_def[symmetric] by (rule notice)
qed

lemma c_str_notice: "c_str (''ModSecurityIIS: failed to load rules from '' @ x) = rules_notice @ c_str x"
  by (simp add: c_str_def rules_notice_def)

lemma grows_rules_failed [grows_intros]: "grows (rules_failed env hr f e)"
proof -
  let ?m = "c_str (''ModSecurityIIS: failed to load rules from '' @ [CHR 0x27] @ f @ [CHR 0x27] @ '': '' @ e)"
  let ?e = "EventLogged ?m EVENTLOG_ERROR_TYPE"
  have e: "announces j ?e \<longleftrightarrow> j = RulesNotice" for j
    unfolding c_str_notice by (rule announces_rules)
  have "grown w v" if run: "andThen (modify (\<lambda>w. w\<lparr>s_rulesFailLogged := True\<rparr>)) (whenever (\<not> s_rulesFailLogged w)
      (andThen (heap_alloc env) (WriteEventViewerLog (Some ?m) EVENTLOG_ERROR_TYPE))) w = (r, v)" for w r v
  proof -
    have same: "flagged j (w\<lparr>s_rulesFailLogged := True, w_evs := es\<rparr>) = flagged j w"
      "flagged j (w\<lparr>s_rulesFailLogged := True\<rparr>) = flagged j w" if "j \<noteq> RulesNotice" for j es
      using that by (cases j; simp)+
    show ?thesis
    proof (cases "s_rulesFailLogged w")
      case True
      then have "w\<lparr>s_rulesFailLogged := True\<rparr> = w" by simp
      with run True have "v = w" by (simp add: andThen_def bnd_def whenever_def prog_simps)
      then show ?thesis by (simp add: grown_refl)
    next
      case False
      with run have "v = w\<lparr>s_rulesFailLogged := True\<rparr> \<or>
          v = w\<lparr>s_rulesFailLogged := True, w_evs := w_evs w @ [?e]\<rparr>"
        by (auto simp: WriteEventViewerLog_def heap_alloc_def prog_defs emit_def whenever_def
            split: if_splits simp del: c_str_def)
      with False same e show ?thesis
        by (intro grown_notice[where k = RulesNotice and e = ?e]) (auto simp del: announces.simps)
    qed
  qed
  note notice = grows_flagged[OF this grows_fail_closed]
  show ?thesis
    unfolding rules_failed_def andThen_assoc by (rule notice)
qed

lemma grows_new_context [grows_intros]: "grows (new_context env hr c rules)"
  unfolding new_context_def set_module_context_def Let_def
  by (intro grows_intros grows_modify) (simp_all add: same_shared_def)

lemma grows_OnBeginRequest: "grows (OnBeginRequest env has_context)"
  unfolding OnBeginRequest_def begin_body_def begin_configured_def create_context_def inspect_request_def
  by (intro grows_intros)

end
