(* ===== verification/Server.thy ===== *)
theory Server
  imports Lifecycle Globals
begin

text \<open>
  A worker process that serves many requests at a time. Each runs through the handlers as in
  theory Lifecycle, with a trace of its own; the rules cache, the engine, the body-read mode,
  the notice flags, the file positions and the stored configurations are shared. A step runs
  one handler of one request. The critical sections of \<open>getRules\<close> and \<open>GetHttpModule\<close>, where
  threads meet inside a handler, are taken apart in theories Connector and Registration.
\<close>

section \<open>The process\<close>

record globals =
  gl_rulesCache :: "string \<rightharpoonup> cached_rules"
  gl_engine :: "engine_obj option"
  gl_bodyAsyncState :: nat
  gl_capLogged :: bool
  gl_configFailLogged :: bool
  gl_rulesFailLogged :: bool
  gl_hEventLog :: bool
  gl_file_pos :: "nat \<Rightarrow> int"

definition globals_of :: "world \<Rightarrow> globals" where
  "globals_of w = \<lparr> gl_rulesCache = g_rulesCache w, gl_engine = g_engine w,
     gl_bodyAsyncState = g_bodyAsyncState w, gl_capLogged = s_capLogged w,
     gl_configFailLogged = s_configFailLogged w, gl_rulesFailLogged = s_rulesFailLogged w,
     gl_hEventLog = g_hEventLog w, gl_file_pos = file_pos w \<rparr>"

definition with_globals :: "globals \<Rightarrow> world \<Rightarrow> world" where
  "with_globals g w = w\<lparr>g_rulesCache := gl_rulesCache g, g_engine := gl_engine g,
     g_bodyAsyncState := gl_bodyAsyncState g, s_capLogged := gl_capLogged g,
     s_configFailLogged := gl_configFailLogged g, s_rulesFailLogged := gl_rulesFailLogged g,
     g_hEventLog := gl_hEventLog g, file_pos := gl_file_pos g\<rparr>"

record server =
  sv_globals :: globals
  sv_configs :: "nat \<Rightarrow> config option"
  sv_lives :: "life list"

text \<open>A request as its next handler will find it: its own state, and the shared one as it is now.\<close>

definition view_of :: "server \<Rightarrow> nat \<Rightarrow> life" where
  "view_of s i = (sv_lives s ! i)\<lparr>lf_configs := sv_configs s,
     lf_world := with_globals (sv_globals s) (lf_world (sv_lives s ! i))\<rparr>"

inductive server_step :: "nat \<Rightarrow> server \<Rightarrow> server \<Rightarrow> bool" for cap where
  server_handler: "i < length (sv_lives s) \<Longrightarrow> life_step cap (view_of s i) l \<Longrightarrow>
     server_step cap s \<lparr> sv_globals = globals_of (lf_world l), sv_configs = lf_configs l,
       sv_lives = (sv_lives s)[i := l] \<rparr>"

inductive_cases server_stepE: "server_step cap s t"

definition server_init :: "server \<Rightarrow> bool" where
  "server_init s \<longleftrightarrow> (\<forall>i < length (sv_lives s). life_init (view_of s i))"

lemma globals_simps [simp]:
  "w_rsc (with_globals g w) = w_rsc w" "w_evs (with_globals g w) = w_evs w"
  "w_config (with_globals g w) = w_config w" "globals_of (with_globals g w) = g"
  "with_globals g (with_globals h w) = with_globals g w" "with_globals (globals_of w) w = w"
  by (simp_all add: with_globals_def globals_of_def)

lemma globals_of_sel [simp]:
  "gl_rulesCache (globals_of w) = g_rulesCache w" "gl_engine (globals_of w) = g_engine w"
  "gl_bodyAsyncState (globals_of w) = g_bodyAsyncState w" "gl_hEventLog (globals_of w) = g_hEventLog w"
  by (simp_all add: globals_of_def)

lemma view_simps [simp]:
  "lf_phase (view_of s i) = lf_phase (sv_lives s ! i)" "lf_env (view_of s i) = lf_env (sv_lives s ! i)"
  "lf_configs (view_of s i) = sv_configs s"
  "lf_world (view_of s i) = with_globals (sv_globals s) (lf_world (sv_lives s ! i))"
  by (simp_all add: view_of_def)

section \<open>Every request keeps its invariant\<close>

lemma pended_cong: "w_rsc v = w_rsc w \<Longrightarrow> w_evs v = w_evs w \<Longrightarrow> pended e t v = pended e t w"
  by (simp add: pended_def ctx_inv_def)

text \<open>What a request relies on is its own, but for the stored configurations.\<close>

lemma life_inv_cong:
  assumes "lf_env t = lf_env s" "lf_phase t = lf_phase s" "configs_valid t"
    "w_rsc (lf_world t) = w_rsc (lf_world s)" "w_evs (lf_world t) = w_evs (lf_world s)"
  shows "life_inv cap s \<Longrightarrow> life_inv cap t"
  using assms rested_cong[OF assms(4,5)] pended_cong[OF assms(4,5)]
  by (cases "lf_phase s") (auto simp: life_inv_def)

lemma life_inv_configs: "life_inv cap s \<Longrightarrow> configs_valid s"
  by (simp add: life_inv_def)

definition requests_inv :: "nat \<Rightarrow> server \<Rightarrow> bool" where
  "requests_inv cap s \<longleftrightarrow> (\<forall>i < length (sv_lives s). life_inv cap (view_of s i))"

lemma requests_inv_step:
  assumes inv: "requests_inv cap s" and step: "server_step cap s t"
  shows "requests_inv cap t"
  using step
proof cases
  case (server_handler i l)
  from inv server_handler(2) have "life_inv cap (view_of s i)" by (simp add: requests_inv_def)
  from life_inv_step[OF this server_handler(3)] have l: "life_inv cap l" .
  have "life_inv cap (view_of t j)" if j: "j < length (sv_lives s)" for j
  proof (cases "j = i")
    case True
    with server_handler j have "view_of t j = l" by (simp add: view_of_def)
    with l show ?thesis by simp
  next
    case False
    have old: "life_inv cap (view_of s j)" using inv j by (simp add: requests_inv_def)
    have "configs_valid (view_of t j)"
      using life_inv_configs[OF l] server_handler(1) by (simp add: configs_valid_def)
    from life_inv_cong[OF _ _ this _ _ old] show ?thesis using server_handler(1) False by simp
  qed
  with server_handler(1) show ?thesis by (simp add: requests_inv_def)
qed

text \<open>A step of one request leaves what the others own as it was.\<close>

lemma view_stepped:
  assumes "i < length ls"
  shows "view_of \<lparr> sv_globals = globals_of (lf_world l), sv_configs = lf_configs l, sv_lives = ls[i := l] \<rparr> i = l"
  using assms by (simp add: view_of_def)

lemma server_step_one:
  assumes "server_step cap s t"
  obtains i where "i < length (sv_lives s)" and "life_step cap (view_of s i) (view_of t i)"
    and "sv_lives t = (sv_lives s)[i := view_of t i]" and "sv_globals t = globals_of (lf_world (view_of t i))"
  using assms
proof cases
  case (server_handler i l)
  have "view_of t i = l" unfolding server_handler(1) by (rule view_stepped[OF server_handler(2)])
  with server_handler that[of i] show thesis by (simp del: view_simps)
qed

section \<open>The shared state grows\<close>

lemma grown_config: "grown w (w\<lparr>w_config := c\<rparr>)"
  by (rule grown_same) (simp_all add: same_shared_def)

lemma grown_arrival: "grown w (read_arrives d hr w)"
proof (cases "w_rsc w")
  case (Some r)
  have "quiet (ReadReturned d hr)" by simp
  then show ?thesis
    using Some by (intro grown_emit[of w _ "ReadReturned d hr"]) (simp_all add: read_arrives_def same_shared_def)
qed (simp add: read_arrives_def grown_refl)

lemma life_step_grown:
  assumes "life_step cap s t"
  shows "grown (lf_world s) (lf_world t)"
  using assms
proof cases
  case (life_begin e b p st v)
  from grown_trans[OF grown_config movesD[OF grows_OnBeginRequest life_begin(5)]] life_begin(1)
  show ?thesis by simp
next
  case (life_complete d hr st v)
  from grown_trans[OF grown_arrival movesD[OF grows_OnAsyncCompletion life_complete(4)]] life_complete(1)
  show ?thesis by simp
next
  case (life_foreign b info st v)
  from movesD[OF grows_OnAsyncCompletion life_foreign(3)] life_foreign(1) show ?thesis by simp
next
  case (life_send n st v)
  from movesD[OF grows_OnSendResponse life_send(4)] life_send(1) show ?thesis by simp
next
  case (life_post_end st v)
  then show ?thesis by (simp add: OnPostEndRequest_def ret_def grown_refl)
next
  case (life_cleanup v)
  from movesD[OF grows_CleanupStoredContext life_cleanup(4)] life_cleanup(1) show ?thesis by simp
qed (simp add: grown_refl)

text \<open>Growth seen on the globals alone, and the notices told by all requests together.\<close>

fun gl_flagged :: "notice \<Rightarrow> globals \<Rightarrow> bool" where
  "gl_flagged CapNotice g = gl_capLogged g"
| "gl_flagged ConfigNotice g = gl_configFailLogged g"
| "gl_flagged RulesNotice g = gl_rulesFailLogged g"

definition globals_kept :: "globals \<Rightarrow> globals \<Rightarrow> bool" where
  "globals_kept g h \<longleftrightarrow> gl_rulesCache g \<subseteq>\<^sub>m gl_rulesCache h \<and>
     (gl_engine g \<noteq> None \<longrightarrow> gl_engine h = gl_engine g) \<and>
     (gl_bodyAsyncState g \<noteq> 0 \<longrightarrow> gl_bodyAsyncState h = gl_bodyAsyncState g) \<and>
     gl_hEventLog h = gl_hEventLog g \<and> (\<forall>k. gl_flagged k g \<longrightarrow> gl_flagged k h)"

definition told_by_all :: "notice \<Rightarrow> server \<Rightarrow> nat" where
  "told_by_all k s = sum_list (map (\<lambda>l. told k (w_evs (lf_world l))) (sv_lives s))"

lemma gl_flagged_of: "flagged k w = gl_flagged k (globals_of w)"
  by (cases k) (simp_all add: globals_of_def)

lemma grown_globals: "grown w v \<Longrightarrow> globals_kept (globals_of w) (globals_of v)"
  unfolding grown_def globals_kept_def gl_flagged_of globals_of_sel by blast

lemma kept_refl: "globals_kept g g"
  by (simp add: globals_kept_def)

lemma kept_trans:
  assumes "globals_kept f g" and "globals_kept g h"
  shows "globals_kept f h"
proof -
  have "gl_rulesCache f \<subseteq>\<^sub>m gl_rulesCache h"
    using assms map_le_trans[of "gl_rulesCache f" "gl_rulesCache g"] by (simp add: globals_kept_def)
  with assms show ?thesis by (simp add: globals_kept_def)
qed

lemma server_step_kept:
  assumes "server_step cap s t"
  shows "globals_kept (sv_globals s) (sv_globals t)"
proof -
  obtain i where "life_step cap (view_of s i) (view_of t i)"
    and t: "sv_globals t = globals_of (lf_world (view_of t i))" by (rule server_step_one[OF assms])
  from grown_globals[OF life_step_grown[OF this(1)]] show ?thesis by simp
qed

lemma sum_update:
  fixes f :: "'a \<Rightarrow> nat"
  assumes "i < length xs"
  shows "sum_list (map f (xs[i := x])) + f (xs ! i) = sum_list (map f xs) + f x"
  using assms
proof (induction xs arbitrary: i)
  case (Cons y ys)
  then show ?case by (cases i) simp_all
qed simp

lemma told_step:
  assumes "server_step cap s t"
  shows "told_by_all k t + of_bool (gl_flagged k (sv_globals s)) \<le>
    told_by_all k s + of_bool (gl_flagged k (sv_globals t))"
proof -
  obtain i where i: "i < length (sv_lives s)" and step: "life_step cap (view_of s i) (view_of t i)"
    and t: "sv_lives t = (sv_lives s)[i := view_of t i]" "sv_globals t = globals_of (lf_world (view_of t i))"
    by (rule server_step_one[OF assms])
  let ?f = "\<lambda>l. told k (w_evs (lf_world l))"
  have sum: "told_by_all k t + ?f (sv_lives s ! i) = told_by_all k s + ?f (view_of t i)"
    unfolding told_by_all_def t(1) by (rule sum_update[OF i])
  have "?f (view_of t i) + of_bool (gl_flagged k (sv_globals s)) \<le>
      ?f (view_of s i) + of_bool (gl_flagged k (sv_globals t))"
    using life_step_grown[OF step] unfolding grown_def gl_flagged_of t(2) by simp
  with sum show ?thesis by simp
qed

section \<open>The invariant of the process\<close>

definition server_inv :: "nat \<Rightarrow> server \<Rightarrow> bool" where
  "server_inv cap s \<longleftrightarrow> requests_inv cap s \<and>
     (\<forall>k. told_by_all k s \<le> of_bool (gl_flagged k (sv_globals s)))"

lemma server_inv_init: "server_init s \<Longrightarrow> server_inv cap s"
proof -
  assume init: "server_init s"
  then have "told k (w_evs (lf_world l)) = 0" if "l \<in> set (sv_lives s)" for k l
    using that by (auto simp: server_init_def life_init_def in_set_conv_nth)
  then have "told_by_all k s = 0" for k by (simp add: told_by_all_def)
  with init show ?thesis
    by (simp add: server_inv_def requests_inv_def server_init_def life_inv_init del: view_simps)
qed

lemma server_inv_step:
  assumes "server_inv cap s" and step: "server_step cap s t"
  shows "server_inv cap t"
proof -
  have told: "told_by_all k t \<le> of_bool (gl_flagged k (sv_globals t))" for k
  proof -
    from assms(1) have "told_by_all k s \<le> of_bool (gl_flagged k (sv_globals s))" by (simp add: server_inv_def)
    with told_step[OF step, of k] show ?thesis by simp
  qed
  have "requests_inv cap t" using requests_inv_step[OF _ step] assms(1) by (simp add: server_inv_def)
  with told show ?thesis by (simp add: server_inv_def)
qed

section \<open>The specification\<close>

text \<open>Every request by itself follows the specification of theory Lifecycle.\<close>

inductive specs_step :: "spec list \<Rightarrow> spec list \<Rightarrow> bool" where
  specs_one: "i < length as \<Longrightarrow> spec_step (as ! i) a \<Longrightarrow> specs_step as (as[i := a])"

definition specs_init :: "spec list \<Rightarrow> bool" where
  "specs_init as \<longleftrightarrow> (\<forall>a \<in> set as. spec_init a)"

definition specs_inv :: "spec list \<Rightarrow> bool" where
  "specs_inv as \<longleftrightarrow> (\<forall>a \<in> set as. spec_inv a)"

definition abs_server :: "server \<Rightarrow> spec list" where
  "abs_server s = map abs_life (sv_lives s)"

lemma abs_view: "i < length (sv_lives s) \<Longrightarrow> abs_life (view_of s i) = abs_server s ! i"
  by (simp add: abs_server_def abs_life_def open_tx_def)

interpretation specs: inv_system specs_init specs_step specs_inv
proof
  show "specs_init as \<Longrightarrow> specs_inv as" for as
    using transaction_spec.inv_init by (simp add: specs_init_def specs_inv_def)
  show "specs_inv bs" if inv: "specs_inv as" and step: "specs_step as bs" for as bs
    using step
  proof cases
    case (specs_one i a)
    with inv have "spec_inv a" by (auto simp: specs_inv_def intro: transaction_spec.inv_step)
    with inv specs_one(1) show ?thesis
      using set_update_subset_insert[of as i a] by (auto simp: specs_inv_def)
  qed
qed

lemma abs_server_step:
  assumes inv: "server_inv cap s" and step: "server_step cap s t"
  shows "specs_step (abs_server s) (abs_server t)"
proof -
  obtain i where i: "i < length (sv_lives s)" and step: "life_step cap (view_of s i) (view_of t i)"
    and t: "sv_lives t = (sv_lives s)[i := view_of t i]" by (rule server_step_one[OF step])
  from inv i have "life_inv cap (view_of s i)" by (simp add: server_inv_def requests_inv_def del: view_simps)
  from abs_step[OF this step] have "spec_step (abs_server s ! i) (abs_life (view_of t i))"
    unfolding abs_view[OF i] .
  from specs_one[OF _ this] i have "specs_step (abs_server s) ((abs_server s)[i := abs_life (view_of t i)])"
    by (simp add: abs_server_def)
  moreover have "abs_server t = (abs_server s)[i := abs_life (view_of t i)]"
    unfolding abs_server_def t by (simp add: map_update)
  ultimately show ?thesis by simp
qed

lemma abs_server_init: "server_init s \<Longrightarrow> specs_init (abs_server s)"
proof -
  assume init: "server_init s"
  have "spec_init (abs_server s ! i)" if "i < length (sv_lives s)" for i
    using abs_init[of "view_of s i"] init that abs_view[OF that] by (simp add: server_init_def)
  then show ?thesis by (auto simp: specs_init_def in_set_conv_nth abs_server_def)
qed

interpretation served: simulation server_init "server_step cap" "server_inv cap" specs_init specs_step abs_server
  for cap
  by unfold_locales (rule server_inv_init, assumption, erule (1) server_inv_step, rule abs_server_init,
      assumption, erule (1) abs_server_step)

section \<open>Two requests\<close>

text \<open>The witnesses run two requests: one of each is served by the environment given.\<close>

definition pair_server :: "life \<Rightarrow> server" where
  "pair_server l = \<lparr> sv_globals = globals_of (lf_world l), sv_configs = lf_configs l, sv_lives = [l, l] \<rparr>"

lemma pair_view: "i < 2 \<Longrightarrow> view_of (pair_server l) i = l"
  by (cases i) (simp_all add: view_of_def pair_server_def)

lemma pair_length: "length (sv_lives (pair_server l)) = 2"
  by (simp add: pair_server_def)

lemma pair_starts: "life_init l \<Longrightarrow> reach server_init (server_step cap) (pair_server l)"
  by (rule reach_init) (simp add: server_init_def pair_length pair_view del: view_simps)

definition pair_after :: "life \<Rightarrow> life \<Rightarrow> server" where
  "pair_after l l' = \<lparr> sv_globals = globals_of (lf_world l'), sv_configs = lf_configs l', sv_lives = [l', l] \<rparr>"

lemma pair_step:
  assumes "life_step cap l l'"
  shows "server_step cap (pair_server l) (pair_after l l')"
proof -
  have "life_step cap (view_of (pair_server l) 0) l'" using assms pair_view[of 0 l] by (simp del: view_simps)
  from server_handler[OF _ this] show ?thesis by (simp add: pair_server_def pair_after_def)
qed

lemma pair_reached:
  "life_init l \<Longrightarrow> life_step cap l l' \<Longrightarrow> reach server_init (server_step cap) (pair_after l l')"
  by (rule reach_step[OF pair_starts pair_step])

lemma requests_alive: "reach server_init (server_step cap) s \<Longrightarrow> i < length (sv_lives s) \<Longrightarrow> life_inv cap (view_of s i)"
  using served.invariant[of cap s] by (simp add: server_inv_def requests_inv_def del: view_simps)

text \<open>A fresh request can always be begun.\<close>

lemma handlers_return_fresh:
  assumes "life_inv cap s" and fresh: "lf_phase s = Fresh" and host: "begin_host e" "cap_of e = cap"
  obtains l where "life_step cap s l"
proof -
  from next_handlers[OF assms(1)] fresh host
  obtain st v where "OnBeginRequest e True ((lf_world s)\<lparr>w_config := lf_configs s 0\<rparr>) = (Ok st, v)" by blast
  from that[OF life_begin[OF fresh host this]] show thesis .
qed

section \<open>Properties\<close>

text \<open>C3: Progress under concurrency. However the handlers of any number of requests have been
  interleaved in the worker process, every handler IIS may call next for any of them, with the
  shared state as the others have left it, returns: the request handler, the completion of an
  outstanding read with any bytes, a response notification (never with PENDING) and the
  clean-up. Nothing is thrown across the module boundary, nothing undefined happens, and a
  completion that is not the module's own is ignored.\<close>

theorem concurrent_handlers_progress:
  assumes "reach server_init (server_step cap) sv" and "i < length (sv_lives sv)" and "s = view_of sv i"
  shows "(lf_phase s = Fresh \<longrightarrow> (\<forall>e b p. begin_host e \<and> cap_of e = cap \<longrightarrow>
            (\<exists>st v. OnBeginRequest e b ((lf_world s)\<lparr>w_config := lf_configs s p\<rparr>) = (Ok st, v)))) \<and>
    (lf_phase s = Waiting \<longrightarrow> (\<forall>d hr. length d \<le> kBodyReadChunkSize \<longrightarrow>
       (\<exists>st v. OnAsyncCompletion (lf_env s) True (Some (word_of_nat (length d), hr))
          (read_arrives d hr (lf_world s)) = (Ok st, v)))) \<and>
    (lf_phase s \<noteq> Waiting \<longrightarrow>
       (\<forall>b info. OnAsyncCompletion (lf_env s) b info (lf_world s) = (Ok RQ_NOTIFICATION_CONTINUE, lf_world s)) \<and>
       (\<forall>n. (\<forall>raw. sn_raw n = Some raw \<longrightarrow> valid_response raw) \<longrightarrow>
          (\<exists>st v. OnSendResponse (lf_env s) n (lf_world s) = (Ok st, v) \<and> st \<noteq> RQ_NOTIFICATION_PENDING))) \<and>
    (lf_phase s = Running \<and> w_rsc (lf_world s) \<noteq> None \<longrightarrow>
       (\<exists>v. CleanupStoredContext (lf_env s) (lf_world s) = (Ok (), v)))"
  using next_handlers[OF requests_alive[OF assms(1,2)]] unfolding assms(3) .

theorem concurrent_handlers_progress_witness:
  "\<exists>sv s. length (sv_lives sv) = 2 \<and> s = view_of sv 0 \<and> lf_phase s = Waiting \<and> lf_phase (view_of sv 1) = Fresh \<and>
     (\<exists>st v. OnAsyncCompletion (lf_env s) True (Some (3, S_OK)) (read_arrives ''abc'' S_OK (lf_world s)) = (Ok st, v))"
proof -
  obtain l where l: "life_step 1048576 site_start l" "lf_phase l = Waiting" by (rule site_waiting)
  let ?sv = "pair_after site_start l"
  have len: "length (sv_lives ?sv) = 2" by (simp add: pair_after_def)
  have phases: "lf_phase (view_of ?sv 0) = Waiting" "lf_phase (view_of ?sv 1) = Fresh"
    using l(2) by (simp_all add: pair_after_def site_start_def)
  note reached = pair_reached[OF waiting_starts l(1)]
  have "\<forall>d hr. length d \<le> kBodyReadChunkSize \<longrightarrow>
      (\<exists>st v. OnAsyncCompletion (lf_env (view_of ?sv 0)) True (Some (word_of_nat (length d), hr))
          (read_arrives d hr (lf_world (view_of ?sv 0))) = (Ok st, v))"
    using concurrent_handlers_progress[OF reached _ refl, of 0] len phases(1) by (simp del: view_simps)
  from spec[OF spec[OF this, of "''abc''"], of S_OK] len phases show ?thesis
    by (intro exI[of _ ?sv] exI[of _ "view_of ?sv 0"]) (simp add: kBodyReadChunkSize_def del: view_simps)
qed



lemma run_kept: "reach (\<lambda>x. x = s) (server_step cap) t \<Longrightarrow> globals_kept (sv_globals s) (sv_globals t)"
proof (induction rule: reach.induct)
  case (reach_step t u)
  from kept_trans[OF reach_step.IH server_step_kept[OF reach_step.hyps(2)]] show ?case .
qed (simp add: kept_refl)

text \<open>C11: The shared state only grows: between any two states of a run the engine stays the one that was
  created, the body-read mode stays the one that was chosen, and for a file whose rules were
  cached every later getRules of any request that returns rules returns those.\<close>

theorem shared_state_kept:
  assumes "reach (\<lambda>x. x = s) (server_step cap) t" and "w = lf_world (view_of t i)"
  shows "(gl_engine (sv_globals s) = Some g \<longrightarrow> fst (engine e w) = Ok g) \<and>
    (gl_bodyAsyncState (sv_globals s) \<noteq> 0 \<longrightarrow>
       fst (BodyReadsAsync e w) = Ok (gl_bodyAsyncState (sv_globals s) = 2)) \<and>
    (\<forall>it rules err v. gl_rulesCache (sv_globals s) f = Some it \<and> getRules e f w = (Ok (Some rules, err), v) \<longrightarrow>
       rules = cr_rules it)"
proof -
  have w: "globals_of w = sv_globals t" unfolding assms(2) by simp
  note kept = run_kept[OF assms(1), folded w]
  have "fst (engine e w) = Ok g" if "gl_engine (sv_globals s) = Some g"
    using kept that by (simp add: globals_kept_def engine_def prog_simps)
  moreover have "fst (BodyReadsAsync e w) = Ok (gl_bodyAsyncState (sv_globals s) = 2)"
    if "gl_bodyAsyncState (sv_globals s) \<noteq> 0"
    using kept that by (simp add: globals_kept_def BodyReadsAsync_def prog_simps)
  moreover have "rules = cr_rules it"
    if "gl_rulesCache (sv_globals s) f = Some it" and get: "getRules e f w = (Ok (Some rules, err), v)" for it rules err v
  proof -
    have "g_rulesCache w f = Some it"
      using kept that(1) by (auto simp: globals_kept_def map_le_def dom_def)
    then have "cached_for f w = Some (cr_rules it)" by (simp add: cached_for_def cache_find_def)
    from file_rules.get_hit[OF this, of e] get show ?thesis by (simp add: getRules_result_def result_of_def)
  qed
  ultimately show ?thesis by blast
qed

theorem shared_state_kept_witness:
  "\<exists>s t. server_step 1048576 s t \<and> gl_bodyAsyncState (sv_globals s) = 2 \<and>
     fst (BodyReadsAsync quiet_env (lf_world (view_of t 1))) = Ok True"
proof -
  let ?l = "site_start\<lparr>lf_world := site_world\<lparr>g_bodyAsyncState := 2\<rparr>\<rparr>"
  have start: "life_init ?l"
    using waiting_starts by (simp add: life_init_def site_start_def configs_valid_def)
  from handlers_return_fresh[OF life_inv_init[OF start] _ begin_host_waiting waiting_facts(11)]
  obtain l where l: "life_step 1048576 ?l l" by (auto simp: site_start_def)
  note step = pair_step[OF l]
  have one: "reach (\<lambda>x. x = pair_server ?l) (server_step 1048576) (pair_after ?l l)" by (rule reach_one[of "server_step 1048576", OF step])
  have mode: "gl_bodyAsyncState (sv_globals (pair_server ?l)) = 2" by (simp add: pair_server_def)
  from shared_state_kept[where i = 1 and e = quiet_env, OF one refl] mode have
    "fst (BodyReadsAsync quiet_env (lf_world (view_of (pair_after ?l l) 1))) = Ok True" by (simp del: view_simps)
  with step mode show ?thesis by blast
qed

text \<open>C12: Once per process. However many requests run into the inspection cap, an unreadable
  configuration or unloadable rules, and however they are interleaved, each of the three
  notices is written to the event log at most once, and its flag is set when it has been.\<close>

theorem notices_once_per_process:
  assumes "reach server_init (server_step cap) s"
  shows "told_by_all k s \<le> 1 \<and> (0 < told_by_all k s \<longrightarrow> gl_flagged k (sv_globals s))"
proof -
  have "told_by_all k s \<le> of_bool (gl_flagged k (sv_globals s))"
    using served.invariant[OF assms] by (simp add: server_inv_def)
  then show ?thesis by (cases "gl_flagged k (sv_globals s)") simp_all
qed

text \<open>Two requests one after the other find the configuration unreadable: one line is written.\<close>

definition broken_env :: env where
  "broken_env = quiet_env\<lparr>com := quiet_com\<lparr>has_metadata_container := False\<rparr>\<rparr>"

definition broken_start :: life where
  "broken_start = \<lparr> lf_env = broken_env, lf_phase = Fresh, lf_configs = (\<lambda>_. None), lf_world = start_world \<rparr>"

lemma broken_host: "begin_host broken_env" "cap_of broken_env = 1048576"
  using begin_host_quiet cap_quiet
  by (auto simp: begin_host_def config_host_def container_host_def body_host_def com_contract_def
      broken_env_def GetMaxInspectBodyBytes_def)

lemma broken_starts: "life_init broken_start"
  by (simp add: life_init_def broken_start_def configs_valid_def start_world_def)

lemma broken_step:
  obtains l where "life_step 1048576 broken_start l" and "told ConfigNotice (w_evs (lf_world l)) = 1"
proof -
  have w: "(lf_world broken_start)\<lparr>w_config := lf_configs broken_start 0\<rparr> = start_world"
    by (simp add: broken_start_def start_world_def)
  obtain v where run: "OnBeginRequest broken_env True start_world = (Ok RQ_NOTIFICATION_FINISH_REQUEST, v)"
    and evs: "w_evs v = [EventLogged config_notice EVENTLOG_ERROR_TYPE, RespSetStatus 500 ''Internal Server Error'']"
    by (simp add: OnBeginRequest_def begin_body_def GetConfig_def config_failed_def fail_closed_500_def
        ConfigFailClosed_def run_log config_notice_def broken_env_def start_world_def quiet_com_def prog_simps)
  have phase: "lf_phase broken_start = Fresh" by (simp add: broken_start_def)
  note step = life_begin[OF phase broken_host run[folded w]]
  have "told ConfigNotice (w_evs v) = 1"
    unfolding evs told_def by simp
  with that[OF step] show thesis by simp
qed

theorem notices_once_per_process_witness:
  "\<exists>s t. server_step 1048576 (pair_server broken_start) s \<and> server_step 1048576 s t \<and>
     told_by_all ConfigNotice t = 1 \<and> gl_flagged ConfigNotice (sv_globals t)"
proof -
  obtain l where l: "life_step 1048576 broken_start l" "told ConfigNotice (w_evs (lf_world l)) = 1"
    by (rule broken_step)
  let ?s = "pair_after broken_start l"
  have len: "length (sv_lives ?s) = 2" and fresh: "lf_phase (view_of ?s 1) = Fresh"
    by (simp_all add: pair_after_def broken_start_def)
  note reached = pair_reached[OF broken_starts l(1)]
  have "life_inv 1048576 (view_of ?s 1)" by (rule requests_alive[OF reached]) (simp add: len)
  from handlers_return_fresh[OF this fresh broken_host] obtain l' where l': "life_step 1048576 (view_of ?s 1) l'" by blast
  from server_handler[OF _ l'] len obtain t where t: "server_step 1048576 ?s t" "sv_lives t = (sv_lives ?s)[1 := l']"
    by auto
  have "told_by_all ConfigNotice t = 1 + told ConfigNotice (w_evs (lf_world l'))"
    using t(2) l(2) by (simp add: told_by_all_def pair_after_def)
  with notices_once_per_process[OF reach_step[OF reached t(1)], of ConfigNotice] pair_step[OF l(1)] t(1)
  show ?thesis by (intro exI[of _ ?s] exI[of _ t]) simp
qed

end
