(* ===== verification/Debug_Trace.thy ===== *)
theory Debug_Trace
  imports Helpers
begin

text \<open>
  The opt-in debug trace of \<open>src/ModSecurityIIS.cpp\<close> (\<open>IisTraceEnabled\<close>, \<open>IisTrace\<close>): the lazily
  read switch, the choice of the trace file and the line that is appended. The switch is one of
  the values of the program that are decided once, so it interprets the contract of the prelude.
\<close>

section \<open>State and environment\<close>

text \<open>
  \<open>g_iisTraceEnabled\<close> is the static of the same name (-1 before the first use); \<open>trace_files\<close> is
  the content of the files by path. Of the C runtime: \<open>getenv\<close>, whether \<open>fopen(path, "a")\<close>
  succeeds, and the local time.
\<close>

record trace_host =
  g_iisTraceEnabled :: int
  trace_files :: "string \<Rightarrow> string"

record systemtime =
  wYear :: nat
  wMonth :: nat
  wDay :: nat
  wHour :: nat
  wMinute :: nat
  wSecond :: nat
  wMilliseconds :: nat

record trace_env =
  getenv :: "string \<Rightarrow> string option"
  fopen_append :: "string \<Rightarrow> bool"
  GetLocalTime :: systemtime

section \<open>The switch\<close>

definition IisTraceEnabled :: "trace_env \<Rightarrow> (trace_host, bool) prog" where
  "IisTraceEnabled te =
     bnd (gets g_iisTraceEnabled) (\<lambda>g.
     andThen (whenever (g = -1)
       (let v = getenv te ''MODSEC_IIS_TRACE''
        in modify (\<lambda>s. s\<lparr>g_iisTraceEnabled :=
             (if v \<noteq> None \<and> v \<noteq> Some '''' \<and> v \<noteq> Some ''0'' then 1 else 0)\<rparr>)))
       (gets (\<lambda>s. g_iisTraceEnabled s = 1)))"

definition trace_decided :: "trace_host \<Rightarrow> bool option" where
  "trace_decided s = (if g_iisTraceEnabled s = -1 then None else Some (g_iisTraceEnabled s = 1))"

text \<open>What the environment decides, and the run of the switch.\<close>

definition wants_trace :: "trace_env \<Rightarrow> bool" where
  "wants_trace te \<longleftrightarrow> getenv te ''MODSEC_IIS_TRACE'' \<notin> {None, Some '''', Some ''0''}"

lemma run_IisTraceEnabled:
  "IisTraceEnabled te s =
     (if g_iisTraceEnabled s = -1
      then (Ok (wants_trace te), s\<lparr>g_iisTraceEnabled := (if wants_trace te then 1 else 0)\<rparr>)
      else (Ok (g_iisTraceEnabled s = 1), s))"
  by (cases "g_iisTraceEnabled s = -1")
    (simp_all add: IisTraceEnabled_def wants_trace_def prog_defs Let_def)

interpretation trace_switch: reliable_memo trace_decided "\<lambda>te. result_of (IisTraceEnabled te)"
  by unfold_locales (auto simp: trace_decided_def run_IisTraceEnabled result_of_def)

section \<open>The line\<close>

text \<open>\<open>%0kd\<close> of a number that is not negative: at least \<open>k\<close> digits, padded with zeros.\<close>

definition padded :: "nat \<Rightarrow> nat \<Rightarrow> string" where
  "padded k n = replicate (k - length (to_dec n)) (CHR ''0'') @ to_dec n"

definition trace_stamp :: "systemtime \<Rightarrow> string" where
  "trace_stamp st =
     padded 4 (wYear st) @ ''-'' @ padded 2 (wMonth st) @ ''-'' @ padded 2 (wDay st) @ '' '' @
     padded 2 (wHour st) @ '':'' @ padded 2 (wMinute st) @ '':'' @ padded 2 (wSecond st) @ ''.'' @
     padded 3 (wMilliseconds st) @ '' ''"

definition kPaths :: "string list" where
  "kPaths = [''C:/inetpub/logs/modsec-audit/modsecurityiis-trace.log'',
     ''C:/inetpub/logs/modsec-crs-audit/modsecurityiis-trace.log'',
     ''C:/inetpub/modsec/modsecurityiis-trace.log'']"

text \<open>The text is what \<open>vfprintf\<close> makes of the format and its arguments.\<close>

definition IisTrace :: "trace_env \<Rightarrow> string \<Rightarrow> (trace_host, unit) prog" where
  "IisTrace te msg =
     bnd (IisTraceEnabled te) (\<lambda>on.
       if \<not> on then ret ()
       else (case find (fopen_append te) kPaths of
               None \<Rightarrow> ret ()
             | Some path \<Rightarrow>
                 modify (\<lambda>s. s\<lparr>trace_files := (trace_files s)(path :=
                   trace_files s path @ trace_stamp (GetLocalTime te) @ msg @ [CHR 0x0A])\<rparr>)))"

section \<open>Reading a line back\<close>

definition wall_clock :: "systemtime \<Rightarrow> bool" where
  "wall_clock st \<longleftrightarrow> wYear st < 10000 \<and> wMonth st < 100 \<and> wDay st < 100 \<and> wHour st < 100 \<and>
     wMinute st < 100 \<and> wSecond st < 100 \<and> wMilliseconds st < 1000"

definition field :: "nat \<Rightarrow> nat \<Rightarrow> string \<Rightarrow> nat" where
  "field i k s = digits_value (take k (drop i s))"

definition read_stamp :: "string \<Rightarrow> systemtime \<times> string" where
  "read_stamp s =
     (\<lparr> wYear = field 0 4 s, wMonth = field 5 2 s, wDay = field 8 2 s, wHour = field 11 2 s,
        wMinute = field 14 2 s, wSecond = field 17 2 s, wMilliseconds = field 20 3 s \<rparr>,
      drop 24 s)"

lemma digits_value_zeros: "digits_value (replicate j (CHR ''0'') @ ds) = digits_value ds"
proof -
  have "foldl (\<lambda>a c. 10 * a + digit_value c) 0 (replicate j (CHR ''0'')) = 0"
    by (induction j) (simp_all add: digit_value_def)
  then show ?thesis by (simp add: digits_value_def)
qed

lemma padded_length: "0 < k \<Longrightarrow> n < 10 ^ k \<Longrightarrow> length (padded k n) = k"
  using to_dec_length[of n k] by (simp add: padded_def)

lemma padded_value: "digits_value (padded k n) = n"
  by (simp add: padded_def digits_value_zeros digits_value_to_dec)

lemma field_padded:
  "length xs = i \<Longrightarrow> 0 < k \<Longrightarrow> n < 10 ^ k \<Longrightarrow> field i k (xs @ padded k n @ ys) = n"
  by (simp add: field_def padded_length padded_value)

lemma read_stamp_stamp:
  assumes "wall_clock st"
  shows "read_stamp (trace_stamp st @ s) = (st, s)"
proof -
  obtain y mo d h mi se ms where st: "st = \<lparr> wYear = y, wMonth = mo, wDay = d, wHour = h,
      wMinute = mi, wSecond = se, wMilliseconds = ms \<rparr>" by (cases st)
  with assms have small: "y < 10 ^ 4" "mo < 10 ^ 2" "d < 10 ^ 2" "h < 10 ^ 2" "mi < 10 ^ 2"
      "se < 10 ^ 2" "ms < 10 ^ 3"
    by (simp_all add: wall_clock_def)
  note len = padded_length[OF _ small(1)] padded_length[OF _ small(2)] padded_length[OF _ small(3)]
    padded_length[OF _ small(4)] padded_length[OF _ small(5)] padded_length[OF _ small(6)]
    padded_length[OF _ small(7)]
  show ?thesis
    by (simp add: read_stamp_def trace_stamp_def field_def len padded_value st)
qed

section \<open>Properties\<close>

text \<open>C38: An enabled trace appends exactly one line to the first of the three files that opens and
  touches no other: the line reads back as the local time and the text. A trace that is not
  enabled, or for which no file opens, writes nothing; it never throws. Whether it is enabled is
  decided by the environment variable at the first use and never again.\<close>

theorem trace_line_exact:
  assumes "wall_clock (GetLocalTime te)" and "IisTrace te msg s = (r, s')"
  shows "r = Ok () \<and> trace_decided s' = Some (case trace_decided s of
             Some on \<Rightarrow> on
           | None \<Rightarrow> getenv te ''MODSEC_IIS_TRACE'' \<notin> {None, Some '''', Some ''0''}) \<and>
         (if trace_decided s' = Some True \<and> (\<exists>p \<in> set kPaths. fopen_append te p)
          then \<exists>i line. i < 3 \<and> fopen_append te (kPaths ! i) \<and>
                 (\<forall>j < i. \<not> fopen_append te (kPaths ! j)) \<and>
                 trace_files s' = (trace_files s)(kPaths ! i := trace_files s (kPaths ! i) @ line @ [CHR 0x0A]) \<and>
                 read_stamp line = (GetLocalTime te, msg)
          else trace_files s' = trace_files s)"
proof -
  let ?on = "case trace_decided s of Some on \<Rightarrow> on
    | None \<Rightarrow> getenv te ''MODSEC_IIS_TRACE'' \<notin> {None, Some '''', Some ''0''}"
  obtain s1 where enabled: "IisTraceEnabled te s = (Ok ?on, s1)" "trace_decided s1 = Some ?on"
      "trace_files s1 = trace_files s"
    by (cases "g_iisTraceEnabled s = -1") (auto simp: run_IisTraceEnabled trace_decided_def wants_trace_def)
  show ?thesis
  proof (cases "?on \<and> (\<exists>p \<in> set kPaths. fopen_append te p)")
    case True
    then obtain path where path: "find (fopen_append te) kPaths = Some path"
      by (cases "find (fopen_append te) kPaths") (auto simp: find_None_iff)
    then obtain i where i: "i < length kPaths" "fopen_append te (kPaths ! i)" "path = kPaths ! i"
        "\<forall>j < i. \<not> fopen_append te (kPaths ! j)"
      by (auto simp: find_Some_iff)
    let ?line = "trace_stamp (GetLocalTime te) @ msg"
    have run: "IisTrace te msg s = (Ok (), s1\<lparr>trace_files := (trace_files s1)(path :=
        trace_files s1 path @ ?line @ [CHR 0x0A])\<rparr>)"
      using enabled(1) True path by (simp add: IisTrace_def prog_defs)
    with assms(2) have res: "r = Ok ()" "trace_decided s' = Some ?on"
      "trace_files s' = (trace_files s)(kPaths ! i := trace_files s (kPaths ! i) @ ?line @ [CHR 0x0A])"
      using enabled(2,3) i(3) by (auto simp: trace_decided_def)
    have "i < 3" using i(1) by (simp add: kPaths_def)
    with i res(3) read_stamp_stamp[OF assms(1)] have
      "\<exists>i line. i < 3 \<and> fopen_append te (kPaths ! i) \<and> (\<forall>j < i. \<not> fopen_append te (kPaths ! j)) \<and>
         trace_files s' = (trace_files s)(kPaths ! i := trace_files s (kPaths ! i) @ line @ [CHR 0x0A]) \<and>
         read_stamp line = (GetLocalTime te, msg)"
      by (intro exI[of _ i] exI[of _ ?line]) simp
    with True res show ?thesis by simp
  next
    case False
    then have "\<not> ?on \<or> find (fopen_append te) kPaths = None" by (auto simp: find_None_iff)
    then have "IisTrace te msg s = (Ok (), s1)"
      by (elim disjE) (simp_all add: IisTrace_def enabled(1) bnd_def ret_def)
    with assms(2) enabled(2,3) False show ?thesis by auto
  qed
qed

definition trace_env_on :: trace_env where
  "trace_env_on = \<lparr> getenv = (\<lambda>_. Some ''1''), fopen_append = (\<lambda>p. p \<noteq> kPaths ! 0),
     GetLocalTime = \<lparr> wYear = 2024, wMonth = 3, wDay = 7, wHour = 9, wMinute = 0, wSecond = 59,
       wMilliseconds = 5 \<rparr> \<rparr>"

theorem trace_line_exact_witness:
  "\<exists>s' line. IisTrace trace_env_on ''hello'' \<lparr> g_iisTraceEnabled = -1, trace_files = (\<lambda>_. '''') \<rparr> = (Ok (), s')
     \<and> trace_files s' (kPaths ! 1) = line @ [CHR 0x0A]
     \<and> read_stamp line = (GetLocalTime trace_env_on, ''hello'')"
proof -
  let ?s = "\<lparr> g_iisTraceEnabled = -1, trace_files = (\<lambda>_. '''') \<rparr>"
  obtain r s' where run: "IisTrace trace_env_on ''hello'' ?s = (r, s')" by fastforce
  have opens: "fopen_append trace_env_on (kPaths ! i) \<longleftrightarrow> i \<noteq> 0" if "i < 3" for i
    using that by (auto simp: trace_env_on_def kPaths_def nth_Cons split: nat.splits)
  have mem: "kPaths ! 1 \<in> set kPaths" by (simp add: kPaths_def)
  have "wall_clock (GetLocalTime trace_env_on)" by (simp add: wall_clock_def trace_env_on_def)
  from trace_line_exact[OF this run] have r: "r = Ok ()"
    and on: "trace_decided s' = Some True"
    and w: "trace_decided s' = Some True \<and> (\<exists>p \<in> set kPaths. fopen_append trace_env_on p) \<Longrightarrow>
      \<exists>i line. i < 3 \<and> fopen_append trace_env_on (kPaths ! i) \<and>
        (\<forall>j < i. \<not> fopen_append trace_env_on (kPaths ! j)) \<and>
        trace_files s' = (trace_files ?s)(kPaths ! i := trace_files ?s (kPaths ! i) @ line @ [CHR 0x0A]) \<and>
        read_stamp line = (GetLocalTime trace_env_on, ''hello'')"
    by (simp_all add: trace_decided_def trace_env_on_def split: if_splits)
  have "\<exists>p \<in> set kPaths. fopen_append trace_env_on p" using opens[of 1] mem by auto
  with w on obtain i line where i: "i < 3" "fopen_append trace_env_on (kPaths ! i)"
      "\<forall>j < i. \<not> fopen_append trace_env_on (kPaths ! j)"
      "trace_files s' = (trace_files ?s)(kPaths ! i := trace_files ?s (kPaths ! i) @ line @ [CHR 0x0A])"
      "read_stamp line = (GetLocalTime trace_env_on, ''hello'')" by auto
  have "i = 1"
  proof (rule ccontr)
    assume "i \<noteq> 1"
    with i(1,2) opens[of i] have "1 < i" by auto
    with i(3) opens[of 1] show False by auto
  qed
  with i run r show ?thesis by auto
qed

end
