(* ===== verification/Registration.thy ===== *)
theory Registration
  imports Connector Debug_Trace
begin

text \<open>
  Registration and object lifetimes: \<open>RegisterModule\<close> and the constructor, destructor,
  \<open>Dispose\<close> and \<open>WriteEventViewerLog\<close> of CMyHttpModule in \<open>src/ModSecurityIIS.cpp\<close>, and the
  factory of \<open>src/mymodulefactory.h\<close> with its critical section. Objects live on an explicit
  heap, so that a use after \<open>delete\<close> is undefined behaviour, and the threads that ask the
  factory for the module are a step relation over the pieces of \<open>GetHttpModule\<close>.
\<close>

section \<open>State and environment\<close>

record module_obj =
  m_hEventLog :: bool

record factory_obj =
  m_pModule :: "nat option"
  m_csLock :: "nat option"

text \<open>\<open>m_csLock\<close> is the thread inside the critical section, if any.\<close>

datatype host_event =
  FactoryNew nat | FactoryFree nat | CsInit nat | CsDelete nat
| ModuleNew nat | ModuleFree nat
| SourceOpened | SourceClosed | SourceReport string log_category
| NotificationsSet nat DWORD DWORD HRESULT | PrioritySet DWORD string HRESULT

record host =
  h_world :: world
  h_trace :: trace_host
  h_factories :: "nat \<rightharpoonup> factory_obj"
  h_modules :: "nat \<rightharpoonup> module_obj"
  h_next :: nat
  g_pModuleContext :: "nat option"
  g_pHttpServer :: bool
  reg_factory :: "nat option"
  h_owned :: "nat option"
  h_evs :: "host_event list"

text \<open>
  \<open>reg_factory\<close> is the local \<open>std::unique_ptr\<close> of \<open>RegisterModule\<close>, \<open>h_owned\<close> the factory IIS
  holds after a successful \<open>SetRequestNotifications\<close>. The environment: the engine's, the debug
  trace's, whether a handle to the event source is given and a report accepted, whether a
  \<open>nothrow\<close> allocation yields NULL, and the methods of the registration object.
\<close>

record host_env =
  h_env :: env
  h_trace_env :: trace_env
  RegisterEventSourceA :: "host_event list \<Rightarrow> bool"
  ReportEventA :: "host_event list \<Rightarrow> bool"
  no_memory :: "host_event list \<Rightarrow> bool"
  GetId :: nat
  SetRequestNotifications :: "host_event list \<Rightarrow> exn + HRESULT"
  SetPriorityForRequestNotification :: "host_event list \<Rightarrow> DWORD \<Rightarrow> exn + HRESULT"
  MODSECURITYIIS_VERSION :: string

type_synonym 'a hprog = "(host, 'a) prog"

definition RQ_BEGIN_REQUEST :: DWORD where "RQ_BEGIN_REQUEST = 0x00000001"

definition RQ_END_REQUEST :: DWORD where "RQ_END_REQUEST = 0x00000800"

definition RQ_SEND_RESPONSE :: DWORD where "RQ_SEND_RESPONSE = 0x20000000"

abbreviation PRIORITY_ALIAS_FIRST :: string where "PRIORITY_ALIAS_FIRST \<equiv> ''FIRST''"

abbreviation PRIORITY_ALIAS_LAST :: string where "PRIORITY_ALIAS_LAST \<equiv> ''LAST''"

definition hemit :: "host_event \<Rightarrow> unit hprog" where
  "hemit e = modify (\<lambda>h. h\<lparr>h_evs := h_evs h @ [e]\<rparr>)"

definition in_world :: "'a wprog \<Rightarrow> 'a hprog" where
  "in_world m h = (case m (h_world h) of (r, w) \<Rightarrow> (r, h\<lparr>h_world := w\<rparr>))"

definition in_trace :: "(trace_host, 'a) prog \<Rightarrow> 'a hprog" where
  "in_trace m h = (case m (h_trace h) of (r, t) \<Rightarrow> (r, h\<lparr>h_trace := t\<rparr>))"

definition call_or_throw :: "exn + HRESULT \<Rightarrow> (HRESULT \<Rightarrow> unit hprog) \<Rightarrow> HRESULT hprog" where
  "call_or_throw res k = (case res of Inl e \<Rightarrow> raise e | Inr hr \<Rightarrow> andThen (k hr) (ret hr))"

definition the_factory :: "nat \<Rightarrow> factory_obj hprog" where
  "the_factory f h = (case h_factories h f of None \<Rightarrow> undef h | Some fo \<Rightarrow> ret fo h)"

definition set_factory :: "nat \<Rightarrow> (factory_obj \<Rightarrow> factory_obj) \<Rightarrow> unit hprog" where
  "set_factory f g = bnd (the_factory f) (\<lambda>fo.
     modify (\<lambda>h. h\<lparr>h_factories := (h_factories h)(f \<mapsto> g fo)\<rparr>))"

definition the_module :: "nat \<Rightarrow> module_obj hprog" where
  "the_module m h = (case h_modules h m of None \<Rightarrow> undef h | Some mo \<Rightarrow> ret mo h)"

section \<open>The module object\<close>

definition CMyHttpModule :: "host_env \<Rightarrow> module_obj hprog" where
  "CMyHttpModule he =
     bnd (gets (\<lambda>h. RegisterEventSourceA he (h_evs h))) (\<lambda>source.
     andThen (whenever source (hemit SourceOpened)) (
     andThen (in_world (modify (\<lambda>w. w\<lparr>g_hEventLog := source\<rparr>))) (
     bnd (in_world (engine (h_env he))) (\<lambda>_.
       ret \<lparr> m_hEventLog = source \<rparr>))))"

definition destroy_CMyHttpModule :: "nat \<Rightarrow> unit hprog" where
  "destroy_CMyHttpModule m =
     bnd (the_module m) (\<lambda>mo.
       whenever (m_hEventLog mo)
         (andThen (hemit SourceClosed)
           (andThen (modify (\<lambda>h. h\<lparr>h_modules := (h_modules h)(m \<mapsto> mo\<lparr>m_hEventLog := False\<rparr>)\<rparr>))
             (in_world (modify (\<lambda>w. w\<lparr>g_hEventLog := False\<rparr>))))))"

definition Dispose :: "nat \<Rightarrow> unit hprog" where
  "Dispose m = bnd (the_module m) (\<lambda>_. ret ())"

definition module_WriteEventViewerLog ::
  "host_env \<Rightarrow> nat \<Rightarrow> string option \<Rightarrow> log_category \<Rightarrow> bool hprog" where
  "module_WriteEventViewerLog he m szNotification category =
     bnd (the_module m) (\<lambda>mo.
       case szNotification of
         None \<Rightarrow> ret False
       | Some s \<Rightarrow>
           if m_hEventLog mo
           then bnd (gets (\<lambda>h. ReportEventA he (h_evs h))) (\<lambda>reported.
                andThen (hemit (SourceReport s category)) (ret reported))
           else ret False)"

text \<open>\<open>new (std::nothrow) CMyHttpModule()\<close>: NULL when there is no memory for the object; an
  exception of the constructor passes through.\<close>

definition new_module :: "host_env \<Rightarrow> nat option hprog" where
  "new_module he =
     bnd (gets (\<lambda>h. no_memory he (h_evs h))) (\<lambda>null.
       if null then ret None
       else bnd (CMyHttpModule he) (\<lambda>mo.
            bnd (gets h_next) (\<lambda>m.
            andThen (modify (\<lambda>h. h\<lparr>h_modules := (h_modules h)(m \<mapsto> mo), h_next := Suc m\<rparr>)) (
            andThen (hemit (ModuleNew m)) (ret (Some m))))))"

definition delete_module :: "nat \<Rightarrow> unit hprog" where
  "delete_module m =
     andThen (destroy_CMyHttpModule m) (
     andThen (modify (\<lambda>h. h\<lparr>h_modules := (h_modules h)(m := None)\<rparr>))
       (hemit (ModuleFree m)))"

section \<open>The factory\<close>

definition new_factory :: "host_env \<Rightarrow> nat option hprog" where
  "new_factory he =
     bnd (gets (\<lambda>h. no_memory he (h_evs h))) (\<lambda>null.
       if null then ret None
       else bnd (gets h_next) (\<lambda>f.
            andThen (hemit (CsInit f)) (
            andThen (modify (\<lambda>h. h\<lparr>h_factories := (h_factories h)(f \<mapsto>
                \<lparr> m_pModule = None, m_csLock = None \<rparr>), h_next := Suc f\<rparr>)) (
            andThen (hemit (FactoryNew f)) (ret (Some f))))))"

definition delete_factory :: "nat \<Rightarrow> unit hprog" where
  "delete_factory f =
     bnd (the_factory f) (\<lambda>_.
     andThen (modify (\<lambda>h. h\<lparr>h_factories := (h_factories h)(f := None)\<rparr>))
       (hemit (FactoryFree f)))"

text \<open>
  The pieces of \<open>GetHttpModule\<close>. \<open>gm_enter\<close> answers \<open>False\<close> when another thread is inside:
  the call then waits. \<open>gm_locked\<close> is what runs inside, up to the \<open>LeaveCriticalSection\<close>.
\<close>

definition gm_enter :: "nat \<Rightarrow> nat \<Rightarrow> bool hprog" where
  "gm_enter t f =
     bnd (the_factory f) (\<lambda>fo.
       if m_csLock fo \<noteq> None \<and> m_csLock fo \<noteq> Some t then ret False
       else andThen (set_factory f (\<lambda>fo. fo\<lparr>m_csLock := Some t\<rparr>)) (ret True))"

definition gm_create :: "host_env \<Rightarrow> nat \<Rightarrow> HRESULT hprog" where
  "gm_create he f =
     bnd (the_factory f) (\<lambda>fo.
       if m_pModule fo = None
       then bnd (new_module he) (\<lambda>p.
            andThen (set_factory f (\<lambda>fo. fo\<lparr>m_pModule := p\<rparr>))
              (ret (if p = None then HRESULT_FROM_WIN32 ERROR_NOT_ENOUGH_MEMORY else S_OK)))
       else ret S_OK)"

definition gm_locked :: "host_env \<Rightarrow> nat \<Rightarrow> HRESULT hprog" where
  "gm_locked he f =
     bnd (gm_create he f) (\<lambda>hr.
     andThen (set_factory f (\<lambda>fo. fo\<lparr>m_csLock := None\<rparr>)) (ret hr))"

definition gm_read :: "nat \<Rightarrow> nat option hprog" where
  "gm_read f = bnd (the_factory f) (\<lambda>fo. ret (m_pModule fo))"

text \<open>The whole call of one thread: its result and what it stored through \<open>ppModule\<close>; \<open>None\<close>
  when it waits for the critical section.\<close>

definition GetHttpModule ::
  "host_env \<Rightarrow> nat \<Rightarrow> nat \<Rightarrow> bool \<Rightarrow> (HRESULT \<times> nat option) option hprog" where
  "GetHttpModule he t f ppModule =
     (if \<not> ppModule then ret (Some (HRESULT_FROM_WIN32 ERROR_INVALID_PARAMETER, None))
      else bnd (gm_enter t f) (\<lambda>entered.
           if \<not> entered then ret None
           else bnd (gm_locked he f) (\<lambda>hr.
                if hr \<noteq> S_OK then ret (Some (hr, None))
                else bnd (gm_read f) (\<lambda>p. ret (Some (S_OK, p))))))"

definition Terminate :: "nat \<Rightarrow> unit hprog" where
  "Terminate f =
     bnd (the_factory f) (\<lambda>fo.
     andThen (case m_pModule fo of
                None \<Rightarrow> ret ()
              | Some m \<Rightarrow> andThen (delete_module m)
                  (set_factory f (\<lambda>fo. fo\<lparr>m_pModule := None\<rparr>))) (
     andThen (hemit (CsDelete f)) (delete_factory f)))"

section \<open>RegisterModule\<close>

text \<open>\<open>%08x\<close> of a 32-bit value.\<close>

definition hex_digit :: "nat \<Rightarrow> char" where
  "hex_digit d = (if d < 10 then char_of (48 + d) else char_of (87 + d))"

definition hex8 :: "DWORD \<Rightarrow> string" where
  "hex8 x = map (\<lambda>i. hex_digit (unat (drop_bit (4 * i) x AND 0xF))) [7, 6, 5, 4, 3, 2, 1, 0]"

definition announce_version :: "host_env \<Rightarrow> unit hprog" where
  "announce_version he =
     bnd (gets (\<lambda>h. RegisterEventSourceA he (h_evs h))) (\<lambda>source.
       whenever source
         (andThen (hemit SourceOpened)
           (andThen (hemit (SourceReport
               (''ModSecurityIIS '' @ MODSECURITYIIS_VERSION he @ '' registered'')
               EVENTLOG_INFORMATION_TYPE))
             (hemit SourceClosed))))"

definition set_priority :: "host_env \<Rightarrow> DWORD \<Rightarrow> string \<Rightarrow> HRESULT hprog" where
  "set_priority he notification priority =
     bnd (gets (\<lambda>h. SetPriorityForRequestNotification he (h_evs h) notification)) (\<lambda>res.
       call_or_throw res (\<lambda>hr. hemit (PrioritySet notification priority hr)))"

definition register_factory :: "host_env \<Rightarrow> nat \<Rightarrow> HRESULT hprog" where
  "register_factory he f =
     bnd (gets (\<lambda>h. SetRequestNotifications he (h_evs h))) (\<lambda>res.
     bnd (call_or_throw res (\<lambda>hr.
        andThen (hemit (NotificationsSet f (RQ_BEGIN_REQUEST OR RQ_SEND_RESPONSE) RQ_END_REQUEST hr))
          (whenever (\<not> FAILED hr) (modify (\<lambda>h. h\<lparr>h_owned := Some f\<rparr>))))) (\<lambda>hr.
     andThen (in_trace (IisTrace (h_trace_env he)
        (''RegisterModule: SetRequestNotifications(BEGIN|SEND_RESPONSE, post=END_REQUEST) hr=0x''
           @ hex8 hr)))
       (ret hr)))"

definition register_body :: "host_env \<Rightarrow> HRESULT hprog" where
  "register_body he =
     bnd (new_factory he) (\<lambda>p.
     andThen (modify (\<lambda>h. h\<lparr>reg_factory := p\<rparr>))
       (case p of
          None \<Rightarrow> ret (HRESULT_FROM_WIN32 ERROR_NOT_ENOUGH_MEMORY)
        | Some f \<Rightarrow>
            bnd (register_factory he f) (\<lambda>hr.
              if FAILED hr then ret hr
              else andThen (modify (\<lambda>h. h\<lparr>reg_factory := None\<rparr>)) (
                   bnd (set_priority he RQ_BEGIN_REQUEST PRIORITY_ALIAS_FIRST) (\<lambda>hr.
                     if FAILED hr then ret hr
                     else bnd (set_priority he RQ_SEND_RESPONSE PRIORITY_ALIAS_LAST) (\<lambda>hr.
                       if FAILED hr then ret hr
                       else andThen (announce_version he) (ret S_OK)))))))"

definition scope_exit :: "unit hprog" where
  \<comment> \<open>the destructor of the \<open>std::unique_ptr\<close>\<close>
  "scope_exit = bnd (gets reg_factory) (\<lambda>p.
     case p of None \<Rightarrow> ret ()
     | Some f \<Rightarrow> andThen (delete_factory f) (modify (\<lambda>h. h\<lparr>reg_factory := None\<rparr>)))"

definition RegisterModule :: "host_env \<Rightarrow> bool \<Rightarrow> bool \<Rightarrow> HRESULT hprog" where
  "RegisterModule he pModuleInfo pHttpServer =
     (if \<not> pModuleInfo \<or> \<not> pHttpServer
      then ret (HRESULT_FROM_WIN32 ERROR_INVALID_PARAMETER)
      else andThen (modify (\<lambda>h. h\<lparr>g_pModuleContext := Some (GetId he), g_pHttpServer := True,
                                  reg_factory := None\<rparr>)) (
           bnd (try_catch (register_body he)
                 (\<lambda>e. andThen (in_world (ReportException ''RegisterModule'' e)) (ret E_UNEXPECTED)))
             (\<lambda>hr. andThen scope_exit (ret hr))))"

section \<open>Runs\<close>

lemma run_in_world [prog_simps]:
  "m (h_world h) = (r, w) \<Longrightarrow> in_world m h = (r, h\<lparr>h_world := w\<rparr>)"
  by (simp add: in_world_def)

lemma run_in_trace [prog_simps]:
  "m (h_trace h) = (r, t) \<Longrightarrow> in_trace m h = (r, h\<lparr>h_trace := t\<rparr>)"
  by (simp add: in_trace_def)

lemma run_hemit [prog_simps]: "hemit e h = (Ok (), h\<lparr>h_evs := h_evs h @ [e]\<rparr>)"
  by (simp add: hemit_def run_modify)

lemma run_the_factory [prog_simps]: "h_factories h f = Some fo \<Longrightarrow> the_factory f h = (Ok fo, h)"
  by (simp add: the_factory_def ret_def)

lemma run_set_factory [prog_simps]: "h_factories h f = Some fo \<Longrightarrow>
    set_factory f g h = (Ok (), h\<lparr>h_factories := (h_factories h)(f \<mapsto> g fo)\<rparr>)"
  by (simp add: set_factory_def prog_simps)

lemma run_the_module [prog_simps]: "h_modules h m = Some mo \<Longrightarrow> the_module m h = (Ok mo, h)"
  by (simp add: the_module_def ret_def)

lemma run_IisTrace: "\<exists>s'. IisTrace te msg s = (Ok (), s')"
  by (cases "find (fopen_append te) kPaths")
    (simp_all add: IisTrace_def run_IisTraceEnabled prog_defs)

lemma run_ReportException: "\<exists>w'. ReportException place e w = (Ok (), w')"
proof -
  obtain r w' where "ReportException place e w = (r, w')" by fastforce
  then show ?thesis
    unfolding ReportException_def Let_def by (auto dest: WriteEventViewerLog_frame(1))
qed

lemma run_register_factory:
  assumes "SetRequestNotifications he (h_evs h) = Inr hr"
  obtains t where "register_factory he f h = (Ok hr, h\<lparr>
      h_owned := (if FAILED hr then h_owned h else Some f), h_trace := t,
      h_evs := h_evs h @ [NotificationsSet f (RQ_BEGIN_REQUEST OR RQ_SEND_RESPONSE) RQ_END_REQUEST hr]\<rparr>)"
proof -
  let ?msg = "''RegisterModule: SetRequestNotifications(BEGIN|SEND_RESPONSE, post=END_REQUEST) hr=0x''
    @ hex8 hr"
  obtain t where t: "IisTrace (h_trace_env he) ?msg (h_trace h) = (Ok (), t)"
    using run_IisTrace by blast
  have "register_factory he f h = (Ok hr, h\<lparr>
      h_owned := (if FAILED hr then h_owned h else Some f), h_trace := t,
      h_evs := h_evs h @ [NotificationsSet f (RQ_BEGIN_REQUEST OR RQ_SEND_RESPONSE) RQ_END_REQUEST hr]\<rparr>)"
    using t assms by (simp add: register_factory_def call_or_throw_def prog_simps prog_defs
        hemit_def in_trace_def)
  then show thesis by (rule that)
qed

lemma run_set_priority:
  "set_priority he n p h = (case SetPriorityForRequestNotification he (h_evs h) n of
      Inl e \<Rightarrow> (Throw e, h)
    | Inr hr \<Rightarrow> (Ok hr, h\<lparr>h_evs := h_evs h @ [PrioritySet n p hr]\<rparr>))"
  by (simp add: set_priority_def call_or_throw_def prog_defs hemit_def split: sum.split)

definition version_events :: "host_env \<Rightarrow> host_event list \<Rightarrow> host_event list" where
  "version_events he evs =
     (if RegisterEventSourceA he evs
      then [SourceOpened, SourceReport (''ModSecurityIIS '' @ MODSECURITYIIS_VERSION he @ '' registered'')
              EVENTLOG_INFORMATION_TYPE, SourceClosed]
      else [])"

lemma run_announce_version:
  "announce_version he h = (Ok (), h\<lparr>h_evs := h_evs h @ version_events he (h_evs h)\<rparr>)"
  by (simp add: announce_version_def version_events_def prog_simps)

section \<open>Registering\<close>

text \<open>
  Where the factory ends up: no factory is left and IIS holds what it held, or IIS holds the
  new one and it is alive.
\<close>

definition nothing_registered :: "host \<Rightarrow> host \<Rightarrow> bool" where
  "nothing_registered h h' \<longleftrightarrow> h_factories h' = h_factories h \<and> h_owned h' = h_owned h"

definition factory_registered :: "host \<Rightarrow> host \<Rightarrow> bool" where
  "factory_registered h h' \<longleftrightarrow>
     h_factories h' = (h_factories h)(h_next h \<mapsto> \<lparr> m_pModule = None, m_csLock = None \<rparr>) \<and>
     h_owned h' = Some (h_next h)"

definition registration_events :: "host_env \<Rightarrow> nat \<Rightarrow> host_event list \<Rightarrow> host_event list \<Rightarrow> bool" where
  "registration_events he f evs es \<longleftrightarrow> (\<exists>hr1 hr2 hr3. \<not> FAILED hr1 \<and> \<not> FAILED hr2 \<and> \<not> FAILED hr3 \<and>
     (let calls = [CsInit f, FactoryNew f,
        NotificationsSet f (RQ_BEGIN_REQUEST OR RQ_SEND_RESPONSE) RQ_END_REQUEST hr1,
        PrioritySet RQ_BEGIN_REQUEST PRIORITY_ALIAS_FIRST hr2,
        PrioritySet RQ_SEND_RESPONSE PRIORITY_ALIAS_LAST hr3]
      in es = calls @ version_events he (evs @ calls)))"

text \<open>How the \<open>try\<close> block ends, by the point it reached.\<close>

inductive body_end :: "host_env \<Rightarrow> host \<Rightarrow> HRESULT outcome \<Rightarrow> host \<Rightarrow> bool" for he h where
  end_no_memory: "h' = h\<lparr>reg_factory := None\<rparr> \<Longrightarrow> hr \<noteq> S_OK \<Longrightarrow> body_end he h (Ok hr) h'"
| end_refused: "reg_factory h' = Some (h_next h) \<Longrightarrow> h_owned h' = h_owned h \<Longrightarrow>
     h_factories h' = (h_factories h)(h_next h \<mapsto> \<lparr> m_pModule = None, m_csLock = None \<rparr>) \<Longrightarrow>
     h_modules h' = h_modules h \<Longrightarrow> h_world h' = h_world h \<Longrightarrow>
     (\<exists>hr. r = Ok hr \<and> hr \<noteq> S_OK) \<or> (\<exists>e. r = Throw e) \<Longrightarrow> body_end he h r h'"
| end_registered: "reg_factory h' = None \<Longrightarrow> factory_registered h h' \<Longrightarrow>
     h_modules h' = h_modules h \<Longrightarrow> h_world h' = h_world h \<Longrightarrow>
     (\<exists>hr. r = Ok hr \<and> hr \<noteq> S_OK) \<or> (\<exists>e. r = Throw e) \<Longrightarrow> body_end he h r h'"
| end_success: "reg_factory h' = None \<Longrightarrow> factory_registered h h' \<Longrightarrow>
     h_modules h' = h_modules h \<Longrightarrow> h_world h' = h_world h \<Longrightarrow>
     h_evs h' = h_evs h @ es \<Longrightarrow> registration_events he (h_next h) (h_evs h) es \<Longrightarrow>
     body_end he h (Ok S_OK) h'"

inductive_cases body_endE: "body_end he h r h'"

lemma FAILED_not_S_OK: "FAILED hr \<Longrightarrow> hr \<noteq> S_OK"
  by auto

lemma not_enough_memory_fails: "HRESULT_FROM_WIN32 ERROR_NOT_ENOUGH_MEMORY \<noteq> S_OK"
  by (simp add: HRESULT_FROM_WIN32_def ERROR_NOT_ENOUGH_MEMORY_def S_OK_def)

lemma register_body_ends:
  assumes run: "register_body he h = (r, h')"
  shows "body_end he h r h'"
proof (cases "no_memory he (h_evs h)")
  case True
  with run show ?thesis
    by (auto simp: register_body_def new_factory_def prog_defs
        intro!: end_no_memory not_enough_memory_fails)
next
  case False
  let ?f = "h_next h"
  let ?h1 = "h\<lparr>h_factories := (h_factories h)(?f \<mapsto> \<lparr> m_pModule = None, m_csLock = None \<rparr>),
     h_next := Suc ?f, h_evs := h_evs h @ [CsInit ?f, FactoryNew ?f], reg_factory := Some ?f\<rparr>"
  let ?rest = "\<lambda>hr. if FAILED hr then ret hr
     else andThen (modify (\<lambda>h. h\<lparr>reg_factory := None\<rparr>)) (
       bnd (set_priority he RQ_BEGIN_REQUEST PRIORITY_ALIAS_FIRST) (\<lambda>hr.
         if FAILED hr then ret hr
         else bnd (set_priority he RQ_SEND_RESPONSE PRIORITY_ALIAS_LAST) (\<lambda>hr.
           if FAILED hr then ret hr else andThen (announce_version he) (ret S_OK))))"
  have body: "register_body he h = bnd (register_factory he ?f) ?rest ?h1"
    using False
    by (simp add: register_body_def new_factory_def bnd_def andThen_def ret_def gets_def modify_def hemit_def)
  show ?thesis
  proof (cases "SetRequestNotifications he (h_evs ?h1)")
    case (Inl e)
    then have "register_factory he ?f ?h1 = (Throw e, ?h1)"
      by (simp add: register_factory_def call_or_throw_def prog_defs)
    with run body have "r = Throw e" "h' = ?h1" by (simp_all add: run_bnd_Throw)
    then show ?thesis by (simp add: end_refused)
  next
    case (Inr hr)
    obtain t where reg: "register_factory he ?f ?h1 = (Ok hr, ?h1\<lparr>
        h_owned := (if FAILED hr then h_owned ?h1 else Some ?f), h_trace := t, h_evs := h_evs ?h1 @
        [NotificationsSet ?f (RQ_BEGIN_REQUEST OR RQ_SEND_RESPONSE) RQ_END_REQUEST hr]\<rparr>)"
      using Inr by (rule run_register_factory)
    show ?thesis
    proof (cases "FAILED hr")
      case True
      with run body reg have "r = Ok hr" "h_owned h' = h_owned h" "reg_factory h' = Some ?f"
        "h_factories h' = h_factories ?h1" "h_modules h' = h_modules h" "h_world h' = h_world h"
        by (auto simp: run_bnd_Ok ret_def)
      with True show ?thesis by (simp add: end_refused FAILED_not_S_OK)
    next
      case ok1: False
      let ?n = "NotificationsSet ?f (RQ_BEGIN_REQUEST OR RQ_SEND_RESPONSE) RQ_END_REQUEST hr"
      let ?h2 = "?h1\<lparr>h_owned := Some ?f, h_trace := t, h_evs := h_evs ?h1 @ [?n], reg_factory := None\<rparr>"
      have tail: "(r, h') = bnd (set_priority he RQ_BEGIN_REQUEST PRIORITY_ALIAS_FIRST) (\<lambda>hr.
         if FAILED hr then ret hr
         else bnd (set_priority he RQ_SEND_RESPONSE PRIORITY_ALIAS_LAST) (\<lambda>hr.
           if FAILED hr then ret hr else andThen (announce_version he) (ret S_OK))) ?h2"
        using run body reg ok1 by (simp add: run_bnd_Ok run_andThen_Ok run_modify)
      show ?thesis
      proof (cases "SetPriorityForRequestNotification he (h_evs ?h2) RQ_BEGIN_REQUEST")
        case (Inl e)
        with tail show ?thesis
          by (simp add: run_set_priority bnd_def end_registered factory_registered_def)
      next
        case hr2: (Inr hr2)
        let ?evs3 = "h_evs ?h2 @ [PrioritySet RQ_BEGIN_REQUEST PRIORITY_ALIAS_FIRST hr2]"
        show ?thesis
        proof (cases "FAILED hr2")
          case True
          with tail hr2 show ?thesis
            by (simp add: run_set_priority bnd_def ret_def end_registered factory_registered_def
                FAILED_not_S_OK)
        next
          case ok2: False
          show ?thesis
          proof (cases "SetPriorityForRequestNotification he ?evs3 RQ_SEND_RESPONSE")
            case (Inl e)
            with tail hr2 ok2 show ?thesis
              by (simp add: run_set_priority bnd_def end_registered factory_registered_def)
          next
            case hr3: (Inr hr3)
            show ?thesis
            proof (cases "FAILED hr3")
              case True
              with tail hr2 hr3 ok2 show ?thesis
                by (simp add: run_set_priority bnd_def ret_def end_registered
                    factory_registered_def FAILED_not_S_OK)
            next
              case ok3: False
              let ?calls = "[CsInit ?f, FactoryNew ?f, ?n,
                PrioritySet RQ_BEGIN_REQUEST PRIORITY_ALIAS_FIRST hr2,
                PrioritySet RQ_SEND_RESPONSE PRIORITY_ALIAS_LAST hr3]"
              have "r = Ok S_OK \<and> h' = ?h2\<lparr>h_evs := h_evs h @ ?calls @ version_events he (h_evs h @ ?calls)\<rparr>"
                using tail hr2 hr3 ok2 ok3
                by (simp add: run_set_priority bnd_def ret_def run_announce_version andThen_def)
              then show ?thesis
                using ok1 ok2 ok3 end_success[of h' h "?calls @ version_events he (h_evs h @ ?calls)" he]
                by (auto simp: factory_registered_def registration_events_def Let_def)
            qed
          qed
        qed
      qed
    qed
  qed
qed

lemma invalid_parameter_fails: "HRESULT_FROM_WIN32 ERROR_INVALID_PARAMETER \<noteq> S_OK"
  by (simp add: HRESULT_FROM_WIN32_def ERROR_INVALID_PARAMETER_def S_OK_def)

lemma E_UNEXPECTED_not_S_OK: "E_UNEXPECTED \<noteq> S_OK" "S_OK \<noteq> E_UNEXPECTED"
  by (simp_all add: E_UNEXPECTED_def S_OK_def)

lemma run_scope_exit_None: "reg_factory h = None \<Longrightarrow> scope_exit h = (Ok (), h)"
  by (simp add: scope_exit_def prog_defs)

lemma run_scope_exit_Some:
  "reg_factory h = Some f \<Longrightarrow> h_factories h f = Some fo \<Longrightarrow>
   scope_exit h = (Ok (), h\<lparr>h_factories := (h_factories h)(f := None),
     h_evs := h_evs h @ [FactoryFree f], reg_factory := None\<rparr>)"
  by (simp add: scope_exit_def delete_factory_def bnd_def andThen_def ret_def gets_def modify_def
      run_the_factory hemit_def)

text \<open>What \<open>RegisterModule\<close> leaves behind.\<close>

definition registration_result :: "host_env \<Rightarrow> host \<Rightarrow> HRESULT \<Rightarrow> host \<Rightarrow> bool" where
  "registration_result he h hr h' \<longleftrightarrow> h_modules h' = h_modules h \<and>
    (hr \<noteq> S_OK \<and> nothing_registered h h' \<or>
     factory_registered h h' \<and> (hr = S_OK \<longrightarrow> h_world h' = h_world h \<and>
       (\<exists>es. h_evs h' = h_evs h @ es \<and> registration_events he (h_next h) (h_evs h) es)))"

lemma RegisterModule_result:
  assumes "h_factories h (h_next h) = None" and "RegisterModule he pModuleInfo pHttpServer h = (r, h')"
  shows "\<exists>hr. r = Ok hr \<and> registration_result he h hr h'"
proof (cases "\<not> pModuleInfo \<or> \<not> pHttpServer")
  case True
  with assms(2) show ?thesis
    by (auto simp: RegisterModule_def ret_def registration_result_def nothing_registered_def invalid_parameter_fails)
next
  case False
  let ?h1 = "h\<lparr>g_pModuleContext := Some (GetId he), g_pHttpServer := True, reg_factory := None\<rparr>"
  obtain q h2 where body: "register_body he ?h1 = (q, h2)" by fastforce
  obtain hr w where caught: "try_catch (register_body he)
        (\<lambda>e. andThen (in_world (ReportException ''RegisterModule'' e)) (ret E_UNEXPECTED)) ?h1
      = (Ok hr, h2\<lparr>h_world := w\<rparr>)"
    and hr: "q = Ok hr \<and> w = h_world h2 \<or> (\<exists>e. q = Throw e) \<and> hr = E_UNEXPECTED"
  proof (cases q)
    case (Ok x)
    with body that[of x "h_world h2"] show thesis by (simp add: run_try_Ok)
  next
    case (Throw e)
    obtain w where "ReportException ''RegisterModule'' e (h_world h2) = (Ok (), w)"
      using run_ReportException by blast
    with Throw body that[of E_UNEXPECTED w] show thesis
      by (simp add: run_try_Throw run_andThen_Ok[OF run_in_world] run_ret)
  next
    case Undef
    with register_body_ends[OF body] show thesis by (auto elim: body_endE)
  qed
  let ?h3 = "h2\<lparr>h_world := w\<rparr>"
  have run: "RegisterModule he pModuleInfo pHttpServer h = bnd scope_exit (\<lambda>_. ret hr) ?h3"
    using False caught by (simp add: RegisterModule_def run_andThen_Ok run_modify run_bnd_Ok andThen_def)
  from register_body_ends[OF body] show ?thesis
  proof cases
    case end_no_memory
    with hr run assms show ?thesis
      by (auto simp: run_bnd_Ok[OF run_scope_exit_None] ret_def registration_result_def nothing_registered_def)
  next
    case end_refused
    then have ex: "scope_exit ?h3 = (Ok (), ?h3\<lparr>h_factories := (h_factories ?h3)(h_next h := None),
        h_evs := h_evs ?h3 @ [FactoryFree (h_next h)], reg_factory := None\<rparr>)"
      by (intro run_scope_exit_Some) simp_all
    with run assms(2) have "r = Ok hr" "h_modules h' = h_modules h2" "h_owned h' = h_owned h2"
      "h_factories h' = (h_factories h2)(h_next h := None)"
      by (auto simp: run_bnd_Ok ret_def)
    with end_refused hr assms(1) show ?thesis
      by (auto simp: registration_result_def nothing_registered_def E_UNEXPECTED_not_S_OK)
  next
    case end_registered
    then have "scope_exit ?h3 = (Ok (), ?h3)" by (simp add: run_scope_exit_None)
    with run assms(2) have "r = Ok hr" "h' = ?h3" by (auto simp: run_bnd_Ok ret_def)
    with end_registered hr show ?thesis
      by (auto simp: registration_result_def factory_registered_def E_UNEXPECTED_not_S_OK)
  next
    case (end_success es)
    then have "scope_exit ?h3 = (Ok (), ?h3)" by (simp add: run_scope_exit_None)
    with run assms(2) have "r = Ok hr" "h' = ?h3" by (auto simp: run_bnd_Ok ret_def)
    with end_success hr show ?thesis
      by (auto simp: registration_result_def factory_registered_def)
  qed
qed

definition quiet_host_env :: host_env where
  "quiet_host_env = \<lparr> h_env = quiet_env, h_trace_env = trace_env_on,
     RegisterEventSourceA = (\<lambda>_. True), ReportEventA = (\<lambda>_. True), no_memory = (\<lambda>_. False),
     GetId = 7, SetRequestNotifications = (\<lambda>_. Inr S_OK),
     SetPriorityForRequestNotification = (\<lambda>_ _. Inr S_OK),
     MODSECURITYIIS_VERSION = ''1.0.0'' \<rparr>"

definition start_host :: host where
  "start_host = \<lparr> h_world = start_world\<lparr>g_hEventLog := False\<rparr>,
     h_trace = \<lparr> g_iisTraceEnabled = -1, trace_files = (\<lambda>_. '''') \<rparr>,
     h_factories = Map.empty, h_modules = Map.empty, h_next = 0, g_pModuleContext = None,
     g_pHttpServer = False, reg_factory = None, h_owned = None, h_evs = [] \<rparr>"

lemma quiet_host_env_fields [simp]:
  "h_env quiet_host_env = quiet_env" "RegisterEventSourceA quiet_host_env = (\<lambda>_. True)"
  "ReportEventA quiet_host_env = (\<lambda>_. True)" "no_memory quiet_host_env = (\<lambda>_. False)"
  "SetRequestNotifications quiet_host_env = (\<lambda>_. Inr S_OK)"
  "SetPriorityForRequestNotification quiet_host_env = (\<lambda>_ _. Inr S_OK)"
  by (simp_all add: quiet_host_env_def)

lemma start_host_fields [simp]:
  "h_factories start_host = Map.empty" "h_modules start_host = Map.empty" "h_next start_host = 0"
  "reg_factory start_host = None" "h_owned start_host = None" "h_evs start_host = []"
  "\<not> g_hEventLog (h_world start_host)" "g_engine (h_world start_host) = None"
  "w_evs (h_world start_host) = []"
  by (simp_all add: start_host_def)

text \<open>C20: \<open>RegisterModule\<close> lets no exception out and never loses or double-frees its factory: either
  it fails and no factory is left, or IIS holds the one new factory, alive. When it returns S_OK
  the module is registered for RQ_BEGIN_REQUEST and RQ_SEND_RESPONSE and, after the event, for
  RQ_END_REQUEST, first among the request modules and last among the response ones, and the
  version is announced through an event source that is closed again.\<close>

theorem register_module_ownership:
  assumes "h_factories h (h_next h) = None" and "RegisterModule he pModuleInfo pHttpServer h = (r, h')"
  shows "\<exists>hr. r = Ok hr \<and> h_modules h' = h_modules h \<and>
    (hr \<noteq> S_OK \<and> nothing_registered h h' \<or>
     factory_registered h h' \<and> (hr = S_OK \<longrightarrow> (\<exists>es. h_evs h' = h_evs h @ es \<and>
       registration_events he (h_next h) (h_evs h) es)))"
  using RegisterModule_result[OF assms] unfolding registration_result_def by blast

theorem register_module_ownership_witness:
  "\<exists>h'. RegisterModule (quiet_host_env\<lparr>SetRequestNotifications := (\<lambda>_. Inr E_OUTOFMEMORY)\<rparr>) True True
      start_host = (Ok E_OUTOFMEMORY, h') \<and> nothing_registered start_host h'"
proof -
  let ?he = "quiet_host_env\<lparr>SetRequestNotifications := (\<lambda>_. Inr E_OUTOFMEMORY)\<rparr>"
  let ?h1 = "start_host\<lparr>g_pModuleContext := Some (GetId ?he), g_pHttpServer := True, h_factories := [0 \<mapsto>
     \<lparr> m_pModule = None, m_csLock = None \<rparr>], h_next := 1, h_evs := [CsInit 0, FactoryNew 0],
     reg_factory := Some 0\<rparr>"
  obtain t where reg: "register_factory ?he 0 ?h1 = (Ok E_OUTOFMEMORY, ?h1\<lparr>
      h_owned := (if FAILED E_OUTOFMEMORY then h_owned ?h1 else Some 0), h_trace := t, h_evs := h_evs ?h1 @
      [NotificationsSet 0 (RQ_BEGIN_REQUEST OR RQ_SEND_RESPONSE) RQ_END_REQUEST E_OUTOFMEMORY]\<rparr>)"
    by (rule run_register_factory[of ?he ?h1 E_OUTOFMEMORY 0]) (simp, rule that)
  obtain r h' where run: "RegisterModule ?he True True start_host = (r, h')" by fastforce
  with reg have "r = Ok E_OUTOFMEMORY" "h_owned h' = None"
    by (auto simp: RegisterModule_def register_body_def new_factory_def try_catch_def bnd_def andThen_def
        ret_def gets_def modify_def hemit_def scope_exit_def delete_factory_def the_factory_def)
  with register_module_ownership[OF _ run] run show ?thesis
    by (auto simp: factory_registered_def E_OUTOFMEMORY_def S_OK_def)
qed

section \<open>Threads that ask for the module\<close>

text \<open>
  Once the module is loaded, IIS threads call \<open>GetHttpModule\<close> concurrently. A thread is before
  a call, inside the critical section, past it, or back with the result code and pointer; an
  exception of the constructor leaves it where it was thrown, inside the section.
\<close>

datatype gm_pc =
  Gm_Start | Gm_Locked | Gm_Unlocked | Gm_Done HRESULT "nat option" | Gm_Thrown

record host_sys =
  sys_host :: host
  sys_pc :: "nat \<Rightarrow> gm_pc"

inductive host_step :: "host_env \<Rightarrow> nat \<Rightarrow> host_sys \<Rightarrow> host_sys \<Rightarrow> bool" for he f where
  step_enter: "sys_pc s t = Gm_Start \<Longrightarrow> gm_enter t f (sys_host s) = (Ok True, h) \<Longrightarrow>
     host_step he f s (s\<lparr>sys_host := h, sys_pc := (sys_pc s)(t := Gm_Locked)\<rparr>)"
| step_create: "sys_pc s t = Gm_Locked \<Longrightarrow> gm_locked he f (sys_host s) = (Ok hr, h) \<Longrightarrow>
     host_step he f s (s\<lparr>sys_host := h,
       sys_pc := (sys_pc s)(t := if hr = S_OK then Gm_Unlocked else Gm_Done hr None)\<rparr>)"
| step_throw: "sys_pc s t = Gm_Locked \<Longrightarrow> gm_locked he f (sys_host s) = (Throw e, h) \<Longrightarrow>
     host_step he f s (s\<lparr>sys_host := h, sys_pc := (sys_pc s)(t := Gm_Thrown)\<rparr>)"
| step_read: "sys_pc s t = Gm_Unlocked \<Longrightarrow> gm_read f (sys_host s) = (Ok p, h) \<Longrightarrow>
     host_step he f s (s\<lparr>sys_host := h, sys_pc := (sys_pc s)(t := Gm_Done S_OK p)\<rparr>)"
| step_again: "sys_pc s t = Gm_Done hr p \<Longrightarrow>
     host_step he f s (s\<lparr>sys_pc := (sys_pc s)(t := Gm_Start)\<rparr>)"
| step_dispose: "sys_pc s t = Gm_Done S_OK (Some m) \<Longrightarrow> Dispose m (sys_host s) = (Ok (), h) \<Longrightarrow>
     host_step he f s (s\<lparr>sys_host := h\<rparr>)"
| step_report: "sys_pc s t = Gm_Done S_OK (Some m) \<Longrightarrow>
     module_WriteEventViewerLog he m msg category (sys_host s) = (Ok b, h) \<Longrightarrow>
     host_step he f s (s\<lparr>sys_host := h\<rparr>)"

inductive_cases host_stepE: "host_step he f s t"

text \<open>A fresh process in which \<open>RegisterModule\<close> has succeeded and left IIS the factory \<open>f\<close>.\<close>

definition fresh_process :: "host \<Rightarrow> bool" where
  "fresh_process h \<longleftrightarrow> h_factories h = Map.empty \<and> h_modules h = Map.empty \<and> h_evs h = [] \<and>
     \<not> g_hEventLog (h_world h)"

definition loaded :: "host_env \<Rightarrow> nat \<Rightarrow> host_sys \<Rightarrow> bool" where
  "loaded he f s \<longleftrightarrow> (\<exists>h. fresh_process h \<and> RegisterModule he True True h = (Ok S_OK, sys_host s)) \<and>
     h_owned (sys_host s) = Some f \<and> (\<forall>t. sys_pc s t = Gm_Start)"

text \<open>Handles to the event source that are open.\<close>

primrec sources :: "host_event list \<Rightarrow> int" where
  "sources [] = 0"
| "sources (e # es) =
     (case e of SourceOpened \<Rightarrow> 1 | SourceClosed \<Rightarrow> -1 | _ \<Rightarrow> 0) + sources es"

lemma sources_append [simp]: "sources (xs @ ys) = sources xs + sources ys"
  by (induction xs) auto

definition host_inv :: "nat \<Rightarrow> host_sys \<Rightarrow> bool" where
  "host_inv f s \<longleftrightarrow> (\<exists>fo. h_factories (sys_host s) f = Some fo \<and>
     h_modules (sys_host s) = (case m_pModule fo of None \<Rightarrow> Map.empty
       | Some m \<Rightarrow> [m \<mapsto> \<lparr> m_hEventLog = g_hEventLog (h_world (sys_host s)) \<rparr>]) \<and>
     (\<forall>t. m_csLock fo = Some t \<longleftrightarrow> sys_pc s t \<in> {Gm_Locked, Gm_Thrown}) \<and>
     (\<forall>t. sys_pc s t = Gm_Unlocked \<longrightarrow> m_pModule fo \<noteq> None) \<and>
     (\<forall>t p. sys_pc s t = Gm_Done S_OK p \<longrightarrow> p \<noteq> None \<and> p = m_pModule fo) \<and>
     sources (h_evs (sys_host s)) = (if g_hEventLog (h_world (sys_host s)) then 1 else 0) \<and>
     (m_pModule fo = None \<and> (\<forall>t. sys_pc s t \<noteq> Gm_Thrown) \<longrightarrow>
        \<not> g_hEventLog (h_world (sys_host s))))"

lemma engine_frame:
  "engine env w = (r, w') \<Longrightarrow> g_hEventLog w' = g_hEventLog w \<and> r \<noteq> Undef"
  by (auto simp: engine_def heap_alloc_def prog_defs Let_def split: option.splits if_splits)

lemma run_constructor:
  assumes "CMyHttpModule he h = (r, h')"
  shows "\<exists>w. g_hEventLog w = RegisterEventSourceA he (h_evs h) \<and>
     h' = h\<lparr>h_world := w, h_evs := h_evs h @ (if RegisterEventSourceA he (h_evs h) then [SourceOpened] else [])\<rparr> \<and>
     (r = Ok \<lparr> m_hEventLog = RegisterEventSourceA he (h_evs h) \<rparr> \<or> (\<exists>e. r = Throw e))"
proof -
  let ?src = "RegisterEventSourceA he (h_evs h)"
  let ?h1 = "h\<lparr>h_world := (h_world h)\<lparr>g_hEventLog := ?src\<rparr>,
    h_evs := h_evs h @ (if ?src then [SourceOpened] else [])\<rparr>"
  obtain q w where eng: "engine (h_env he) ((h_world h)\<lparr>g_hEventLog := ?src\<rparr>) = (q, w)" by fastforce
  have "CMyHttpModule he h = bnd (in_world (engine (h_env he))) (\<lambda>_. ret \<lparr> m_hEventLog = ?src \<rparr>) ?h1"
    by (cases ?src) (simp_all add: CMyHttpModule_def bnd_def andThen_def gets_def whenever_def
        ret_def modify_def hemit_def in_world_def)
  moreover have "in_world (engine (h_env he)) ?h1 = (q, ?h1\<lparr>h_world := w\<rparr>)"
    using eng by (simp add: in_world_def)
  ultimately show ?thesis
    using assms engine_frame[OF eng] by (cases q) (auto simp: bnd_def ret_def intro!: exI[of _ w])
qed

lemma run_gm_locked:
  assumes fo: "h_factories h f = Some fo" and run: "gm_locked he f h = (r, h')"
  obtains
    (hit) "m_pModule fo \<noteq> None" "r = Ok S_OK"
      "h' = h\<lparr>h_factories := (h_factories h)(f \<mapsto> fo\<lparr>m_csLock := None\<rparr>)\<rparr>"
  | (no_memory) hr where "m_pModule fo = None" "r = Ok hr" "hr \<noteq> S_OK"
      "h' = h\<lparr>h_factories := (h_factories h)(f \<mapsto> fo\<lparr>m_csLock := None\<rparr>)\<rparr>"
  | (made) m where "m_pModule fo = None" "r = Ok S_OK"
      "h_factories h' f = Some \<lparr> m_pModule = Some m, m_csLock = None \<rparr>"
      "h_modules h' = (h_modules h)(m \<mapsto> \<lparr> m_hEventLog = g_hEventLog (h_world h') \<rparr>)"
      "sources (h_evs h') = sources (h_evs h) + (if g_hEventLog (h_world h') then 1 else 0)"
  | (threw) e where "m_pModule fo = None" "r = Throw e"
      "h_factories h' = h_factories h" "h_modules h' = h_modules h"
      "sources (h_evs h') = sources (h_evs h) + (if g_hEventLog (h_world h') then 1 else 0)"
proof (cases "m_pModule fo = None")
  case False
  with fo run have "r = Ok S_OK" "h' = h\<lparr>h_factories := (h_factories h)(f \<mapsto> fo\<lparr>m_csLock := None\<rparr>)\<rparr>"
    by (simp_all add: gm_locked_def gm_create_def the_factory_def set_factory_def prog_defs)
  with False show thesis by (rule hit)
next
  case True
  show thesis
  proof (cases "no_memory he (h_evs h)")
    case null: True
    have "fo\<lparr>m_pModule := None, m_csLock := None\<rparr> = fo\<lparr>m_csLock := None\<rparr>"
      using True by (cases fo) simp
    with null True fo run have "r = Ok (HRESULT_FROM_WIN32 ERROR_NOT_ENOUGH_MEMORY)"
      "h' = h\<lparr>h_factories := (h_factories h)(f \<mapsto> fo\<lparr>m_csLock := None\<rparr>)\<rparr>"
      by (auto simp: gm_locked_def gm_create_def new_module_def the_factory_def
          set_factory_def prog_defs)
    with True not_enough_memory_fails show thesis by (intro no_memory)
  next
    case memory: False
    obtain q h1 where cons: "CMyHttpModule he h = (q, h1)" by fastforce
    let ?src = "RegisterEventSourceA he (h_evs h)"
    from run_constructor[OF cons] obtain w where w: "g_hEventLog w = ?src"
      and h1: "h1 = h\<lparr>h_world := w, h_evs := h_evs h @ (if ?src then [SourceOpened] else [])\<rparr>"
      and q: "q = Ok \<lparr> m_hEventLog = ?src \<rparr> \<or> (\<exists>e. q = Throw e)" by blast
    from q show thesis
    proof (elim disjE exE)
      assume "q = Ok \<lparr> m_hEventLog = ?src \<rparr>"
      with cons h1 memory True fo run w have
        "r = Ok S_OK" "h_factories h' f = Some \<lparr> m_pModule = Some (h_next h), m_csLock = None \<rparr>"
        "h_world h' = w" "h_modules h' = (h_modules h)(h_next h \<mapsto> \<lparr> m_hEventLog = ?src \<rparr>)"
        "h_evs h' = h_evs h1 @ [ModuleNew (h_next h)]"
        by (auto simp: gm_locked_def gm_create_def new_module_def the_factory_def set_factory_def
            hemit_def prog_defs)
      with True w h1 show thesis by (intro made[of "h_next h"]) simp_all
    next
      fix e assume "q = Throw e"
      with cons memory True fo run have "r = Throw e" "h' = h1"
        by (simp_all add: gm_locked_def gm_create_def new_module_def the_factory_def prog_defs)
      with True w h1 show thesis by (intro threw[of e]) simp_all
    qed
  qed
qed

lemma host_inv_init: "loaded he f s \<Longrightarrow> host_inv f s"
proof -
  assume "loaded he f s"
  then obtain h where fresh: "fresh_process h"
    and run: "RegisterModule he True True h = (Ok S_OK, sys_host s)"
    and f: "h_owned (sys_host s) = Some f" and pcs: "\<forall>t. sys_pc s t = Gm_Start"
    unfolding loaded_def by blast
  from fresh have "h_factories h (h_next h) = None" by (simp add: fresh_process_def)
  with run obtain es where reg: "factory_registered h (sys_host s)" "h_modules (sys_host s) = h_modules h"
      "h_world (sys_host s) = h_world h" "h_evs (sys_host s) = h_evs h @ es"
      "registration_events he (h_next h) (h_evs h) es"
    using RegisterModule_result unfolding registration_result_def by blast
  have "sources es = 0"
    using reg(5) by (auto simp: registration_events_def Let_def version_events_def)
  with reg f fresh pcs show ?thesis
    by (simp add: host_inv_def factory_registered_def fresh_process_def)
qed

lemma module_report_frame:
  assumes "module_WriteEventViewerLog he m msg category h = (Ok b, h')"
  obtains es where "h' = h\<lparr>h_evs := h_evs h @ es\<rparr>" and "sources es = 0"
proof -
  have "\<exists>es. h' = h\<lparr>h_evs := h_evs h @ es\<rparr> \<and> sources es = 0"
    using assms
    by (cases "h_modules h m"; cases msg)
      (auto simp: module_WriteEventViewerLog_def the_module_def prog_defs hemit_def
        split: if_splits intro: exI[of _ "[]"])
  then show thesis using that by blast
qed

lemma run_gm_enter:
  assumes "h_factories h f = Some fo"
  shows "gm_enter t f h =
    (if m_csLock fo \<noteq> None \<and> m_csLock fo \<noteq> Some t then (Ok False, h)
     else (Ok True, h\<lparr>h_factories := (h_factories h)(f \<mapsto> fo\<lparr>m_csLock := Some t\<rparr>)\<rparr>))"
  using assms by (simp add: gm_enter_def the_factory_def set_factory_def prog_defs)

lemma host_inv_step:
  assumes inv: "host_inv f s" and step: "host_step he f s s'"
  shows "host_inv f s'"
proof -
  let ?h = "sys_host s"
  from inv obtain fo where fo: "h_factories ?h f = Some fo"
    and mods: "h_modules ?h = (case m_pModule fo of None \<Rightarrow> Map.empty
       | Some m \<Rightarrow> [m \<mapsto> \<lparr> m_hEventLog = g_hEventLog (h_world ?h) \<rparr>])"
    and lock: "\<And>t. m_csLock fo = Some t \<longleftrightarrow> sys_pc s t \<in> {Gm_Locked, Gm_Thrown}"
    and unlocked: "\<And>t. sys_pc s t = Gm_Unlocked \<Longrightarrow> m_pModule fo \<noteq> None"
    and fin: "\<And>t p. sys_pc s t = Gm_Done S_OK p \<Longrightarrow> p \<noteq> None \<and> p = m_pModule fo"
    and src: "sources (h_evs ?h) = (if g_hEventLog (h_world ?h) then 1 else 0)"
    and none: "m_pModule fo = None \<Longrightarrow> \<forall>t. sys_pc s t \<noteq> Gm_Thrown \<Longrightarrow> \<not> g_hEventLog (h_world ?h)"
    unfolding host_inv_def by blast
  from step show ?thesis
  proof cases
    case (step_enter t h)
    then have free: "m_csLock fo = None \<or> m_csLock fo = Some t"
      and h: "h = ?h\<lparr>h_factories := (h_factories ?h)(f \<mapsto> fo\<lparr>m_csLock := Some t\<rparr>)\<rparr>"
      by (auto simp: run_gm_enter[OF fo] split: if_splits)
    from free step_enter(2) lock[of t] have free': "m_csLock fo = None" by auto
    then have others: "sys_pc s u \<noteq> Gm_Locked \<and> sys_pc s u \<noteq> Gm_Thrown" for u using lock[of u] by auto
    show ?thesis
      unfolding host_inv_def
      using step_enter(1) h mods others unlocked fin src none by (auto split: option.split)
  next
    case (step_create t hr h)
    have mine: "m_csLock fo = Some t" using lock[of t] step_create(2) by simp
    have others: "sys_pc s u \<noteq> Gm_Locked \<and> sys_pc s u \<noteq> Gm_Thrown" if "u \<noteq> t" for u
      using lock[of u] mine that by auto
    have calm: "\<forall>u. sys_pc s u \<noteq> Gm_Thrown" using others step_create(2) gm_pc.distinct
      by (intro allI) (case_tac "u = t", simp_all)
    from fo step_create(3) show ?thesis
    proof (cases rule: run_gm_locked)
      case hit
      show ?thesis
        unfolding host_inv_def
        using step_create(1) hit mods others unlocked fin src none by (auto split: option.split)
    next
      case (no_memory hr')
      show ?thesis
        unfolding host_inv_def
        using step_create(1) no_memory mods others unlocked fin src none calm by (auto split: option.split)
    next
      case (made m)
      have "\<not> g_hEventLog (h_world ?h)" using none made(1) calm by simp
      moreover have "sys_pc s u \<noteq> Gm_Unlocked" "sys_pc s u \<noteq> Gm_Done S_OK p" for u p
        using unlocked[of u] fin[of u p] made(1) by auto
      ultimately show ?thesis
        unfolding host_inv_def using step_create(1) made mods others src by auto
    next
      case (threw e)
      then show ?thesis by simp
    qed
  next
    case (step_throw t e h)
    have mine: "m_csLock fo = Some t" using lock[of t] step_throw(2) by simp
    have others: "sys_pc s u \<noteq> Gm_Locked \<and> sys_pc s u \<noteq> Gm_Thrown" if "u \<noteq> t" for u
      using lock[of u] mine that by auto
    have calm: "\<forall>u. sys_pc s u \<noteq> Gm_Thrown" using others step_throw(2) gm_pc.distinct
      by (intro allI) (case_tac "u = t", simp_all)
    from fo step_throw(3) show ?thesis
    proof (cases rule: run_gm_locked)
      case (threw e')
      have "\<not> g_hEventLog (h_world ?h)" using none threw(1) calm by simp
      moreover have "sys_pc s u \<noteq> Gm_Unlocked" "sys_pc s u \<noteq> Gm_Done S_OK p" for u p
        using unlocked[of u] fin[of u p] threw(1) by auto
      ultimately show ?thesis
        unfolding host_inv_def using step_throw(1) threw mods others src fo mine by auto
    qed simp_all
  next
    case (step_read t p h)
    then have "p = m_pModule fo" "h = ?h" using fo
      by (simp_all add: gm_read_def the_factory_def prog_defs)
    then show ?thesis
      unfolding host_inv_def
      using step_read(1,2) fo mods lock unlocked fin src none by (auto split: option.split)
  next
    case (step_again t hr p)
    have "\<forall>u. sys_pc s u \<noteq> Gm_Thrown" if "\<forall>u. u \<noteq> t \<longrightarrow> sys_pc s u \<noteq> Gm_Thrown"
      using that step_again(2) by (intro allI) (case_tac "u = t", simp_all)
    with none have none': "m_pModule fo = None \<Longrightarrow> \<forall>u. u \<noteq> t \<longrightarrow> sys_pc s u \<noteq> Gm_Thrown \<Longrightarrow>
        \<not> g_hEventLog (h_world ?h)" by blast
    show ?thesis
      unfolding host_inv_def
      using step_again fo mods lock unlocked fin src none' by (auto split: option.split)
  next
    case (step_dispose t m h)
    then have "h = ?h" by (auto simp: Dispose_def the_module_def prog_defs split: option.splits)
    with step_dispose(1) inv show ?thesis by (simp add: host_inv_def)
  next
    case (step_report t m msg category b h)
    obtain es where h: "h = ?h\<lparr>h_evs := h_evs ?h @ es\<rparr>" "sources es = 0"
      using step_report(3) by (rule module_report_frame)
    show ?thesis
      unfolding host_inv_def
      using step_report(1) h fo mods lock unlocked fin src none by (auto split: option.split)
  qed
qed

interpretation module_host: inv_system "loaded he f" "host_step he f" "host_inv f" for he f
  by unfold_locales (rule host_inv_init, assumption, rule host_inv_step)

lemma host_inv_factory:
  assumes "reach (loaded he f) (host_step he f) s"
  obtains fo where "h_factories (sys_host s) f = Some fo"
    and "h_modules (sys_host s) = (case m_pModule fo of None \<Rightarrow> Map.empty
       | Some m \<Rightarrow> [m \<mapsto> \<lparr> m_hEventLog = g_hEventLog (h_world (sys_host s)) \<rparr>])"
    and "\<And>t. m_csLock fo = Some t \<longleftrightarrow> sys_pc s t \<in> {Gm_Locked, Gm_Thrown}"
    and "\<And>t. sys_pc s t = Gm_Unlocked \<Longrightarrow> m_pModule fo \<noteq> None"
    and "\<And>t p. sys_pc s t = Gm_Done S_OK p \<Longrightarrow> p \<noteq> None \<and> p = m_pModule fo"
    and "sources (h_evs (sys_host s)) = (if g_hEventLog (h_world (sys_host s)) then 1 else 0)"
    and "m_pModule fo = None \<Longrightarrow> \<forall>t. sys_pc s t \<noteq> Gm_Thrown \<Longrightarrow> \<not> g_hEventLog (h_world (sys_host s))"
  using module_host.invariant[OF assms] unfolding host_inv_def by blast

lemma constructor_succeeds:
  assumes "\<And>evs. \<not> bad_alloc (h_env he) evs" and "\<And>evs. \<not> no_memory he evs"
    and "h_factories h f = Some fo" and "gm_locked he f h = (r, h')"
  shows "r = Ok S_OK"
proof -
  have eng: "fst (engine (h_env he) w) \<noteq> Throw e" for w e
    using assms(1) by (simp add: engine_def heap_alloc_def prog_defs Let_def split: option.split)
  obtain q h1 where cons: "CMyHttpModule he h = (q, h1)" by fastforce
  have "q \<noteq> Throw e" for e
  proof
    assume "q = Throw e"
    with cons have "fst (engine (h_env he) ((h_world h)\<lparr>g_hEventLog := RegisterEventSourceA he (h_evs h)\<rparr>)) = Throw e"
      by (cases "RegisterEventSourceA he (h_evs h)")
        (simp_all add: CMyHttpModule_def bnd_def andThen_def gets_def whenever_def ret_def modify_def
          hemit_def in_world_def split: prod.splits outcome.splits)
    with eng show False by simp
  qed
  with run_constructor[OF cons] obtain mo where "q = Ok mo" and "h_factories h1 = h_factories h" by auto
  with cons assms show ?thesis
    by (cases "m_pModule fo")
      (auto simp: gm_locked_def gm_create_def new_module_def the_factory_def set_factory_def
        hemit_def prog_defs)
qed

text \<open>A thread that finds nobody inside completes its call, when there is memory.\<close>

lemma thread_gets_module:
  assumes r: "reach (loaded he f) (host_step he f) s" and start: "sys_pc s t = Gm_Start"
    and nobody: "\<And>u. sys_pc s u \<noteq> Gm_Locked \<and> sys_pc s u \<noteq> Gm_Thrown"
    and env: "\<And>evs. \<not> bad_alloc (h_env he) evs" "\<And>evs. \<not> no_memory he evs"
  obtains s' m where "reach (loaded he f) (host_step he f) s'"
    and "sys_pc s' = (sys_pc s)(t := Gm_Done S_OK (Some m))"
proof -
  obtain fo where fo: "h_factories (sys_host s) f = Some fo"
    and lock: "\<And>t. m_csLock fo = Some t \<longleftrightarrow> sys_pc s t \<in> {Gm_Locked, Gm_Thrown}"
    by (rule host_inv_factory[OF r]) (rule that)
  from lock nobody have "m_csLock fo = None" by (cases "m_csLock fo") auto
  let ?fo1 = "fo\<lparr>m_csLock := Some t\<rparr>"
  let ?h1 = "(sys_host s)\<lparr>h_factories := (h_factories (sys_host s))(f \<mapsto> ?fo1)\<rparr>"
  have "gm_enter t f (sys_host s) = (Ok True, ?h1)" and fo1: "h_factories ?h1 f = Some ?fo1"
    using \<open>m_csLock fo = None\<close> by (simp_all add: run_gm_enter[OF fo])
  with start have "host_step he f s (s\<lparr>sys_host := ?h1, sys_pc := (sys_pc s)(t := Gm_Locked)\<rparr>)"
    (is "host_step he f s ?s1") by (intro step_enter)
  with r have r1: "reach (loaded he f) (host_step he f) ?s1" by (rule reach_step)
  obtain q h2 where locked: "gm_locked he f ?h1 = (q, h2)" by fastforce
  with constructor_succeeds[OF env fo1] have locked: "gm_locked he f ?h1 = (Ok S_OK, h2)" by simp
  then have "host_step he f ?s1 (?s1\<lparr>sys_host := h2,
      sys_pc := (sys_pc ?s1)(t := if S_OK = S_OK then Gm_Unlocked else Gm_Done S_OK None)\<rparr>)"
    (is "host_step he f ?s1 ?s2") by (intro step_create) simp_all
  with r1 have r2: "reach (loaded he f) (host_step he f) ?s2" by (rule reach_step)
  obtain fo2 where fo2: "h_factories (sys_host ?s2) f = Some fo2"
    and un: "\<And>t. sys_pc ?s2 t = Gm_Unlocked \<Longrightarrow> m_pModule fo2 \<noteq> None"
    by (rule host_inv_factory[OF r2]) (rule that)
  from un[of t] obtain m where m: "m_pModule fo2 = Some m" by auto
  have "host_step he f ?s2 (?s2\<lparr>sys_host := h2, sys_pc := (sys_pc ?s2)(t := Gm_Done S_OK (Some m))\<rparr>)"
    using fo2 m by (intro step_read) (simp_all add: gm_read_def the_factory_def prog_defs)
  with r2 have "reach (loaded he f) (host_step he f)
      (?s2\<lparr>sys_host := h2, sys_pc := (sys_pc ?s2)(t := Gm_Done S_OK (Some m))\<rparr>)"
    by (rule reach_step)
  then show thesis by (rule that) simp
qed

lemma quiet_process_loads:
  assumes he: "SetRequestNotifications he = (\<lambda>_. Inr S_OK)" "no_memory he = (\<lambda>_. False)"
    "SetPriorityForRequestNotification he = (\<lambda>_ _. Inr S_OK)"
  obtains s where "loaded he 0 s" and "sys_pc s = (\<lambda>_. Gm_Start)"
    and "h_factories (sys_host s) 0 = Some \<lparr> m_pModule = None, m_csLock = None \<rparr>"
    and "h_modules (sys_host s) = Map.empty" and "h_world (sys_host s) = h_world start_host"
proof -
  let ?h = "start_host\<lparr>g_pModuleContext := Some (GetId he), g_pHttpServer := True, h_factories := [0 \<mapsto>
     \<lparr> m_pModule = None, m_csLock = None \<rparr>], h_next := 1, h_evs := [CsInit 0, FactoryNew 0],
     reg_factory := Some 0\<rparr>"
  obtain t where reg: "register_factory he 0 ?h = (Ok S_OK, ?h\<lparr>
      h_owned := (if FAILED S_OK then h_owned ?h else Some 0), h_trace := t, h_evs := h_evs ?h @
      [NotificationsSet 0 (RQ_BEGIN_REQUEST OR RQ_SEND_RESPONSE) RQ_END_REQUEST S_OK]\<rparr>)"
    by (rule run_register_factory[of he ?h S_OK 0]) (simp add: he, rule that)
  obtain r h' where run: "RegisterModule he True True start_host = (r, h')" by fastforce
  with reg he have "r = Ok S_OK" "h_owned h' = Some 0"
    by (auto simp: RegisterModule_def register_body_def new_factory_def try_catch_def bnd_def andThen_def
        ret_def gets_def modify_def hemit_def scope_exit_def run_set_priority run_announce_version)
  with run have "loaded he 0 \<lparr> sys_host = h', sys_pc = (\<lambda>_. Gm_Start) \<rparr>"
    by (auto simp: loaded_def fresh_process_def intro!: exI[of _ start_host])
  moreover have "h_factories h' 0 = Some \<lparr> m_pModule = None, m_csLock = None \<rparr>"
    "h_modules h' = Map.empty" "h_world h' = h_world start_host"
    using RegisterModule_result[OF _ run] \<open>r = Ok S_OK\<close>
    by (auto simp: registration_result_def factory_registered_def)
  ultimately show thesis
    by (intro that[of "\<lparr> sys_host = h', sys_pc = (\<lambda>_. Gm_Start) \<rparr>"]) simp_all
qed

section \<open>The singleton, its lock and its end\<close>

text \<open>C10: Whatever the interleaving of threads in \<open>GetHttpModule\<close>, no two threads are inside the
  critical section, every call that returned S_OK handed out the same module, and that module is
  alive, is the only one, and survives every \<open>Dispose\<close>; no call is undefined.\<close>

theorem module_singleton:
  assumes "reach (loaded he f) (host_step he f) s"
  shows "(sys_pc s t = Gm_Locked \<and> sys_pc s u = Gm_Locked \<longrightarrow> t = u) \<and>
    (sys_pc s t = Gm_Done S_OK p \<and> sys_pc s u = Gm_Done S_OK q \<longrightarrow>
       (\<exists>m. p = Some m \<and> q = Some m \<and> dom (h_modules (sys_host s)) = {m} \<and>
          Dispose m (sys_host s) = (Ok (), sys_host s))) \<and>
    fst (GetHttpModule he t f b (sys_host s)) \<noteq> Undef"
proof -
  obtain fo where fo: "h_factories (sys_host s) f = Some fo"
    and mods: "h_modules (sys_host s) = (case m_pModule fo of None \<Rightarrow> Map.empty
       | Some m \<Rightarrow> [m \<mapsto> \<lparr> m_hEventLog = g_hEventLog (h_world (sys_host s)) \<rparr>])"
    and lock: "\<And>t. m_csLock fo = Some t \<longleftrightarrow> sys_pc s t \<in> {Gm_Locked, Gm_Thrown}"
    and fin: "\<And>t p. sys_pc s t = Gm_Done S_OK p \<Longrightarrow> p \<noteq> None \<and> p = m_pModule fo"
    by (rule host_inv_factory[OF assms]) (rule that)
  have excl: "sys_pc s t = Gm_Locked \<and> sys_pc s u = Gm_Locked \<longrightarrow> t = u"
    using lock[of t] lock[of u] by auto
  have same: "\<exists>m. p = Some m \<and> q = Some m \<and> dom (h_modules (sys_host s)) = {m} \<and>
      Dispose m (sys_host s) = (Ok (), sys_host s)"
    if "sys_pc s t = Gm_Done S_OK p" "sys_pc s u = Gm_Done S_OK q"
    using fin[OF that(1)] fin[OF that(2)] mods
    by (auto simp: Dispose_def the_module_def bnd_def ret_def)
  have "fst (GetHttpModule he t f b (sys_host s)) \<noteq> Undef"
  proof (cases "b \<and> (m_csLock fo = None \<or> m_csLock fo = Some t)")
    case True
    let ?h1 = "(sys_host s)\<lparr>h_factories := (h_factories (sys_host s))(f \<mapsto> fo\<lparr>m_csLock := Some t\<rparr>)\<rparr>"
    obtain r h' where locked: "gm_locked he f ?h1 = (r, h')" by fastforce
    have "h_factories ?h1 f = Some (fo\<lparr>m_csLock := Some t\<rparr>)" by simp
    from this locked have "(\<exists>hr. r = Ok hr \<and> h_factories h' f \<noteq> None) \<or> (\<exists>e. r = Throw e)"
      by (cases rule: run_gm_locked) auto
    with True locked show ?thesis
      by (auto simp: GetHttpModule_def run_gm_enter[OF fo] gm_read_def the_factory_def bnd_def ret_def
          split: if_splits)
  next
    case False
    then show ?thesis
      by (auto simp: GetHttpModule_def run_gm_enter[OF fo] bnd_def ret_def)
  qed
  with excl same show ?thesis by blast
qed

theorem module_singleton_witness:
  "\<exists>s m. reach (loaded quiet_host_env 0) (host_step quiet_host_env 0) s \<and>
     sys_pc s 1 = Gm_Done S_OK (Some m) \<and> sys_pc s 2 = Gm_Done S_OK (Some m) \<and>
     dom (h_modules (sys_host s)) = {m}"
proof -
  obtain s0 where s0: "loaded quiet_host_env 0 s0" "sys_pc s0 = (\<lambda>_. Gm_Start)"
    by (rule quiet_process_loads[of quiet_host_env]) simp_all
  have r0: "reach (loaded quiet_host_env 0) (host_step quiet_host_env 0) s0"
    by (rule reach_init) (rule s0(1))
  obtain s1 m1 where r1: "reach (loaded quiet_host_env 0) (host_step quiet_host_env 0) s1"
    and pc1: "sys_pc s1 = (sys_pc s0)(1 := Gm_Done S_OK (Some m1))"
    by (rule thread_gets_module[OF r0, of 1]) (simp_all add: s0(2))
  obtain s2 m2 where r2: "reach (loaded quiet_host_env 0) (host_step quiet_host_env 0) s2"
    and pc2: "sys_pc s2 = (sys_pc s1)(2 := Gm_Done S_OK (Some m2))"
    by (rule thread_gets_module[OF r1, of 2]) (simp_all add: pc1 s0(2))
  from module_singleton[OF r2, of 1 2 "Some m1" "Some m2"] pc1 pc2 s0(2) r2 show ?thesis
    by (intro exI[of _ s2] exI[of _ m1]) simp
qed

lemma thrown_stays:
  assumes "reach (\<lambda>x. x = s) (host_step he f) s'" and "sys_pc s t = Gm_Thrown"
  shows "sys_pc s' t = Gm_Thrown"
  using assms(1)
proof (induction rule: reach.induct)
  case (reach_init s'')
  with assms(2) show ?case by simp
next
  case (reach_step x y)
  from reach_step(2) reach_step.IH show ?case by cases auto
qed

text \<open>C34: If the constructor of the module throws, which \<open>new (std::nothrow)\<close> does not prevent, the
  critical section is never left: from then on every other thread that asks for the module waits
  forever.\<close>

theorem constructor_throw_blocks_factory:
  assumes "reach (loaded he f) (host_step he f) s" and "sys_pc s t = Gm_Thrown"
    and "reach (\<lambda>x. x = s) (host_step he f) s'" and "u \<noteq> t"
  shows "GetHttpModule he u f True (sys_host s') = (Ok None, sys_host s')"
proof -
  have r: "reach (loaded he f) (host_step he f) s'" using assms(1,3) by (rule reach_trans)
  obtain fo where fo: "h_factories (sys_host s') f = Some fo"
    and lock: "\<And>t. m_csLock fo = Some t \<longleftrightarrow> sys_pc s' t \<in> {Gm_Locked, Gm_Thrown}"
    by (rule host_inv_factory[OF r]) (rule that)
  from thrown_stays[OF assms(3,2)] lock[of t] have "m_csLock fo = Some t" by simp
  with assms(4) show ?thesis
    by (simp add: GetHttpModule_def run_gm_enter[OF fo] bnd_def ret_def)
qed

theorem constructor_throw_blocks_factory_witness:
  "\<exists>s :: host_sys. sys_pc s 1 = Gm_Thrown \<and>
     GetHttpModule (quiet_host_env\<lparr>h_env := quiet_env\<lparr>bad_alloc := (\<lambda>_. True)\<rparr>\<rparr>) 2 0 True (sys_host s)
       = (Ok None, sys_host s)"
proof -
  let ?he = "quiet_host_env\<lparr>h_env := quiet_env\<lparr>bad_alloc := (\<lambda>_. True)\<rparr>\<rparr>"
  obtain s0 where s0: "loaded ?he 0 s0" "sys_pc s0 = (\<lambda>_. Gm_Start)"
    and fo: "h_factories (sys_host s0) 0 = Some \<lparr> m_pModule = None, m_csLock = None \<rparr>"
    and fresh: "h_world (sys_host s0) = h_world start_host"
    by (rule quiet_process_loads[of ?he]) simp_all
  let ?h0 = "sys_host s0"
  let ?h1 = "?h0\<lparr>h_factories := (h_factories ?h0)(0 \<mapsto> \<lparr> m_pModule = None, m_csLock = Some 1 \<rparr>)\<rparr>"
  let ?s1 = "s0\<lparr>sys_host := ?h1, sys_pc := (sys_pc s0)(1 := Gm_Locked)\<rparr>"
  have "host_step ?he 0 s0 ?s1"
    using fresh s0(2) by (intro step_enter) (simp_all add: run_gm_enter[OF fo])
  with s0(1) have r1: "reach (loaded ?he 0) (host_step ?he 0) ?s1"
    by (meson reach_init reach_step)
  obtain h2 where "gm_locked ?he 0 ?h1 = (Throw (StdException ''bad allocation''), h2)"
    using fresh by (simp add: gm_locked_def gm_create_def new_module_def CMyHttpModule_def engine_def
        heap_alloc_def the_factory_def in_world_def hemit_def prog_defs)
  then have "host_step ?he 0 ?s1 (?s1\<lparr>sys_host := h2, sys_pc := (sys_pc ?s1)(1 := Gm_Thrown)\<rparr>)"
    (is "host_step _ _ _ ?s2") by (intro step_throw) simp_all
  with r1 have r2: "reach (loaded ?he 0) (host_step ?he 0) ?s2" by (rule reach_step)
  have thrown: "sys_pc ?s2 1 = Gm_Thrown" by simp
  have "reach (\<lambda>x. x = ?s2) (host_step ?he 0) ?s2" by (rule reach_init) simp
  from constructor_throw_blocks_factory[OF r2 thrown this, of 2] thrown show ?thesis
    by (intro exI[of _ ?s2]) simp
qed

text \<open>C22: When IIS unloads the module and no thread is in \<open>GetHttpModule\<close>, \<open>Terminate\<close> deletes the
  module and the factory and closes every handle to the event source; the log writer then writes
  nothing, and a second \<open>Terminate\<close> would be a use after free.\<close>

theorem terminate_releases_all:
  assumes "reach (loaded he f) (host_step he f) s"
    and "\<And>t. sys_pc s t \<notin> {Gm_Locked, Gm_Thrown, Gm_Unlocked}"
  shows "\<exists>h'. Terminate f (sys_host s) = (Ok (), h') \<and> h_modules h' = Map.empty \<and>
    h_factories h' f = None \<and> sources (h_evs h') = 0 \<and> \<not> g_hEventLog (h_world h') \<and>
    in_world (WriteEventViewerLog msg c) h' = (Ok (), h') \<and> Terminate f h' = (Undef, h')"
proof -
  obtain fo where fo: "h_factories (sys_host s) f = Some fo"
    and mods: "h_modules (sys_host s) = (case m_pModule fo of None \<Rightarrow> Map.empty
       | Some m \<Rightarrow> [m \<mapsto> \<lparr> m_hEventLog = g_hEventLog (h_world (sys_host s)) \<rparr>])"
    and src: "sources (h_evs (sys_host s)) = (if g_hEventLog (h_world (sys_host s)) then 1 else 0)"
    and none: "m_pModule fo = None \<Longrightarrow> \<forall>t. sys_pc s t \<noteq> Gm_Thrown \<Longrightarrow> \<not> g_hEventLog (h_world (sys_host s))"
    by (rule host_inv_factory[OF assms(1)]) (rule that)
  have "\<forall>t. sys_pc s t \<noteq> Gm_Thrown" using assms(2) by auto
  with none have none: "m_pModule fo = None \<Longrightarrow> \<not> g_hEventLog (h_world (sys_host s))" by blast
  have "\<exists>h'. Terminate f (sys_host s) = (Ok (), h') \<and> h_modules h' = Map.empty \<and>
      h_factories h' f = None \<and> sources (h_evs h') = 0 \<and> \<not> g_hEventLog (h_world h')"
  proof (cases "m_pModule fo")
    case None
    with fo mods src none show ?thesis
      by (simp add: Terminate_def delete_factory_def the_factory_def hemit_def bnd_def
          andThen_def ret_def modify_def)
  next
    case (Some m)
    with fo mods src show ?thesis
      by (cases "g_hEventLog (h_world (sys_host s))")
        (simp_all add: Terminate_def delete_factory_def delete_module_def
            destroy_CMyHttpModule_def the_factory_def set_factory_def the_module_def hemit_def
            in_world_def whenever_def bnd_def andThen_def ret_def modify_def)
  qed
  then obtain h' where run: "Terminate f (sys_host s) = (Ok (), h')" and mods': "h_modules h' = Map.empty"
    and gone: "h_factories h' f = None" and src': "sources (h_evs h') = 0"
    and log: "\<not> g_hEventLog (h_world h')" by blast
  have "in_world (WriteEventViewerLog msg c) h' = (Ok (), h')"
    using log by (simp add: in_world_def WriteEventViewerLog_def bnd_def gets_def ret_def split: option.split)
  moreover have "Terminate f h' = (Undef, h')"
    using gone by (simp add: Terminate_def the_factory_def bnd_def undef_def)
  ultimately show ?thesis using run mods' gone src' log by blast
qed

theorem terminate_releases_all_witness:
  "\<exists>(s :: host_sys) h'. dom (h_modules (sys_host s)) \<noteq> {} \<and> Terminate 0 (sys_host s) = (Ok (), h') \<and>
     h_modules h' = Map.empty \<and> sources (h_evs h') = 0"
proof -
  obtain s0 where s0: "loaded quiet_host_env 0 s0" "sys_pc s0 = (\<lambda>_. Gm_Start)"
    by (rule quiet_process_loads[of quiet_host_env]) simp_all
  have r0: "reach (loaded quiet_host_env 0) (host_step quiet_host_env 0) s0"
    by (rule reach_init) (rule s0(1))
  obtain s1 m1 where r1: "reach (loaded quiet_host_env 0) (host_step quiet_host_env 0) s1"
    and pc1: "sys_pc s1 = (sys_pc s0)(1 := Gm_Done S_OK (Some m1))"
    by (rule thread_gets_module[OF r0, of 1]) (simp_all add: s0(2))
  obtain fo where "h_factories (sys_host s1) 0 = Some fo" and mods: "h_modules (sys_host s1) = (case m_pModule fo of None \<Rightarrow> Map.empty
       | Some m \<Rightarrow> [m \<mapsto> \<lparr> m_hEventLog = g_hEventLog (h_world (sys_host s1)) \<rparr>])"
    and fin: "\<And>t p. sys_pc s1 t = Gm_Done S_OK p \<Longrightarrow> p \<noteq> None \<and> p = m_pModule fo"
    by (rule host_inv_factory[OF r1]) (rule that)
  from fin[of 1 "Some m1"] mods pc1 have some: "dom (h_modules (sys_host s1)) \<noteq> {}"
    by (auto split: option.splits)
  have calm: "sys_pc s1 t \<notin> {Gm_Locked, Gm_Thrown, Gm_Unlocked}" for t
    by (simp add: pc1 s0(2))
  from terminate_releases_all[OF r1 calm, of None EVENTLOG_ERROR_TYPE] obtain h' where
    "Terminate 0 (sys_host s1) = (Ok (), h')" "h_modules h' = Map.empty" "sources (h_evs h') = 0"
    by (elim exE conjE) (rule that)
  with some show ?thesis by (intro exI[of _ s1] exI[of _ h']) simp
qed

end
