(* ===== verification/Spec2Isabelle.thy ===== *)
theory Spec2Isabelle
  imports Server Registration
begin

text \<open>
  ModSecurityIIS is a native IIS module that runs the libModSecurity v3 engine over requests and
  responses. This development models its C++ code under \<open>src/\<close>, every function of it, and proves
  what makes it correct. The files it models are \<open>ModSecurityIIS.cpp\<close> and \<open>.h\<close>,
  \<open>connector.cpp\<close> and \<open>.h\<close>, \<open>moduleconfig.cpp\<close> and \<open>.h\<close>, and \<open>mymodulefactory.h\<close>.

  The program. IIS loads the module, which registers a factory for the begin-request,
  send-response and end-request notifications; the factory creates one module object for the
  process. OnBeginRequest reads the site's configuration, loads its rules through a cache,
  opens an engine transaction, attaches a context to the request, feeds connection, URI and
  headers, and reads the entity body, asynchronously with one outstanding read, up to an
  inspection cap. What was read is put back for the application and its prefix is shown to the
  engine. OnAsyncCompletion goes on with the reading. OnSendResponse feeds response headers and
  body chunks and may rewrite the response. IIS deletes the context at the end of the request,
  which logs and deletes the transaction.

  Conventions. A C++ function is a program \<open>state \<Rightarrow> outcome \<times> state\<close> (\<open>Prelude\<close>); its outcome is a
  value, an exception in flight, or undefined behaviour, which no handler catches. Early
  returns are branches, \<open>break\<close> out of the \<open>do ... while (0)\<close> blocks is the right side of a
  sum. Integers have their width where it matters (\<open>DWORD\<close>, \<open>ULONGLONG\<close> are words, sizes of
  vectors are natural numbers). A counted string is the memory it points to and a separate
  length. Pointers to contexts, factories and modules are keys of maps, so that a use after
  \<open>delete\<close> is undefined. Windows, IIS, the COM administration interfaces and libModSecurity are
  fields of an environment record; an answer that may change is a function of the trace so
  far. Calls that matter are recorded in the trace as events.

  Theories and the code they model.

    \<^item> \<open>Prelude\<close>: programs, total-correctness triples with one rule per combinator, reachability
      with the locales \<open>inv_system\<close> (an invariant) and \<open>simulation\<close> (refinement of an abstract
      system), the locales \<open>memo\<close> and \<open>reliable_memo\<close> for values created by the first caller.
    \<^item> \<open>Platform\<close>: Windows types and result codes, the structures of http.sys, the environment, the
      state (\<open>request_ctx\<close> is REQUEST_STORED_CONTEXT of \<open>ModSecurityIIS.h\<close>, \<open>world\<close> holds the
      globals, the stored contexts and the trace), what a program may add to the trace.
    \<^item> \<open>Helpers\<close>: the string, address, verb, version, reason and setting helpers, and
      \<open>GetEntityBodyInfo\<close>, of \<open>ModSecurityIIS.cpp\<close>.
    \<^item> \<open>Connector\<close>: \<open>connector.cpp\<close>: the event-log writer, the rate limit of the server log, the engine
      singleton, the rules cache with its two critical sections interleaved between threads.
    \<^item> \<open>Debug_Trace\<close>: \<open>IisTraceEnabled\<close> and \<open>IisTrace\<close>.
    \<^item> \<open>Registration\<close>: \<open>RegisterModule\<close>, the factory of \<open>mymodulefactory.h\<close>, the constructor, destructor and
      methods of CMyHttpModule, and threads in \<open>GetHttpModule\<close>.
    \<^item> \<open>Module_Config\<close>: \<open>moduleconfig.cpp\<close>: the property readers, \<open>Initialize\<close>, \<open>GetConfig\<close>.
    \<^item> \<open>Request_Context\<close>: \<open>FinishRequest\<close> and \<open>CleanupStoredContext\<close> of \<open>ModSecurityIIS.h\<close>,
      \<open>ApplyIntervention\<close> and the blocking gate; the invariant of contexts and transactions.
    \<^item> \<open>Body_Read\<close>: \<open>BeginBodyRead\<close>, \<open>PumpBodyRead\<close>, \<open>ConsumeBodyChunk\<close>, \<open>FinishBodyRead\<close>, \<open>OnAsyncCompletion\<close>.
    \<^item> \<open>Begin_Request\<close>: \<open>OnBeginRequest\<close>.
    \<^item> \<open>Send_Response\<close>: \<open>AppendResponseFileChunk\<close>, \<open>OnSendResponse\<close>, its exception policy, \<open>OnPostEndRequest\<close>.
    \<^item> \<open>Handler_Frames\<close>: what no handler does to the trace and the stored configuration.
    \<^item> \<open>Lifecycle\<close>: the handlers composed: IIS as a step relation over requests that follow one another.
    \<^item> \<open>Globals\<close>: what every handler does to the state the requests of a process share: along the
      preorder \<open>grown\<close> (an interpretation of the locale \<open>frame\<close>) it only grows.
    \<^item> \<open>Server\<close>: any number of requests at a time in one worker process, over the shared state.

  What the groups of theorems show.

    \<^item> Containment and progress: each handler returns a status from every state IIS can bring the
      process to; exceptions and undefined behaviour are excluded, except where a theorem exhibits
      them (the findings).
    \<^item> No silent bypass: a request goes on only inspected, with its body restored, or for a listed
      reason; failures to read the configuration or the rules reject it.
    \<^item> Bodies: what is put back is all that was read, what the engine sees is its prefix up to the
      cap; the same for one response notification, over memory chunks and file ranges.
    \<^item> State machines: one outstanding read at most, its completion is claimed once; the phases of a
      transaction run at most once; each request of the process refines a specification of a few
      transitions, however the handlers of other requests come in between.
    \<^item> Shared state: the engine, the read mode and the cached rules are kept for good, the notices that
      are meant to be logged once per process are, over all requests.
    \<^item> Transactions end exactly once, COM objects are released on every path, the factory and the
      module are freed once, event sources are closed.
    \<^item> Threads: one rules set per file, one module per process, at most one thread inside a critical
      section.
    \<^item> Findings: statements of what the code does where it does not do what it means to.

  Bounds and fuel. The read loop of \<open>PumpBodyRead\<close> has as fuel the number of bytes of the
  inspection cap: every turn that asks for another read has added at least one byte, so the
  fuel does not run out (\<open>read_loop_ends\<close>, and \<open>triple_pump_loop\<close> for the handlers). The file loop
  is a function with a termination proof: a short read shrinks the rest. Theorems about bodies
  assume that the cap leaves room for one chunk below 2^32 bytes (\<open>body_host\<close>);
  \<open>dword_cast_overflow\<close> shows what happens at the largest cap. What IIS is assumed to guarantee is
  stated by \<open>config_host\<close>, \<open>container_host\<close>, \<open>body_host\<close>, \<open>valid_request\<close> and \<open>valid_response\<close>: counted strings
  lie within their memory, a completion counts no more bytes than the buffer has, an unused
  slot of the context container is not reported as assigned.

  Concurrency. Handlers of one request do not overlap: IIS runs the completion of a pended read
  only after it was issued, and the code publishes the pending state first and touches nothing
  of the context after the call, so that a completion that arrives while the handler returns
  is the same as one that arrives later. Handlers of different requests are interleaved in any
  order, one handler at a time (\<open>Server\<close>). Inside a handler requests meet in the rules cache and in
  the factory, whose critical sections are interleaved one by one (\<open>Connector\<close>, \<open>Registration\<close>); the
  notice flags are exchanged atomically, every thread that chooses the read mode chooses the
  same one, the engine is created under a lock of its own; a configuration stored by another thread between
  the look-up and the store is the field \<open>concurrent_config\<close> of the environment.

  Not modelled: the calls of \<open>IisTrace\<close> inside the handlers (their effect is \<open>Debug_Trace\<close>, no handler
  depends on it); the destructor and getters of the configuration object (a deleted object is
  an event, a getter is the field); declarations, includes and comments, which are the rest of
  the uncovered lines; structured exceptions of \<open>InitializeCriticalSection\<close>. CMake, the installer
  scripts, the workflows and the Go test harness are not part of the module.
\<close>

end
